(* ===== verification/Prelude.thy ===== *)
theory Prelude
  imports Main "HOL-Library.Word" "HOL-Library.Signed_Division"
begin

text \<open>
  Shared vocabulary of the development: the faults a C++ operation can end with, the
  outcome type that carries them, \<^verbatim>\<open>size_t\<close> arithmetic with its wrap-around written out,
  reads and writes of contiguous memory (the standard library's \<^verbatim>\<open>std::copy\<close>,
  \<^verbatim>\<open>std::search\<close>, \<^verbatim>\<open>memchr\<close> and \<^verbatim>\<open>vector::resize\<close>), and the generic lemmas that
  the component theories rest on.
\<close>

section \<open>Faults and outcomes\<close>

text \<open>
  The program is built in CMake's Debug configuration unless told otherwise, so an
  \<^verbatim>\<open>assert\<close> that does not hold ends the process.  The other faults are the standard
  library's exceptions, accesses outside an object, and \<^verbatim>\<open>LOG_SYSFATAL\<close>, which aborts.
\<close>

datatype cfault =
    Assertion_Failed
  | Length_Error
  | Out_Of_Range
  | Null_Dereference
  | Dangling_Pointer
  | Fatal_Abort
  | Logic_Error string

type_synonym 'a outcome = "cfault + 'a"
type_synonym byte = "8 word"

definition seq :: "'a outcome \<Rightarrow> ('a \<Rightarrow> 'b outcome) \<Rightarrow> 'b outcome" where
  "seq r k = (case r of Inl e \<Rightarrow> Inl e | Inr x \<Rightarrow> k x)"

definition cassert :: "bool \<Rightarrow> 'a outcome \<Rightarrow> 'a outcome" where
  "cassert b k = (if b then k else Inl Assertion_Failed)"

definition returns :: "'a outcome \<Rightarrow> bool" where
  "returns r = (case r of Inl _ \<Rightarrow> False | Inr _ \<Rightarrow> True)"

named_theorems outcome_simps \<open>unfolding of the outcome combinators\<close>
named_theorems size_simps \<open>size_t arithmetic without wrap-around\<close>

section \<open>The size_t type\<close>

text \<open>A \<^verbatim>\<open>size_t\<close> is a natural number below \<open>2 ^ 64\<close>; its sums and differences wrap.\<close>

definition size_add :: "nat \<Rightarrow> nat \<Rightarrow> nat" where
  "size_add a b = (a + b) mod 2 ^ 64"

definition size_sub :: "nat \<Rightarrow> nat \<Rightarrow> nat" where
  "size_sub a b = (a + (2 ^ 64 - b mod 2 ^ 64)) mod 2 ^ 64"

text \<open>\<^verbatim>\<open>vector<char>::max_size()\<close> and the conversions between \<^verbatim>\<open>int\<close> and \<^verbatim>\<open>size_t\<close>.\<close>

definition vec_max :: nat where
  "vec_max = 2 ^ 63 - 1"

definition int_of_size :: "nat \<Rightarrow> int" where
  "int_of_size n = sint (word_of_nat n :: 32 word)"

definition size_of_int :: "int \<Rightarrow> nat" where
  "size_of_int i = nat (i mod 2 ^ 64)"

text \<open>\<^verbatim>\<open>static_cast<int>\<close> and the conversion to \<^verbatim>\<open>unsigned\<close>.\<close>

definition int32 :: "int \<Rightarrow> int" where
  "int32 x = sint (word_of_int x :: 32 word)"

text \<open>The \<^verbatim>\<open>int\<close> operations: the result at 32 bits.\<close>

definition add32 :: "int \<Rightarrow> int \<Rightarrow> int" where
  "add32 x y = int32 (x + y)"

definition sub32 :: "int \<Rightarrow> int \<Rightarrow> int" where
  "sub32 x y = int32 (x - y)"

definition mul32 :: "int \<Rightarrow> int \<Rightarrow> int" where
  "mul32 x y = int32 (x * y)"

definition uint32 :: "int \<Rightarrow> int" where
  "uint32 x = x mod 2 ^ 32"

section \<open>Contiguous memory\<close>

definition mem_write :: "'a list \<Rightarrow> nat \<Rightarrow> 'a list \<Rightarrow> 'a list outcome" where
  "mem_write m i xs =
     (if i + length xs \<le> length m then Inr (take i m @ xs @ drop (i + length xs) m)
      else Inl Out_Of_Range)"

definition mem_read :: "'a list \<Rightarrow> nat \<Rightarrow> nat \<Rightarrow> 'a list outcome" where
  "mem_read m i n = (if i + n \<le> length m then Inr (take n (drop i m)) else Inl Out_Of_Range)"

definition vec_resize :: "'a \<Rightarrow> 'a list \<Rightarrow> nat \<Rightarrow> 'a list outcome" where
  "vec_resize z v n =
     (if vec_max < n then Inl Length_Error else Inr (take n v @ replicate (n - length v) z))"

text \<open>\<^verbatim>\<open>std::search\<close>: the offset of the first occurrence of a pattern.\<close>

fun first_match :: "'a list \<Rightarrow> 'a list \<Rightarrow> nat option" where
  "first_match pat [] = (if pat = [] then Some 0 else None)"
| "first_match pat (x # xs) =
     (if take (length pat) (x # xs) = pat then Some 0 else map_option Suc (first_match pat xs))"

section \<open>Lemmas on outcomes\<close>

lemma seq_Inl [simp, outcome_simps]: "seq (Inl e) k = Inl e"
  by (simp add: seq_def)

lemma seq_Inr [simp, outcome_simps]: "seq (Inr x) k = k x"
  by (simp add: seq_def)

lemma seq_eq_Inr [outcome_simps]: "seq r k = Inr y \<longleftrightarrow> (\<exists>x. r = Inr x \<and> k x = Inr y)"
  by (cases r) auto

lemma cassert_True [simp, outcome_simps]: "cassert True k = k"
  by (simp add: cassert_def)

lemma cassert_False [simp, outcome_simps]: "cassert False k = Inl Assertion_Failed"
  by (simp add: cassert_def)

lemma cassert_eq_Inr [outcome_simps]: "cassert b k = Inr y \<longleftrightarrow> b \<and> k = Inr y"
  by (simp add: cassert_def)

lemma returns_iff: "returns r \<longleftrightarrow> (\<exists>x. r = Inr x)"
  by (cases r) (auto simp: returns_def)

lemma returns_Inr [simp]: "returns (Inr x)" and returns_Inl [simp]: "\<not> returns (Inl e)"
  by (simp_all add: returns_def)

text \<open>A result without a fault that satisfies \<open>P\<close>, and how it is composed.\<close>

definition yields :: "'a outcome \<Rightarrow> ('a \<Rightarrow> bool) \<Rightarrow> bool" where
  "yields r P \<longleftrightarrow> (\<exists>x. r = Inr x \<and> P x)"

lemma yields_Inr [simp]: "yields (Inr x) P \<longleftrightarrow> P x" and yields_Inl [simp]: "\<not> yields (Inl e) P"
  by (simp_all add: yields_def)

lemma yields_seq: "yields r P \<Longrightarrow> (\<And>x. P x \<Longrightarrow> yields (k x) Q) \<Longrightarrow> yields (seq r k) Q"
  by (cases r) simp_all

lemma yields_mono: "yields r P \<Longrightarrow> (\<And>x. P x \<Longrightarrow> Q x) \<Longrightarrow> yields r Q"
  by (cases r) simp_all

section \<open>Lemmas on size_t\<close>

lemma size_add_small [size_simps]: "a + b < 2 ^ 64 \<Longrightarrow> size_add a b = a + b"
  by (simp add: size_add_def)

lemma size_sub_le [size_simps]: "b \<le> a \<Longrightarrow> a < 2 ^ 64 \<Longrightarrow> size_sub a b = a - b"
proof -
  assume h: "b \<le> a" "a < 2 ^ 64"
  then have "a + (2 ^ 64 - b mod 2 ^ 64) = (a - b) + 2 ^ 64" by simp
  then have "size_sub a b = ((a - b) + 2 ^ 64) mod 2 ^ 64" by (simp only: size_sub_def)
  also have "\<dots> = a - b" using h by (simp only: mod_add_self2) simp
  finally show ?thesis .
qed

lemma size_add_less: "size_add a b < 2 ^ 64" and size_sub_less: "size_sub a b < 2 ^ 64"
  by (simp_all add: size_add_def size_sub_def)

lemma int_of_size_small: "n < 2 ^ 31 \<Longrightarrow> int_of_size n = int n"
proof -
  assume h: "n < 2 ^ 31"
  have "sint (word_of_nat n :: 32 word) = signed_take_bit 31 (int n)"
    by (simp add: signed_of_nat)
  also have "\<dots> = int n"
    using h by (intro signed_take_bit_int_eq_self) simp_all
  finally show ?thesis by (simp add: int_of_size_def)
qed

lemma size_of_int_nat: "n < 2 ^ 64 \<Longrightarrow> size_of_int (int n) = n"
  by (simp add: size_of_int_def nat_mod_distrib)

lemma int32_small: "- (2 ^ 31) \<le> x \<Longrightarrow> x < 2 ^ 31 \<Longrightarrow> int32 x = x"
  unfolding int32_def by (simp add: signed_of_int signed_take_bit_int_eq_self)

lemma add32_small: "- (2 ^ 31) \<le> x + y \<Longrightarrow> x + y < 2 ^ 31 \<Longrightarrow> add32 x y = x + y"
  by (simp add: add32_def int32_small)

lemma sub32_small: "- (2 ^ 31) \<le> x - y \<Longrightarrow> x - y < 2 ^ 31 \<Longrightarrow> sub32 x y = x - y"
  by (simp add: sub32_def int32_small)

lemma mul32_small: "- (2 ^ 31) \<le> x * y \<Longrightarrow> x * y < 2 ^ 31 \<Longrightarrow> mul32 x y = x * y"
  by (simp add: mul32_def int32_small)

lemmas small32 = add32_small sub32_small mul32_small

lemma uint32_small: "0 \<le> x \<Longrightarrow> x < 2 ^ 32 \<Longrightarrow> uint32 x = x"
  by (simp add: uint32_def)

lemma unat_bound: "unat (x :: 'a::len word) < 2 ^ LENGTH('a)"
  by simp

section \<open>Truncated division\<close>

text \<open>
  C++ divides towards zero: \<^term>\<open>a sdiv b\<close> and \<^term>\<open>a smod b\<close>.  On dividends that are not
  negative this is HOL's division.
\<close>

named_theorems trunc_simps \<open>truncated division of non-negative numbers\<close>

lemma sdiv_nonneg [trunc_simps]: "0 \<le> a \<Longrightarrow> 0 < b \<Longrightarrow> a sdiv b = a div (b :: int)"
  by (cases "a = 0") (simp_all add: signed_divide_int_def)

lemma smod_nonneg [trunc_simps]: "0 \<le> a \<Longrightarrow> 0 < b \<Longrightarrow> a smod b = a mod (b :: int)"
  by (cases "a = 0") (simp_all add: signed_modulo_int_def)

lemma sdiv_neg: "a \<le> 0 \<Longrightarrow> 0 < b \<Longrightarrow> a sdiv b = - ((- a) div (b :: int))"
  by (cases "a = 0") (simp_all add: signed_divide_int_def)

lemma smod_neg: "a \<le> 0 \<Longrightarrow> 0 < b \<Longrightarrow> a smod b = - ((- a) mod (b :: int))"
  by (cases "a = 0") (simp_all add: signed_modulo_int_def)

section \<open>Lemmas on memory\<close>

lemma length_mem_write: "mem_write m i xs = Inr m' \<Longrightarrow> length m' = length m"
  by (auto simp: mem_write_def split: if_splits)

lemma mem_write_in_range:
  "i + length xs \<le> length m \<Longrightarrow> mem_write m i xs = Inr (take i m @ xs @ drop (i + length xs) m)"
  by (simp add: mem_write_def)

lemma slice_after_write:
  assumes "r \<le> w" "w \<le> length d"
  shows "take (w + length xs - r) (drop r (take w d @ xs @ zs)) = take (w - r) (drop r d) @ xs"
proof -
  have "drop r (take w d @ xs @ zs) = take (w - r) (drop r d) @ xs @ zs"
    using assms by (simp add: drop_take)
  moreover have "length (take (w - r) (drop r d)) = w - r"
    using assms by simp
  moreover have "w + length xs - r = (w - r) + length xs"
    using assms by simp
  ultimately show ?thesis
    by (metis append_assoc append_eq_conv_conj length_append)
qed

lemma vec_resize_grow:
  "length v \<le> n \<Longrightarrow> n \<le> vec_max \<Longrightarrow> vec_resize z v n = Inr (v @ replicate (n - length v) z)"
  by (simp add: vec_resize_def)

lemma first_match_Some:
  "first_match pat xs = Some i \<Longrightarrow>
     i + length pat \<le> length xs \<and> take (length pat) (drop i xs) = pat
     \<and> (\<forall>j<i. take (length pat) (drop j xs) \<noteq> pat)"
proof (induction xs arbitrary: i)
  case Nil
  then show ?case by (simp split: if_splits)
next
  case (Cons x xs)
  show ?case
  proof (cases "take (length pat) (x # xs) = pat")
    case True
    then have "length pat \<le> length (x # xs)" by (metis length_take min.cobounded1)
    with True Cons.prems show ?thesis by simp
  next
    case False
    with Cons.prems obtain k where k: "first_match pat xs = Some k" "i = Suc k" by auto
    have "take (length pat) (drop j (x # xs)) \<noteq> pat" if "j < i" for j
      using that False k Cons.IH[OF k(1)] by (cases j) auto
    with Cons.IH[OF k(1)] k show ?thesis by auto
  qed
qed

lemma first_match_None:
  "first_match pat xs = None \<Longrightarrow> pat \<noteq> [] \<Longrightarrow> take (length pat) (drop j xs) \<noteq> pat"
proof (induction xs arbitrary: j)
  case Nil
  then show ?case by simp
next
  case (Cons x xs)
  then show ?case by (cases j) (auto split: if_splits)
qed

end
