(* ===== verification/Endian_Order.thy ===== *)
theory Endian_Order
  imports Prelude
begin

text \<open>
  \<^verbatim>\<open>src/src/port/Endian.h\<close>: the conversions between host and network byte order.  The byte
  order of the host is a parameter, so that what is proved of the wire format holds on
  every machine the program is built for.
\<close>

section \<open>Object representations\<close>

datatype host_order = Little_Endian | Big_Endian

text \<open>The bytes of a \<open>k\<close>-byte unsigned integer, least significant byte first.\<close>

fun le_bytes :: "nat \<Rightarrow> nat \<Rightarrow> byte list" where
  "le_bytes 0 n = []"
| "le_bytes (Suc k) n = word_of_nat (n mod 256) # le_bytes k (n div 256)"

fun le_val :: "byte list \<Rightarrow> nat" where
  "le_val [] = 0"
| "le_val (b # bs) = unat b + 256 * le_val bs"

definition be_bytes :: "nat \<Rightarrow> nat \<Rightarrow> byte list" where
  "be_bytes k n = rev (le_bytes k n)"

text \<open>What \<^verbatim>\<open>memcpy\<close> from and to an integer object moves.\<close>

definition object_bytes :: "host_order \<Rightarrow> nat \<Rightarrow> nat \<Rightarrow> byte list" where
  "object_bytes h k n = (case h of Little_Endian \<Rightarrow> le_bytes k n | Big_Endian \<Rightarrow> rev (le_bytes k n))"

definition object_value :: "host_order \<Rightarrow> byte list \<Rightarrow> nat" where
  "object_value h bs = (case h of Little_Endian \<Rightarrow> le_val bs | Big_Endian \<Rightarrow> le_val (rev bs))"

text \<open>\<^verbatim>\<open>htobe16/32/64\<close> and \<^verbatim>\<open>be16/32/64toh\<close> swap the bytes on a little-endian host only.\<close>

definition bswap :: "nat \<Rightarrow> nat \<Rightarrow> nat" where
  "bswap k n = le_val (rev (le_bytes k n))"

definition htobe :: "host_order \<Rightarrow> nat \<Rightarrow> nat \<Rightarrow> nat" where
  "htobe h k n = (case h of Little_Endian \<Rightarrow> bswap k n | Big_Endian \<Rightarrow> n)"

section \<open>Endian.h\<close>

definition hostToNetwork64 :: "host_order \<Rightarrow> 64 word \<Rightarrow> 64 word" where
  "hostToNetwork64 h x = word_of_nat (htobe h 8 (unat x))"

definition hostToNetwork32 :: "host_order \<Rightarrow> 32 word \<Rightarrow> 32 word" where
  "hostToNetwork32 h x = word_of_nat (htobe h 4 (unat x))"

definition hostToNetwork16 :: "host_order \<Rightarrow> 16 word \<Rightarrow> 16 word" where
  "hostToNetwork16 h x = word_of_nat (htobe h 2 (unat x))"

definition networkToHost64 :: "host_order \<Rightarrow> 64 word \<Rightarrow> 64 word" where
  "networkToHost64 h x = word_of_nat (htobe h 8 (unat x))"

definition networkToHost32 :: "host_order \<Rightarrow> 32 word \<Rightarrow> 32 word" where
  "networkToHost32 h x = word_of_nat (htobe h 4 (unat x))"

definition networkToHost16 :: "host_order \<Rightarrow> 16 word \<Rightarrow> 16 word" where
  "networkToHost16 h x = word_of_nat (htobe h 2 (unat x))"

section \<open>Bytes and values\<close>

lemma length_le_bytes [simp]: "length (le_bytes k n) = k"
  by (induction k arbitrary: n) auto

lemma le_bytes_numeral [simp]:
  "le_bytes (numeral v) n = word_of_nat (n mod 256) # le_bytes (pred_numeral v) (n div 256)"
  by (simp only: numeral_eq_Suc[of v] le_bytes.simps)

lemma length_be_bytes [simp]: "length (be_bytes k n) = k"
  by (simp add: be_bytes_def)

lemma length_object_bytes [simp]: "length (object_bytes h k n) = k"
  by (simp add: object_bytes_def split: host_order.split)

lemma unat_byte_of_nat: "unat (word_of_nat (n mod 256) :: byte) = n mod 256"
  by (simp add: unat_of_nat)

lemma le_val_le_bytes: "le_val (le_bytes k n) = n mod 256 ^ k"
proof (induction k arbitrary: n)
  case 0
  then show ?case by simp
next
  case (Suc k)
  have "le_val (le_bytes (Suc k) n) = n mod 256 + 256 * (n div 256 mod 256 ^ k)"
    by (simp add: Suc unat_byte_of_nat del: power_Suc)
  also have "\<dots> = n mod 256 ^ Suc k"
    by (simp add: mod_mult2_eq)
  finally show ?case .
qed

lemma le_val_less: "le_val bs < 256 ^ length bs"
proof (induction bs)
  case (Cons b bs)
  have "unat b < 256" using unat_bound[of b] by simp
  with Cons have "unat b + 256 * le_val bs < 256 * 256 ^ length bs" by linarith
  then show ?case by simp
qed simp

lemma byte_of_le_val: "(word_of_nat ((unat b + 256 * v) mod 256) :: byte) = b"
proof -
  have "(unat b + 256 * v) mod 256 = unat b"
    using unat_bound[of b] by simp
  then show ?thesis by simp
qed

lemma le_bytes_le_val: "le_bytes (length bs) (le_val bs) = bs"
proof (induction bs)
  case (Cons b bs)
  have "(unat b + 256 * le_val bs) div 256 = le_val bs"
    using unat_bound[of b] by simp
  with Cons byte_of_le_val[of b "le_val bs"] show ?case by (simp del: of_nat_mod)
qed simp

lemma le_bytes_mod: "le_bytes k (n mod 256 ^ k) = le_bytes k n"
  using le_bytes_le_val[of "le_bytes k n"] by (simp add: le_val_le_bytes)

section \<open>Byte swapping\<close>

lemma bswap_less: "bswap k n < 256 ^ k"
  using le_val_less[of "rev (le_bytes k n)"] by (simp add: bswap_def)

lemma le_bytes_bswap: "le_bytes k (bswap k n) = be_bytes k n"
  using le_bytes_le_val[of "rev (le_bytes k n)"] by (simp add: bswap_def be_bytes_def)

lemma bswap_bswap: "bswap k (bswap k n) = n mod 256 ^ k"
proof -
  have "bswap k (bswap k n) = le_val (rev (le_bytes k (bswap k n)))"
    by (simp add: bswap_def)
  also have "\<dots> = n mod 256 ^ k"
    by (simp add: le_bytes_bswap be_bytes_def le_val_le_bytes)
  finally show ?thesis .
qed

lemma htobe_less: "n < 256 ^ k \<Longrightarrow> htobe h k n < 256 ^ k"
  by (cases h) (simp_all add: htobe_def bswap_less)

lemma htobe_htobe: "n < 256 ^ k \<Longrightarrow> htobe h k (htobe h k n) = n"
  by (cases h) (simp_all add: htobe_def bswap_bswap)

text \<open>Storing a converted integer lays its bytes down most significant first.\<close>

lemma object_bytes_htobe: "object_bytes h k (htobe h k n) = be_bytes k n"
  by (cases h) (simp_all add: object_bytes_def htobe_def le_bytes_bswap be_bytes_def)

text \<open>Loading big-endian bytes and converting gives the integer back.\<close>

lemma htobe_object_value: "n < 256 ^ k \<Longrightarrow> htobe h k (object_value h (be_bytes k n)) = n"
proof (cases h)
  case Little_Endian
  assume "n < 256 ^ k"
  have "le_val (be_bytes k n) = bswap k n" by (simp add: be_bytes_def bswap_def)
  with Little_Endian \<open>n < 256 ^ k\<close> show ?thesis
    by (simp add: htobe_def object_value_def bswap_bswap)
next
  case Big_Endian
  assume "n < 256 ^ k"
  with Big_Endian show ?thesis
    by (simp add: htobe_def object_value_def be_bytes_def le_val_le_bytes)
qed

lemma object_value_less: "object_value h bs < 256 ^ length bs"
  using le_val_less[of bs] le_val_less[of "rev bs"]
  by (cases h) (simp_all add: object_value_def)

lemmas to_network_defs = hostToNetwork64_def hostToNetwork32_def hostToNetwork16_def
lemmas to_host_defs = networkToHost64_def networkToHost32_def networkToHost16_def

lemma unat_hostToNetwork32: "unat (hostToNetwork32 h x) = htobe h 4 (unat x)"
  using htobe_less[of "unat x" 4 h] unat_bound[of x]
  by (simp add: hostToNetwork32_def unat_of_nat)

lemma unat_hostToNetwork16: "unat (hostToNetwork16 h x) = htobe h 2 (unat x)"
  using htobe_less[of "unat x" 2 h] unat_bound[of x]
  by (simp add: hostToNetwork16_def unat_of_nat)

lemma unat_hostToNetwork64: "unat (hostToNetwork64 h x) = htobe h 8 (unat x)"
  using htobe_less[of "unat x" 8 h] unat_bound[of x]
  by (simp add: hostToNetwork64_def unat_of_nat)

lemma networkToHost32_hostToNetwork32: "networkToHost32 h (hostToNetwork32 h x) = x"
  using unat_bound[of x] by (simp add: networkToHost32_def unat_hostToNetwork32 htobe_htobe)

lemma networkToHost16_hostToNetwork16: "networkToHost16 h (hostToNetwork16 h x) = x"
  using unat_bound[of x] by (simp add: networkToHost16_def unat_hostToNetwork16 htobe_htobe)

lemma networkToHost64_hostToNetwork64: "networkToHost64 h (hostToNetwork64 h x) = x"
  using unat_bound[of x] by (simp add: networkToHost64_def unat_hostToNetwork64 htobe_htobe)

lemma wire_bytes32: "object_bytes h 4 (unat (hostToNetwork32 h x)) = be_bytes 4 (unat x)"
  by (simp add: unat_hostToNetwork32 object_bytes_htobe)

lemma wire_bytes16: "object_bytes h 2 (unat (hostToNetwork16 h x)) = be_bytes 2 (unat x)"
  by (simp add: unat_hostToNetwork16 object_bytes_htobe)

end
