(* ===== verification/String_Piece.thy ===== *)
theory String_Piece
  imports Prelude "HOL-Library.List_Lexorder" "HOL-Library.Sublist"
begin

text \<open>
  \<^verbatim>\<open>src/src/utils/StringPiece.h\<close>: a pointer and an \<^verbatim>\<open>int\<close> length.  The pointer is the
  memory that starts at it, so a read past the end of the object pointed to is visible as
  \<^const>\<open>Out_Of_Range\<close>; the null pointer is the empty memory.  The comparison operators are
  shown to be the lexicographic order of the bytes.
\<close>

record StringPiece =
  sp_mem :: "byte list"
  sp_len :: int

text \<open>The C library functions the class calls.\<close>

definition c_strlen :: "byte list \<Rightarrow> nat outcome" where
  "c_strlen m = (case first_match [0] m of Some n \<Rightarrow> Inr n | None \<Rightarrow> Inl Out_Of_Range)"

fun cmp_bytes :: "byte list \<Rightarrow> byte list \<Rightarrow> int" where
  "cmp_bytes (x # xs) (y # ys) = (if x < y then -1 else if y < x then 1 else cmp_bytes xs ys)"
| "cmp_bytes _ _ = 0"

definition c_memcmp :: "byte list \<Rightarrow> byte list \<Rightarrow> nat \<Rightarrow> int outcome" where
  "c_memcmp a b n =
     (if n \<le> length a \<and> n \<le> length b then Inr (cmp_bytes (take n a) (take n b))
      else Inl Out_Of_Range)"

section \<open>Operations of StringPiece\<close>

definition StringPiece_null :: StringPiece where
  "StringPiece_null = \<lparr>sp_mem = [], sp_len = 0\<rparr>"

definition StringPiece_cstr :: "byte list \<Rightarrow> StringPiece outcome" where
  "StringPiece_cstr str =
     seq (c_strlen str) (\<lambda>n. Inr \<lparr>sp_mem = str, sp_len = int_of_size n\<rparr>)"

definition StringPiece_string :: "byte list \<Rightarrow> StringPiece" where
  "StringPiece_string s = \<lparr>sp_mem = s, sp_len = int_of_size (length s)\<rparr>"

definition StringPiece_range :: "byte list \<Rightarrow> int \<Rightarrow> StringPiece" where
  "StringPiece_range offset len = \<lparr>sp_mem = offset, sp_len = len\<rparr>"

definition sp_empty :: "StringPiece \<Rightarrow> bool" where
  "sp_empty p \<longleftrightarrow> sp_len p = 0"

definition sp_clear :: "StringPiece \<Rightarrow> StringPiece" where
  "sp_clear p = p\<lparr>sp_mem := [], sp_len := 0\<rparr>"

definition sp_set :: "StringPiece \<Rightarrow> byte list \<Rightarrow> int \<Rightarrow> StringPiece" where
  "sp_set p buffer len = p\<lparr>sp_mem := buffer, sp_len := len\<rparr>"

definition sp_set_cstr :: "StringPiece \<Rightarrow> byte list \<Rightarrow> StringPiece outcome" where
  "sp_set_cstr p str =
     seq (c_strlen str) (\<lambda>n. Inr (p\<lparr>sp_mem := str, sp_len := int_of_size n\<rparr>))"

definition sp_index :: "StringPiece \<Rightarrow> int \<Rightarrow> byte outcome" where
  "sp_index p i =
     (if 0 \<le> i \<and> i < int (length (sp_mem p)) then Inr (sp_mem p ! nat i) else Inl Out_Of_Range)"

definition remove_prefix :: "StringPiece \<Rightarrow> nat \<Rightarrow> StringPiece" where
  "remove_prefix p n = p\<lparr>sp_mem := drop n (sp_mem p), sp_len := sp_len p - int n\<rparr>"

definition remove_suffix :: "StringPiece \<Rightarrow> nat \<Rightarrow> StringPiece" where
  "remove_suffix p n = p\<lparr>sp_len := sp_len p - int n\<rparr>"

definition sp_eq :: "StringPiece \<Rightarrow> StringPiece \<Rightarrow> bool outcome" where
  "sp_eq p x =
     (if sp_len p = sp_len x
      then seq (c_memcmp (sp_mem p) (sp_mem x) (size_of_int (sp_len p))) (\<lambda>r. Inr (r = 0))
      else Inr False)"

definition sp_neq :: "StringPiece \<Rightarrow> StringPiece \<Rightarrow> bool outcome" where
  "sp_neq p x = seq (sp_eq p x) (\<lambda>b. Inr (\<not> b))"

text \<open>The four operators \<^verbatim>\<open>STRINGPIECE_BINARY_PREDICATE\<close> expands to.\<close>

definition sp_predicate ::
  "(int \<Rightarrow> int \<Rightarrow> bool) \<Rightarrow> (int \<Rightarrow> int \<Rightarrow> bool) \<Rightarrow> StringPiece \<Rightarrow> StringPiece \<Rightarrow> bool outcome" where
  "sp_predicate cmp auxcmp p x =
     seq (c_memcmp (sp_mem p) (sp_mem x)
            (size_of_int (if sp_len p < sp_len x then sp_len p else sp_len x)))
       (\<lambda>r. Inr (auxcmp r 0 \<or> (r = 0 \<and> cmp (sp_len p) (sp_len x))))"

definition sp_lt :: "StringPiece \<Rightarrow> StringPiece \<Rightarrow> bool outcome" where
  "sp_lt = sp_predicate (<) (<)"

definition sp_le :: "StringPiece \<Rightarrow> StringPiece \<Rightarrow> bool outcome" where
  "sp_le = sp_predicate (\<le>) (<)"

definition sp_ge :: "StringPiece \<Rightarrow> StringPiece \<Rightarrow> bool outcome" where
  "sp_ge = sp_predicate (\<ge>) (>)"

definition sp_gt :: "StringPiece \<Rightarrow> StringPiece \<Rightarrow> bool outcome" where
  "sp_gt = sp_predicate (>) (>)"

definition sp_compare :: "StringPiece \<Rightarrow> StringPiece \<Rightarrow> int outcome" where
  "sp_compare p x =
     seq (c_memcmp (sp_mem p) (sp_mem x)
            (size_of_int (if sp_len p < sp_len x then sp_len p else sp_len x)))
       (\<lambda>r. Inr (if r = 0 then (if sp_len p < sp_len x then -1
                                else if sp_len p > sp_len x then 1 else r)
                 else r))"

definition as_string :: "StringPiece \<Rightarrow> byte list outcome" where
  "as_string p = (if size_of_int (sp_len p) > vec_max then Inl Length_Error
                  else mem_read (sp_mem p) 0 (size_of_int (sp_len p)))"

definition starts_with :: "StringPiece \<Rightarrow> StringPiece \<Rightarrow> bool outcome" where
  "starts_with p x =
     (if sp_len p \<ge> sp_len x
      then seq (c_memcmp (sp_mem p) (sp_mem x) (size_of_int (sp_len x))) (\<lambda>r. Inr (r = 0))
      else Inr False)"

section \<open>Well-formed pieces and their contents\<close>

text \<open>A piece is well formed when its length fits the memory it points to.\<close>

definition sp_ok :: "StringPiece \<Rightarrow> bool" where
  "sp_ok p \<longleftrightarrow> 0 \<le> sp_len p \<and> sp_len p \<le> int (length (sp_mem p)) \<and> sp_len p < 2 ^ 31"

definition sp_bytes :: "StringPiece \<Rightarrow> byte list" where
  "sp_bytes p = take (nat (sp_len p)) (sp_mem p)"

lemma size_of_sp_len: "sp_ok p \<Longrightarrow> size_of_int (sp_len p) = nat (sp_len p)"
  by (simp add: sp_ok_def size_of_int_def)

lemma length_sp_bytes: "sp_ok p \<Longrightarrow> length (sp_bytes p) = nat (sp_len p)"
  by (auto simp: sp_ok_def sp_bytes_def min_def)

lemma sp_ok_string: "length s < 2 ^ 31 \<Longrightarrow> sp_ok (StringPiece_string s)"
  by (simp add: sp_ok_def StringPiece_string_def int_of_size_small)

lemma sp_bytes_string: "length s < 2 ^ 31 \<Longrightarrow> sp_bytes (StringPiece_string s) = s"
  by (simp add: sp_bytes_def StringPiece_string_def int_of_size_small)

lemma as_string_ok: "sp_ok p \<Longrightarrow> as_string p = Inr (sp_bytes p)"
  by (auto simp: as_string_def mem_read_def size_of_sp_len sp_bytes_def vec_max_def sp_ok_def)

lemma sp_ok_remove_prefix:
  "sp_ok p \<Longrightarrow> int n \<le> sp_len p \<Longrightarrow>
     sp_ok (remove_prefix p n) \<and> sp_bytes (remove_prefix p n) = drop n (sp_bytes p)"
  by (auto simp: sp_ok_def remove_prefix_def sp_bytes_def drop_take nat_diff_distrib')

lemma sp_ok_remove_suffix:
  "sp_ok p \<Longrightarrow> int n \<le> sp_len p \<Longrightarrow>
     sp_ok (remove_suffix p n)
     \<and> sp_bytes (remove_suffix p n) = take (length (sp_bytes p) - n) (sp_bytes p)"
proof -
  assume h: "sp_ok p" "int n \<le> sp_len p"
  then have "length (sp_bytes p) = nat (sp_len p)" by (simp add: length_sp_bytes)
  with h show ?thesis
    by (auto simp: sp_ok_def remove_suffix_def sp_bytes_def nat_diff_distrib' min_absorb1)
qed

section \<open>The comparison operators\<close>

lemma cmp_bytes_eq_0:
  "length xs = length ys \<Longrightarrow> cmp_bytes xs ys = 0 \<longleftrightarrow> xs = ys"
  by (induction xs ys rule: list_induct2) auto

text \<open>
  The sign of \<^const>\<open>cmp_bytes\<close> on the common length decides the order of the lists; when
  it is zero one list is a prefix of the other and the lengths decide.
\<close>

lemma Nil_less_iff: "([] :: byte list) < ys \<longleftrightarrow> ys \<noteq> []"
  by (cases ys) auto

lemma cmp_bytes_lex:
  "(cmp_bytes xs ys < 0 \<or> (cmp_bytes xs ys = 0 \<and> length xs < length ys)) \<longleftrightarrow> xs < ys"
  by (induction xs ys rule: cmp_bytes.induct) (auto simp: Nil_less_iff)

lemma cmp_bytes_lex_le:
  "(cmp_bytes xs ys < 0 \<or> (cmp_bytes xs ys = 0 \<and> length xs \<le> length ys)) \<longleftrightarrow> xs \<le> ys"
  by (induction xs ys rule: cmp_bytes.induct) auto

lemma cmp_bytes_swap: "cmp_bytes ys xs = - cmp_bytes xs ys"
  by (induction xs ys rule: cmp_bytes.induct) auto

lemma cmp_bytes_take:
  "cmp_bytes (take (min (length xs) (length ys)) xs) (take (min (length xs) (length ys)) ys)
     = cmp_bytes xs ys"
  by (induction xs ys rule: cmp_bytes.induct) auto

lemma memcmp_common:
  assumes "sp_ok p" "sp_ok x"
  shows "c_memcmp (sp_mem p) (sp_mem x)
           (size_of_int (if sp_len p < sp_len x then sp_len p else sp_len x))
         = Inr (cmp_bytes (sp_bytes p) (sp_bytes x))"
proof -
  define n where "n = min (nat (sp_len p)) (nat (sp_len x))"
  have sz: "size_of_int (if sp_len p < sp_len x then sp_len p else sp_len x) = n"
    using assms by (auto simp: n_def size_of_sp_len sp_ok_def size_of_int_def min_def)
  have n: "n \<le> length (sp_mem p)" "n \<le> length (sp_mem x)"
    using assms by (auto simp: n_def sp_ok_def)
  have "take n (sp_mem p) = take n (sp_bytes p)" "take n (sp_mem x) = take n (sp_bytes x)"
    by (simp_all add: n_def sp_bytes_def min_def)
  moreover have "n = min (length (sp_bytes p)) (length (sp_bytes x))"
    using assms by (simp add: n_def length_sp_bytes)
  ultimately have "cmp_bytes (take n (sp_mem p)) (take n (sp_mem x))
      = cmp_bytes (sp_bytes p) (sp_bytes x)"
    by (simp only: cmp_bytes_take)
  then show ?thesis by (simp add: c_memcmp_def sz n)
qed

lemma sp_len_cmp:
  "sp_ok p \<Longrightarrow> sp_ok x \<Longrightarrow>
     (sp_len p < sp_len x) = (length (sp_bytes p) < length (sp_bytes x))"
  "sp_ok p \<Longrightarrow> sp_ok x \<Longrightarrow>
     (sp_len p \<le> sp_len x) = (length (sp_bytes p) \<le> length (sp_bytes x))"
  by (auto simp: length_sp_bytes sp_ok_def)

lemma sp_predicate_ok:
  "sp_ok p \<Longrightarrow> sp_ok x \<Longrightarrow>
     sp_predicate cmp auxcmp p x =
       Inr (auxcmp (cmp_bytes (sp_bytes p) (sp_bytes x)) 0
            \<or> (cmp_bytes (sp_bytes p) (sp_bytes x) = 0 \<and> cmp (sp_len p) (sp_len x)))"
  by (simp add: sp_predicate_def memcmp_common)

lemma sp_lt_lex: "sp_ok p \<Longrightarrow> sp_ok x \<Longrightarrow> sp_lt p x = Inr (sp_bytes p < sp_bytes x)"
  using cmp_bytes_lex[of "sp_bytes p" "sp_bytes x"]
  by (simp add: sp_lt_def sp_predicate_ok sp_len_cmp)

lemma sp_le_lex: "sp_ok p \<Longrightarrow> sp_ok x \<Longrightarrow> sp_le p x = Inr (sp_bytes p \<le> sp_bytes x)"
  using cmp_bytes_lex_le[of "sp_bytes p" "sp_bytes x"]
  by (simp add: sp_le_def sp_predicate_ok sp_len_cmp)

lemma sp_gt_lex: "sp_ok p \<Longrightarrow> sp_ok x \<Longrightarrow> sp_gt p x = Inr (sp_bytes x < sp_bytes p)"
  using cmp_bytes_lex[of "sp_bytes x" "sp_bytes p"]
  by (simp add: sp_gt_def sp_predicate_ok sp_len_cmp
      cmp_bytes_swap[of "sp_bytes x" "sp_bytes p"])

lemma sp_ge_lex: "sp_ok p \<Longrightarrow> sp_ok x \<Longrightarrow> sp_ge p x = Inr (sp_bytes x \<le> sp_bytes p)"
  using cmp_bytes_lex_le[of "sp_bytes x" "sp_bytes p"]
  by (simp add: sp_ge_def sp_predicate_ok sp_len_cmp
      cmp_bytes_swap[of "sp_bytes x" "sp_bytes p"])

lemma sp_eq_bytes: "sp_ok p \<Longrightarrow> sp_ok x \<Longrightarrow> sp_eq p x = Inr (sp_bytes p = sp_bytes x)"
proof (cases "sp_len p = sp_len x")
  case True
  assume ok: "sp_ok p" "sp_ok x"
  then have "length (sp_bytes p) = length (sp_bytes x)" by (simp add: length_sp_bytes True)
  moreover have "c_memcmp (sp_mem p) (sp_mem x) (size_of_int (sp_len p))
      = Inr (cmp_bytes (sp_bytes p) (sp_bytes x))"
    using memcmp_common[OF ok] True by simp
  ultimately show ?thesis using True by (simp add: sp_eq_def cmp_bytes_eq_0)
next
  case False
  assume "sp_ok p" "sp_ok x"
  with False have "length (sp_bytes p) \<noteq> length (sp_bytes x)"
    by (auto simp: length_sp_bytes sp_ok_def)
  with False show ?thesis by (auto simp: sp_eq_def)
qed

lemma sp_compare_sign:
  assumes "sp_ok p" "sp_ok x"
  shows "\<exists>r. sp_compare p x = Inr r \<and> (r < 0 \<longleftrightarrow> sp_bytes p < sp_bytes x)
             \<and> (r = 0 \<longleftrightarrow> sp_bytes p = sp_bytes x)"
proof -
  define c where "c = cmp_bytes (sp_bytes p) (sp_bytes x)"
  define r where "r = (if c = 0 then (if sp_len p < sp_len x then -1
                          else if sp_len p > sp_len x then 1 else c) else c)"
  have "sp_compare p x = Inr r"
    using assms by (simp add: sp_compare_def memcmp_common c_def r_def)
  moreover have "r < 0 \<longleftrightarrow> sp_bytes p < sp_bytes x"
    using cmp_bytes_lex[of "sp_bytes p" "sp_bytes x"] assms
    by (auto simp: r_def c_def sp_len_cmp)
  moreover have "r = 0 \<longleftrightarrow> sp_bytes p = sp_bytes x"
    using cmp_bytes_eq_0[of "sp_bytes p" "sp_bytes x"] assms
    by (auto simp: r_def c_def sp_len_cmp)
  ultimately show ?thesis by blast
qed

lemma starts_with_prefix:
  assumes "sp_ok p" "sp_ok x"
  shows "starts_with p x = Inr (prefix (sp_bytes x) (sp_bytes p))"
proof (cases "sp_len x \<le> sp_len p")
  case True
  define n where "n = nat (sp_len x)"
  have n: "n \<le> length (sp_mem p)" "n \<le> length (sp_mem x)"
    using assms True by (auto simp: n_def sp_ok_def)
  have "take n (sp_mem p) = take n (sp_bytes p)"
    using True by (simp add: n_def sp_bytes_def min_def)
  moreover have "cmp_bytes (take n (sp_mem p)) (take n (sp_mem x)) = 0
      \<longleftrightarrow> take n (sp_mem p) = take n (sp_mem x)"
    using n by (intro cmp_bytes_eq_0) simp
  ultimately have "cmp_bytes (take n (sp_mem p)) (take n (sp_mem x)) = 0
      \<longleftrightarrow> take n (sp_bytes p) = sp_bytes x"
    by (simp add: sp_bytes_def[of x] flip: n_def)
  also have "\<dots> \<longleftrightarrow> prefix (sp_bytes x) (sp_bytes p)"
    using assms by (metis n_def length_sp_bytes append_eq_conv_conj prefix_def take_is_prefix)
  finally show ?thesis
    using True assms n by (simp add: starts_with_def c_memcmp_def size_of_sp_len n_def)
next
  case False
  then have "\<not> prefix (sp_bytes x) (sp_bytes p)"
    using assms prefix_length_le[of "sp_bytes x" "sp_bytes p"]
    by (auto simp: length_sp_bytes sp_ok_def)
  with False show ?thesis by (simp add: starts_with_def)
qed

end
