(* ===== verification/Net_Buffer.thy ===== *)
theory Net_Buffer
  imports Endian_Order String_Piece
begin

text \<open>
  \<^verbatim>\<open>src/src/port/Buffer.h\<close> and \<^verbatim>\<open>Buffer.cpp\<close>: the input and output buffer of a serial port.
  The vector, its two indices and every public operation are modelled; a pointer into the
  buffer is its offset from \<^verbatim>\<open>begin()\<close>.  The theory shows that the buffer implements a queue
  of bytes (locale \<open>byte_queue\<close>) with cheap prepending (locale \<open>byte_deque\<close>), and that the
  integers it carries come back as they were put in.
\<close>

section \<open>Model\<close>

record Buffer =
  buf_data :: "byte list"
  readerIndex :: nat
  writerIndex :: nat

definition kCheapPrepend :: nat where
  "kCheapPrepend = 8"

definition kInitialSize :: nat where
  "kInitialSize = 1024"

definition readableBytes :: "Buffer \<Rightarrow> nat" where
  "readableBytes b = size_sub (writerIndex b) (readerIndex b)"

definition writableBytes :: "Buffer \<Rightarrow> nat" where
  "writableBytes b = size_sub (length (buf_data b)) (writerIndex b)"

definition prependableBytes :: "Buffer \<Rightarrow> nat" where
  "prependableBytes b = readerIndex b"

definition Buffer_new :: "Buffer outcome" where
  "Buffer_new =
     (let b = \<lparr>buf_data = replicate (kCheapPrepend + kInitialSize) 0,
               readerIndex = kCheapPrepend, writerIndex = kCheapPrepend\<rparr>
      in cassert (readableBytes b = 0)
           (cassert (writableBytes b = kInitialSize)
             (cassert (prependableBytes b = kCheapPrepend) (Inr b))))"

definition Buffer_swap :: "Buffer \<Rightarrow> Buffer \<Rightarrow> Buffer \<times> Buffer" where
  "Buffer_swap b rhs = (rhs, b)"

definition peek :: "Buffer \<Rightarrow> nat" where
  "peek b = readerIndex b"

definition beginWrite :: "Buffer \<Rightarrow> nat" where
  "beginWrite b = writerIndex b"

subsection \<open>Searching\<close>

definition kCRLF :: "byte list" where
  "kCRLF = [13, 10]"

text \<open>\<^verbatim>\<open>std::search\<close> over a range returns the range's end when nothing matches.\<close>

definition search_range :: "byte list \<Rightarrow> nat \<Rightarrow> nat \<Rightarrow> byte list \<Rightarrow> nat outcome" where
  "search_range d from stop pat =
     seq (mem_read d from (stop - from))
       (\<lambda>xs. Inr (case first_match pat xs of Some i \<Rightarrow> from + i | None \<Rightarrow> stop))"

definition findCRLF :: "Buffer \<Rightarrow> nat option outcome" where
  "findCRLF b =
     seq (search_range (buf_data b) (peek b) (beginWrite b) kCRLF)
       (\<lambda>crlf. Inr (if crlf = beginWrite b then None else Some crlf))"

definition findCRLF_from :: "Buffer \<Rightarrow> nat \<Rightarrow> nat option outcome" where
  "findCRLF_from b start =
     cassert (peek b \<le> start) (cassert (start \<le> beginWrite b)
       (seq (search_range (buf_data b) start (beginWrite b) kCRLF)
         (\<lambda>crlf. Inr (if crlf = beginWrite b then None else Some crlf))))"

text \<open>
  \<^verbatim>\<open>memchr\<close> stops at the first match; it is a fault only if it runs off the object before
  it finds one.
\<close>

definition c_memchr :: "byte list \<Rightarrow> nat \<Rightarrow> byte \<Rightarrow> nat \<Rightarrow> nat option outcome" where
  "c_memchr d start c n =
     (case first_match [c] (take n (drop start d)) of
        Some i \<Rightarrow> Inr (Some (start + i))
      | None \<Rightarrow> (if start + n \<le> length d then Inr None else Inl Out_Of_Range))"

definition findEOL :: "Buffer \<Rightarrow> nat option outcome" where
  "findEOL b = c_memchr (buf_data b) (peek b) 10 (readableBytes b)"

definition findEOL_from :: "Buffer \<Rightarrow> nat \<Rightarrow> nat option outcome" where
  "findEOL_from b start =
     cassert (peek b \<le> start) (cassert (start \<le> beginWrite b)
       (c_memchr (buf_data b) start 10 (readableBytes b)))"

subsection \<open>Retrieving\<close>

definition retrieveAll :: "Buffer \<Rightarrow> Buffer" where
  "retrieveAll b = b\<lparr>readerIndex := kCheapPrepend, writerIndex := kCheapPrepend\<rparr>"

definition retrieve :: "Buffer \<Rightarrow> nat \<Rightarrow> Buffer outcome" where
  "retrieve b len =
     cassert (len \<le> readableBytes b)
       (if len < readableBytes b then Inr (b\<lparr>readerIndex := size_add (readerIndex b) len\<rparr>)
        else Inr (retrieveAll b))"

definition retrieveUtil :: "Buffer \<Rightarrow> nat \<Rightarrow> Buffer outcome" where
  "retrieveUtil b stop =
     cassert (peek b \<le> stop) (cassert (stop \<le> beginWrite b) (retrieve b (size_sub stop (peek b))))"

definition retrieveInt32 :: "Buffer \<Rightarrow> Buffer outcome" where
  "retrieveInt32 b = retrieve b 4"

definition retrieveInt16 :: "Buffer \<Rightarrow> Buffer outcome" where
  "retrieveInt16 b = retrieve b 2"

definition retrieveInt8 :: "Buffer \<Rightarrow> Buffer outcome" where
  "retrieveInt8 b = retrieve b 1"

definition retriveAsString :: "Buffer \<Rightarrow> nat \<Rightarrow> (byte list \<times> Buffer) outcome" where
  "retriveAsString b len =
     cassert (len \<le> readableBytes b)
       (seq (mem_read (buf_data b) (peek b) len)
         (\<lambda>result. seq (retrieve b len) (\<lambda>b'. Inr (result, b'))))"

definition retrieveAllAsString :: "Buffer \<Rightarrow> (byte list \<times> Buffer) outcome" where
  "retrieveAllAsString b = retriveAsString b (readableBytes b)"

definition toStringPiece :: "Buffer \<Rightarrow> StringPiece" where
  "toStringPiece b =
     StringPiece_range (drop (peek b) (buf_data b)) (int_of_size (readableBytes b))"

subsection \<open>Appending\<close>

definition makeSpace :: "Buffer \<Rightarrow> nat \<Rightarrow> Buffer outcome" where
  "makeSpace b len =
     (if size_add (writableBytes b) (prependableBytes b) < size_add len kCheapPrepend
      then seq (vec_resize 0 (buf_data b) (size_add (writerIndex b) len))
             (\<lambda>d. Inr (b\<lparr>buf_data := d\<rparr>))
      else cassert (kCheapPrepend < readerIndex b)
        (let readable = readableBytes b in
         seq (mem_read (buf_data b) (readerIndex b) (size_sub (writerIndex b) (readerIndex b)))
           (\<lambda>xs. seq (mem_write (buf_data b) kCheapPrepend xs)
             (\<lambda>d. let b' = b\<lparr>buf_data := d, readerIndex := kCheapPrepend,
                             writerIndex := size_add kCheapPrepend readable\<rparr>
                  in cassert (readable = readableBytes b') (Inr b')))))"

definition ensureWritableBytes :: "Buffer \<Rightarrow> nat \<Rightarrow> Buffer outcome" where
  "ensureWritableBytes b len =
     seq (if writableBytes b < len then makeSpace b len else Inr b)
       (\<lambda>b'. cassert (writableBytes b' \<ge> len) (Inr b'))"

definition hasWritten :: "Buffer \<Rightarrow> nat \<Rightarrow> Buffer" where
  "hasWritten b len = b\<lparr>writerIndex := size_add (writerIndex b) len\<rparr>"

definition buf_append :: "Buffer \<Rightarrow> byte list \<Rightarrow> nat \<Rightarrow> Buffer outcome" where
  "buf_append b data len =
     seq (ensureWritableBytes b len)
       (\<lambda>b1. if len \<le> length data
             then seq (mem_write (buf_data b1) (beginWrite b1) (take len data))
                    (\<lambda>d. Inr (hasWritten (b1\<lparr>buf_data := d\<rparr>) len))
             else Inl Out_Of_Range)"

definition append_piece :: "Buffer \<Rightarrow> StringPiece \<Rightarrow> Buffer outcome" where
  "append_piece b str = buf_append b (sp_mem str) (size_of_int (sp_len str))"

definition appendInt32 :: "host_order \<Rightarrow> Buffer \<Rightarrow> 32 word \<Rightarrow> Buffer outcome" where
  "appendInt32 h b x = buf_append b (object_bytes h 4 (unat (hostToNetwork32 h x))) 4"

definition appendInt16 :: "host_order \<Rightarrow> Buffer \<Rightarrow> 16 word \<Rightarrow> Buffer outcome" where
  "appendInt16 h b x = buf_append b (object_bytes h 2 (unat (hostToNetwork16 h x))) 2"

definition appendInt8 :: "Buffer \<Rightarrow> 8 word \<Rightarrow> Buffer outcome" where
  "appendInt8 b x = buf_append b [x] 1"

subsection \<open>Reading integers\<close>

definition peekInt32 :: "host_order \<Rightarrow> Buffer \<Rightarrow> 32 word outcome" where
  "peekInt32 h b =
     cassert (readableBytes b \<ge> 4)
       (seq (mem_read (buf_data b) (peek b) 4)
         (\<lambda>bs. Inr (networkToHost32 h (word_of_nat (object_value h bs)))))"

definition peekInt16 :: "host_order \<Rightarrow> Buffer \<Rightarrow> 16 word outcome" where
  "peekInt16 h b =
     cassert (readableBytes b \<ge> 2)
       (seq (mem_read (buf_data b) (peek b) 2)
         (\<lambda>bs. Inr (networkToHost16 h (word_of_nat (object_value h bs)))))"

definition peekInt8 :: "Buffer \<Rightarrow> 8 word outcome" where
  "peekInt8 b =
     cassert (readableBytes b \<ge> 1)
       (seq (mem_read (buf_data b) (peek b) 1) (\<lambda>bs. Inr (hd bs)))"

definition readInt32 :: "host_order \<Rightarrow> Buffer \<Rightarrow> (32 word \<times> Buffer) outcome" where
  "readInt32 h b =
     seq (peekInt32 h b) (\<lambda>result. seq (retrieveInt32 b) (\<lambda>b'. Inr (result, b')))"

definition readInt16 :: "host_order \<Rightarrow> Buffer \<Rightarrow> (16 word \<times> Buffer) outcome" where
  "readInt16 h b =
     seq (peekInt16 h b) (\<lambda>result. seq (retrieveInt16 b) (\<lambda>b'. Inr (result, b')))"

definition readInt8 :: "Buffer \<Rightarrow> (8 word \<times> Buffer) outcome" where
  "readInt8 b = seq (peekInt8 b) (\<lambda>result. seq (retrieveInt8 b) (\<lambda>b'. Inr (result, b')))"

subsection \<open>Prepending and shrinking\<close>

definition prepend :: "Buffer \<Rightarrow> byte list \<Rightarrow> nat \<Rightarrow> Buffer outcome" where
  "prepend b data len =
     cassert (len \<le> prependableBytes b)
       (let r = size_sub (readerIndex b) len in
        if len \<le> length data
        then seq (mem_write (buf_data b) r (take len data))
               (\<lambda>d. Inr (b\<lparr>readerIndex := r, buf_data := d\<rparr>))
        else Inl Out_Of_Range)"

definition prependInt32 :: "host_order \<Rightarrow> Buffer \<Rightarrow> 32 word \<Rightarrow> Buffer outcome" where
  "prependInt32 h b x = prepend b (object_bytes h 4 (unat (hostToNetwork32 h x))) 4"

definition prependInt16 :: "host_order \<Rightarrow> Buffer \<Rightarrow> 16 word \<Rightarrow> Buffer outcome" where
  "prependInt16 h b x = prepend b (object_bytes h 2 (unat (hostToNetwork16 h x))) 2"

definition prependInt8 :: "Buffer \<Rightarrow> 8 word \<Rightarrow> Buffer outcome" where
  "prependInt8 b x = prepend b [x] 1"

definition shrink :: "Buffer \<Rightarrow> nat \<Rightarrow> Buffer outcome" where
  "shrink b reserve =
     seq Buffer_new
       (\<lambda>other. seq (ensureWritableBytes other (size_add (readableBytes b) reserve))
         (\<lambda>other1. seq (append_piece other1 (toStringPiece b))
           (\<lambda>other2. Inr (fst (Buffer_swap b other2)))))"

subsection \<open>Reading from a file descriptor\<close>

text \<open>
  What \<^verbatim>\<open>readv\<close> did: it failed with an errno, or it filled the buffer's free space and then
  \<^verbatim>\<open>extrabuf\<close> with the bytes it returns, in order.
\<close>

datatype readv_result = Readv_Errno int | Readv_Bytes "byte list"

definition kExtraBuf :: nat where
  "kExtraBuf = 65536"

definition readFd :: "Buffer \<Rightarrow> readv_result \<Rightarrow> (int \<times> int option \<times> Buffer) outcome" where
  "readFd b res =
     (let writable = writableBytes b in
      case res of
        Readv_Errno e \<Rightarrow> Inr (-1, Some e, b)
      | Readv_Bytes bs \<Rightarrow>
          seq (mem_write (buf_data b) (beginWrite b) (take writable bs))
            (\<lambda>d. let b1 = b\<lparr>buf_data := d\<rparr>; n = length bs in
               if n \<le> writable
               then Inr (int n, None, b1\<lparr>writerIndex := size_add (writerIndex b1) n\<rparr>)
               else seq (buf_append (b1\<lparr>writerIndex := length d\<rparr>)
                           (drop writable bs @ replicate (kExtraBuf - (n - writable)) 0)
                           (n - writable))
                      (\<lambda>b2. Inr (int n, None, b2))))"

section \<open>Invariant and contents\<close>

text \<open>
  The indices are ordered as the class comment draws them, the vector never becomes smaller
  than the constructor made it and never larger than a vector may be.
\<close>

definition buf_ok :: "Buffer \<Rightarrow> bool" where
  "buf_ok b \<longleftrightarrow> readerIndex b \<le> writerIndex b \<and> writerIndex b \<le> length (buf_data b)
     \<and> kCheapPrepend + kInitialSize \<le> length (buf_data b) \<and> length (buf_data b) \<le> vec_max"

definition contents :: "Buffer \<Rightarrow> byte list" where
  "contents b = take (writerIndex b - readerIndex b) (drop (readerIndex b) (buf_data b))"

text \<open>Appending \<open>n\<close> bytes cannot exceed the largest vector.\<close>

definition buf_room :: "Buffer \<Rightarrow> nat \<Rightarrow> bool" where
  "buf_room b n \<longleftrightarrow> writerIndex b + n \<le> vec_max"

lemmas buf_consts = kCheapPrepend_def kInitialSize_def vec_max_def

lemma contents_update:
  "contents (b\<lparr>buf_data := d\<rparr>)
     = take (writerIndex b - readerIndex b) (drop (readerIndex b) d)"
  "contents (b\<lparr>buf_data := d, writerIndex := w\<rparr>)
     = take (w - readerIndex b) (drop (readerIndex b) d)"
  "contents (b\<lparr>readerIndex := r\<rparr>) = take (writerIndex b - r) (drop r (buf_data b))"
  "contents (b\<lparr>readerIndex := r, buf_data := d\<rparr>) = take (writerIndex b - r) (drop r d)"
  "contents (b\<lparr>buf_data := d, readerIndex := r, writerIndex := w\<rparr>) = take (w - r) (drop r d)"
  by (simp_all add: contents_def)

lemma buf_ok_bounds:
  assumes "buf_ok b"
  shows "readerIndex b \<le> writerIndex b" "writerIndex b \<le> length (buf_data b)"
    "length (buf_data b) < 2 ^ 63" "1032 \<le> length (buf_data b)"
  using assms by (auto simp: buf_ok_def buf_consts)

lemma readableBytes_ok [simp]:
  "buf_ok b \<Longrightarrow> readableBytes b = writerIndex b - readerIndex b"
  using buf_ok_bounds[of b] by (simp add: readableBytes_def size_sub_le)

lemma writableBytes_ok [simp]:
  "buf_ok b \<Longrightarrow> writableBytes b = length (buf_data b) - writerIndex b"
  using buf_ok_bounds[of b] by (simp add: writableBytes_def size_sub_le)

lemma length_contents: "buf_ok b \<Longrightarrow> length (contents b) = writerIndex b - readerIndex b"
  by (auto simp: contents_def buf_ok_def)

lemma readable_contents: "buf_ok b \<Longrightarrow> readableBytes b = length (contents b)"
  by (simp add: length_contents)

lemma Buffer_new_eq:
  "Buffer_new = Inr \<lparr>buf_data = replicate 1032 0, readerIndex = 8, writerIndex = 8\<rparr>"
  by (simp add: Buffer_new_def buf_consts readableBytes_def writableBytes_def
      prependableBytes_def size_sub_def)

lemma Buffer_new_ok:
  "Buffer_new = Inr b \<Longrightarrow> buf_ok b \<and> contents b = [] \<and> readerIndex b = 8"
  by (auto simp: Buffer_new_eq buf_ok_def contents_def buf_consts)

lemma mem_read_contents:
  assumes "buf_ok b" "n \<le> length (contents b)"
  shows "mem_read (buf_data b) (readerIndex b) n = Inr (take n (contents b))"
proof -
  have "n \<le> writerIndex b - readerIndex b"
    using assms by (simp add: length_contents)
  with assms(1) show ?thesis
    by (auto simp: mem_read_def contents_def buf_ok_def min_def)
qed

section \<open>Appending\<close>

text \<open>Making room keeps the contents, whichever branch is taken.\<close>

lemma makeSpace_ok:
  assumes ok: "buf_ok b" and room: "buf_room b len"
    and less: "length (buf_data b) - writerIndex b < len"
  shows "\<exists>b'. makeSpace b len = Inr b' \<and> buf_ok b' \<and> contents b' = contents b
           \<and> len \<le> length (buf_data b') - writerIndex b'
           \<and> writerIndex b' \<le> writerIndex b \<and> (readerIndex b' = readerIndex b \<or> readerIndex b' = 8)"
proof (cases "length (buf_data b) - writerIndex b + readerIndex b < len + 8")
  case True
  have w: "writerIndex b + len \<le> vec_max" using room by (simp add: buf_room_def)
  have cond: "size_add (writableBytes b) (prependableBytes b) < size_add len kCheapPrepend"
    using True ok buf_ok_bounds[OF ok] w
    by (simp add: prependableBytes_def size_add_small buf_consts)
  define d where "d = buf_data b @ replicate (writerIndex b + len - length (buf_data b)) 0"
  have "makeSpace b len = Inr (b\<lparr>buf_data := d\<rparr>)"
    using cond w less buf_ok_bounds[OF ok]
    by (simp add: makeSpace_def size_add_small vec_resize_grow d_def buf_consts)
  moreover have "length d = writerIndex b + len" using less by (simp add: d_def)
  moreover have "contents (b\<lparr>buf_data := d\<rparr>) = contents b"
    using ok by (simp add: contents_def d_def buf_ok_def)
  ultimately show ?thesis
    using ok w less by (auto simp: buf_ok_def)
next
  case False
  have r: "8 < readerIndex b" using False less by linarith
  have cond: "\<not> size_add (writableBytes b) (prependableBytes b) < size_add len kCheapPrepend"
    using False ok buf_ok_bounds[OF ok] room
    by (simp add: prependableBytes_def size_add_small buf_consts buf_room_def)
  let ?n = "writerIndex b - readerIndex b"
  define d where "d = take 8 (buf_data b) @ contents b @ drop (8 + ?n) (buf_data b)"
  define b' where "b' = b\<lparr>buf_data := d, readerIndex := 8, writerIndex := 8 + ?n\<rparr>"
  have len_d: "length d = length (buf_data b)"
    using ok r by (auto simp: d_def length_contents[OF ok] buf_ok_def)
  have read: "mem_read (buf_data b) (readerIndex b) ?n = Inr (contents b)"
    using mem_read_contents[OF ok, of ?n] by (simp add: length_contents[OF ok])
  have wr: "mem_write (buf_data b) 8 (contents b) = Inr d"
    using ok r by (auto simp: mem_write_def d_def length_contents[OF ok] buf_ok_def)
  have sub: "size_sub (writerIndex b) (readerIndex b) = ?n"
    using buf_ok_bounds[OF ok] by (simp add: size_sub_le)
  have add: "size_add 8 ?n = 8 + ?n"
    using buf_ok_bounds[OF ok] by (simp add: size_add_small)
  have ok': "buf_ok b'"
    using ok r len_d by (auto simp: b'_def buf_ok_def)
  have "readableBytes b' = ?n" using ok' by (simp add: b'_def)
  then have "makeSpace b len = Inr b'"
    using cond r read wr sub add ok
    by (simp add: makeSpace_def kCheapPrepend_def Let_def b'_def)
  moreover have "contents b' = contents b"
  proof -
    have "length (take 8 (buf_data b)) = 8" using buf_ok_bounds[OF ok] by simp
    then have "drop 8 d = contents b @ drop (8 + ?n) (buf_data b)" by (simp add: d_def)
    then show ?thesis by (simp add: contents_update b'_def length_contents[OF ok, symmetric])
  qed
  moreover have "len \<le> length (buf_data b') - writerIndex b'"
    using False r len_d buf_ok_bounds[OF ok] by (simp add: b'_def)
  ultimately show ?thesis
    using ok' r buf_ok_bounds[OF ok] by (auto simp: b'_def)
qed

lemma ensureWritableBytes_ok:
  assumes ok: "buf_ok b" and room: "buf_room b len"
  shows "\<exists>b'. ensureWritableBytes b len = Inr b' \<and> buf_ok b' \<and> contents b' = contents b
           \<and> len \<le> length (buf_data b') - writerIndex b'
           \<and> writerIndex b' \<le> writerIndex b \<and> (readerIndex b' = readerIndex b \<or> readerIndex b' = 8)"
proof (cases "length (buf_data b) - writerIndex b < len")
  case True
  then obtain b' where "makeSpace b len = Inr b'" "buf_ok b'" "contents b' = contents b"
    "len \<le> length (buf_data b') - writerIndex b'" "writerIndex b' \<le> writerIndex b"
    "readerIndex b' = readerIndex b \<or> readerIndex b' = 8"
    using makeSpace_ok[OF ok room] by blast
  with True ok show ?thesis by (auto simp: ensureWritableBytes_def)
next
  case False
  with ok show ?thesis by (auto simp: ensureWritableBytes_def)
qed

text \<open>Writing into free space that is there extends the contents.\<close>

lemma write_extends_contents:
  assumes "buf_ok b" "length xs \<le> length (buf_data b) - writerIndex b"
  shows "\<exists>d. mem_write (buf_data b) (writerIndex b) xs = Inr d
           \<and> buf_ok (b\<lparr>buf_data := d, writerIndex := writerIndex b + length xs\<rparr>)
           \<and> contents (b\<lparr>buf_data := d, writerIndex := writerIndex b + length xs\<rparr>) = contents b @ xs"
proof -
  let ?d = "take (writerIndex b) (buf_data b) @ xs @ drop (writerIndex b + length xs) (buf_data b)"
  have fit: "writerIndex b + length xs \<le> length (buf_data b)"
    using assms by (auto simp: buf_ok_def)
  have len: "length ?d = length (buf_data b)" using fit by simp
  have "contents (b\<lparr>buf_data := ?d, writerIndex := writerIndex b + length xs\<rparr>) = contents b @ xs"
    unfolding contents_update contents_def[of b]
    by (rule slice_after_write) (use assms in \<open>auto simp: buf_ok_def\<close>)
  with fit len assms show ?thesis by (simp add: mem_write_def buf_ok_def)
qed

lemma buf_append_ok:
  assumes ok: "buf_ok b" and room: "buf_room b len" and src: "len \<le> length data"
  shows "\<exists>b'. buf_append b data len = Inr b' \<and> buf_ok b' \<and> contents b' = contents b @ take len data
           \<and> writerIndex b' \<le> writerIndex b + len
           \<and> (readerIndex b' = readerIndex b \<or> readerIndex b' = 8)"
proof -
  obtain b1 where b1: "ensureWritableBytes b len = Inr b1" "buf_ok b1" "contents b1 = contents b"
    "len \<le> length (buf_data b1) - writerIndex b1" "writerIndex b1 \<le> writerIndex b"
    "readerIndex b1 = readerIndex b \<or> readerIndex b1 = 8"
    using ensureWritableBytes_ok[OF ok room] by blast
  let ?b2 = "\<lambda>d. b1\<lparr>buf_data := d, writerIndex := writerIndex b1 + len\<rparr>"
  obtain d where d: "mem_write (buf_data b1) (writerIndex b1) (take len data) = Inr d"
    "buf_ok (?b2 d)" "contents (?b2 d) = contents b1 @ take len data"
    using write_extends_contents[OF b1(2), of "take len data"] src b1(4) by (auto simp: min_absorb2)
  have "size_add (writerIndex b1) len = writerIndex b1 + len"
    using b1(4) buf_ok_bounds[OF b1(2)] by (simp add: size_add_small)
  then have "buf_append b data len = Inr (?b2 d)"
    using b1(1) d(1) src by (simp add: buf_append_def beginWrite_def hasWritten_def)
  with d b1 show ?thesis by auto
qed

lemma buf_append_too_long:
  assumes ok: "buf_ok b" and len: "len \<le> vec_max" and big: "vec_max < writerIndex b + len"
    and no_slack: "length (buf_data b) - writerIndex b + readerIndex b < len + 8"
  shows "buf_append b data len = Inl Length_Error"
proof -
  note bd = buf_ok_bounds[OF ok]
  have "size_add (writableBytes b) (prependableBytes b) < size_add len kCheapPrepend"
    using ok no_slack len bd by (simp add: prependableBytes_def size_add_small buf_consts)
  moreover have "size_add (writerIndex b) len = writerIndex b + len"
    using len bd by (simp add: size_add_small vec_max_def)
  moreover have "writableBytes b < len" using ok big bd by (simp add: vec_max_def)
  ultimately show ?thesis
    using big by (simp add: buf_append_def ensureWritableBytes_def makeSpace_def vec_resize_def)
qed

section \<open>Retrieving and prepending\<close>

lemma retrieveAll_ok: "buf_ok b \<Longrightarrow> buf_ok (retrieveAll b) \<and> contents (retrieveAll b) = []"
  by (auto simp: retrieveAll_def buf_ok_def contents_def buf_consts)

lemma retrieve_ok:
  assumes ok: "buf_ok b" and n: "n \<le> length (contents b)"
  shows "\<exists>b'. retrieve b n = Inr b' \<and> buf_ok b' \<and> contents b' = drop n (contents b)
           \<and> writerIndex b' \<le> max (writerIndex b) 8"
proof (cases "n < length (contents b)")
  case True
  then have lt: "n < writerIndex b - readerIndex b" using ok by (simp add: length_contents)
  then have "size_add (readerIndex b) n = readerIndex b + n"
    using buf_ok_bounds[OF ok] by (simp add: size_add_small)
  then have "retrieve b n = Inr (b\<lparr>readerIndex := readerIndex b + n\<rparr>)"
    using lt ok by (simp add: retrieve_def)
  moreover have "contents (b\<lparr>readerIndex := readerIndex b + n\<rparr>) = drop n (contents b)"
    by (simp add: contents_def drop_take add.commute)
  ultimately show ?thesis using ok lt by (auto simp: buf_ok_def)
next
  case False
  then have "retrieve b n = Inr (retrieveAll b)"
    using ok n by (simp add: retrieve_def length_contents)
  with False retrieveAll_ok[OF ok] show ?thesis
    by (auto simp: retrieveAll_def kCheapPrepend_def)
qed

lemma retrieve_too_much:
  "buf_ok b \<Longrightarrow> length (contents b) < n \<Longrightarrow> retrieve b n = Inl Assertion_Failed"
  by (simp add: retrieve_def length_contents)

lemma retriveAsString_ok:
  assumes ok: "buf_ok b" and n: "n \<le> length (contents b)"
  shows "\<exists>b'. retriveAsString b n = Inr (take n (contents b), b') \<and> buf_ok b'
           \<and> contents b' = drop n (contents b)"
  using retrieve_ok[OF assms] mem_read_contents[OF assms] n ok
  by (auto simp: retriveAsString_def peek_def length_contents)

lemma retrieveAllAsString_ok:
  assumes ok: "buf_ok b"
  shows "\<exists>b'. retrieveAllAsString b = Inr (contents b, b') \<and> buf_ok b' \<and> contents b' = []"
  using retriveAsString_ok[OF ok, of "length (contents b)"] readable_contents[OF ok]
  by (simp add: retrieveAllAsString_def)

lemma prepend_ok:
  assumes ok: "buf_ok b" and room: "len \<le> readerIndex b" and src: "len \<le> length data"
  shows "\<exists>b'. prepend b data len = Inr b' \<and> buf_ok b' \<and> contents b' = take len data @ contents b"
proof -
  let ?r = "readerIndex b - len"
  let ?d = "take ?r (buf_data b) @ take len data @ drop (readerIndex b) (buf_data b)"
  have r: "size_sub (readerIndex b) len = ?r"
    using buf_ok_bounds[OF ok] room by (simp add: size_sub_le)
  have fit: "?r + len \<le> length (buf_data b)" using buf_ok_bounds[OF ok] room by linarith
  then have wr: "mem_write (buf_data b) ?r (take len data) = Inr ?d"
    using src room by (simp add: mem_write_def min_absorb2)
  have len: "length ?d = length (buf_data b)"
    using fit room src buf_ok_bounds[OF ok] by simp
  have "drop ?r ?d = take len data @ drop (readerIndex b) (buf_data b)"
    using fit by simp
  then have "contents (b\<lparr>readerIndex := ?r, buf_data := ?d\<rparr>) = take len data @ contents b"
    using src room buf_ok_bounds[OF ok] by (simp add: contents_update contents_def[of b])
  with r wr len ok room src show ?thesis
    by (auto simp: prepend_def prependableBytes_def Let_def buf_ok_def)
qed

lemma prepend_no_room: "readerIndex b < len \<Longrightarrow> prepend b data len = Inl Assertion_Failed"
  by (simp add: prepend_def prependableBytes_def)

section \<open>Interfaces\<close>

text \<open>
  What the port and the codec rely on: a queue of bytes whose reads past its end are caught
  by an assertion.
\<close>

locale byte_queue =
  fixes bytes :: "'q \<Rightarrow> byte list"
    and inv :: "'q \<Rightarrow> bool"
    and room :: "'q \<Rightarrow> nat \<Rightarrow> bool"
    and put :: "'q \<Rightarrow> byte list \<Rightarrow> 'q outcome"
    and get :: "'q \<Rightarrow> nat \<Rightarrow> (byte list \<times> 'q) outcome"
  assumes put_law: "inv q \<Longrightarrow> room q (length xs) \<Longrightarrow>
            \<exists>q'. put q xs = Inr q' \<and> inv q' \<and> bytes q' = bytes q @ xs"
    and put_room: "inv q \<Longrightarrow> room q (length xs + n) \<Longrightarrow> put q xs = Inr q' \<Longrightarrow> room q' n"
    and room_le: "room q n \<Longrightarrow> m \<le> n \<Longrightarrow> room q m"
    and get_law: "inv q \<Longrightarrow> n \<le> length (bytes q) \<Longrightarrow>
            \<exists>q'. get q n = Inr (take n (bytes q), q') \<and> inv q' \<and> bytes q' = drop n (bytes q)"
    and get_over: "inv q \<Longrightarrow> length (bytes q) < n \<Longrightarrow> get q n = Inl Assertion_Failed"
begin

text \<open>Several chunks put one after the other are queued in order.\<close>

fun put_all :: "'q \<Rightarrow> byte list list \<Rightarrow> 'q outcome" where
  "put_all q [] = Inr q"
| "put_all q (xs # xss) = seq (put q xs) (\<lambda>q'. put_all q' xss)"

lemma put_all_concat:
  "inv q \<Longrightarrow> room q (length (concat xss)) \<Longrightarrow>
     \<exists>q'. put_all q xss = Inr q' \<and> inv q' \<and> bytes q' = bytes q @ concat xss"
proof (induction xss arbitrary: q)
  case Nil
  then show ?case by simp
next
  case (Cons xs xss)
  have "room q (length xs)" using Cons.prems(2) by (auto elim: room_le)
  then obtain q1 where q1: "put q xs = Inr q1" "inv q1" "bytes q1 = bytes q @ xs"
    using put_law[OF Cons.prems(1)] by blast
  moreover have "room q1 (length (concat xss))"
    using put_room[OF Cons.prems(1) _ q1(1)] Cons.prems(2) by simp
  ultimately show ?case using Cons.IH[of q1] by auto
qed

text \<open>What is put into an empty queue is read back, however it was cut on the way in.\<close>

lemma put_all_get:
  assumes "inv q" "bytes q = []" "room q (length (concat xss))" "n \<le> length (concat xss)"
  shows "\<exists>q1 q2. put_all q xss = Inr q1 \<and> get q1 n = Inr (take n (concat xss), q2)
           \<and> bytes q2 = drop n (concat xss)"
proof -
  obtain q1 where "put_all q xss = Inr q1" "inv q1" "bytes q1 = concat xss"
    using put_all_concat[OF assms(1,3)] assms(2) by auto
  with get_law[of q1 n] assms(4) show ?thesis by auto
qed

end

text \<open>A queue that also takes bytes at its front, as the codec does for its header.\<close>

locale byte_deque = byte_queue bytes inv room put get
  for bytes :: "'q \<Rightarrow> byte list"
    and inv :: "'q \<Rightarrow> bool"
    and room :: "'q \<Rightarrow> nat \<Rightarrow> bool"
    and put :: "'q \<Rightarrow> byte list \<Rightarrow> 'q outcome"
    and get :: "'q \<Rightarrow> nat \<Rightarrow> (byte list \<times> 'q) outcome" +
  fixes front_room :: "'q \<Rightarrow> nat"
    and push :: "'q \<Rightarrow> byte list \<Rightarrow> 'q outcome"
  assumes push_law: "inv q \<Longrightarrow> length xs \<le> front_room q \<Longrightarrow>
            \<exists>q'. push q xs = Inr q' \<and> inv q' \<and> bytes q' = xs @ bytes q"
    and put_front_room: "inv q \<Longrightarrow> room q (length xs) \<Longrightarrow> put q xs = Inr q' \<Longrightarrow>
            min 8 (front_room q) \<le> front_room q'"
begin

text \<open>A message and then its header, as a frame is built.\<close>

lemma frame:
  assumes "inv q" "bytes q = []" "room q (length msg)" "length hdr \<le> 8" "8 \<le> front_room q"
  shows "\<exists>q1 q2. put q msg = Inr q1 \<and> push q1 hdr = Inr q2 \<and> inv q2 \<and> bytes q2 = hdr @ msg"
proof -
  obtain q1 where q1: "put q msg = Inr q1" "inv q1" "bytes q1 = msg"
    using put_law[OF assms(1,3)] assms(2) by auto
  have "length hdr \<le> front_room q1"
    using put_front_room[OF assms(1,3) q1(1)] assms(4,5) by simp
  with push_law[OF q1(2)] q1 show ?thesis by auto
qed

end

definition buf_put :: "Buffer \<Rightarrow> byte list \<Rightarrow> Buffer outcome" where
  "buf_put b xs = buf_append b xs (length xs)"

interpretation buffer: byte_deque contents buf_ok buf_room buf_put retriveAsString
    readerIndex "\<lambda>b xs. prepend b xs (length xs)"
proof (unfold_locales, goal_cases)
  case (1 q xs)
  then show ?case using buf_append_ok[of q "length xs" xs] by (auto simp: buf_put_def)
next
  case (2 q xs n q')
  then have "buf_room q (length xs)" by (simp add: buf_room_def)
  with 2 show ?case
    using buf_append_ok[of q "length xs" xs] by (auto simp: buf_put_def buf_room_def)
next
  case (3 q n m)
  then show ?case by (simp add: buf_room_def)
next
  case (4 q n)
  then show ?case using retriveAsString_ok[of q n] by auto
next
  case (5 q n)
  then show ?case by (simp add: retriveAsString_def length_contents)
next
  case (6 q xs)
  then show ?case using prepend_ok[of q "length xs" xs] by auto
next
  case (7 q xs q')
  then show ?case using buf_append_ok[of q "length xs" xs] by (auto simp: buf_put_def)
qed

section \<open>Integers\<close>

lemma take_be_bytes: "k \<le> length xs \<Longrightarrow> take k xs = be_bytes k n \<Longrightarrow> xs = be_bytes k n @ drop k xs"
  by (metis append_take_drop_id)

lemma peekInt32_ok:
  assumes "buf_ok b" "contents b = be_bytes 4 (unat x) @ rest"
  shows "peekInt32 h b = Inr x"
proof -
  have len: "4 \<le> length (contents b)" using assms(2) by simp
  have "mem_read (buf_data b) (readerIndex b) 4 = Inr (be_bytes 4 (unat x))"
    using mem_read_contents[OF assms(1) len] assms(2) by simp
  moreover have "object_value h (be_bytes 4 (unat x)) < 2 ^ 32"
    using object_value_less[of h "be_bytes 4 (unat x)"] by simp
  ultimately show ?thesis
    using len assms(1) unat_bound[of x] htobe_object_value[of "unat x" 4 h]
    by (simp add: peekInt32_def peek_def networkToHost32_def unat_of_nat length_contents)
qed

lemma peekInt16_ok:
  assumes "buf_ok b" "contents b = be_bytes 2 (unat x) @ rest"
  shows "peekInt16 h b = Inr x"
proof -
  have len: "2 \<le> length (contents b)" using assms(2) by simp
  have "mem_read (buf_data b) (readerIndex b) 2 = Inr (be_bytes 2 (unat x))"
    using mem_read_contents[OF assms(1) len] assms(2) by simp
  moreover have "object_value h (be_bytes 2 (unat x)) < 2 ^ 16"
    using object_value_less[of h "be_bytes 2 (unat x)"] by simp
  ultimately show ?thesis
    using len assms(1) unat_bound[of x] htobe_object_value[of "unat x" 2 h]
    by (simp add: peekInt16_def peek_def networkToHost16_def unat_of_nat length_contents)
qed

lemma readInt32_ok:
  assumes "buf_ok b" "contents b = be_bytes 4 (unat x) @ rest"
  shows "\<exists>b'. readInt32 h b = Inr (x, b') \<and> buf_ok b' \<and> contents b' = rest"
  using retrieve_ok[OF assms(1), of 4] assms
  by (auto simp: readInt32_def peekInt32_ok[OF assms] retrieveInt32_def)

lemma readInt16_ok:
  assumes "buf_ok b" "contents b = be_bytes 2 (unat x) @ rest"
  shows "\<exists>b'. readInt16 h b = Inr (x, b') \<and> buf_ok b' \<and> contents b' = rest"
  using retrieve_ok[OF assms(1), of 2] assms
  by (auto simp: readInt16_def peekInt16_ok[OF assms] retrieveInt16_def)

lemma readInt8_ok:
  assumes "buf_ok b" "contents b = x # rest"
  shows "\<exists>b'. readInt8 b = Inr (x, b') \<and> buf_ok b' \<and> contents b' = rest"
  using retrieve_ok[OF assms(1), of 1] mem_read_contents[OF assms(1), of 1] assms
  by (auto simp: readInt8_def peekInt8_def peek_def retrieveInt8_def readable_contents
      simp del: readableBytes_ok)

lemma appendInt32_ok:
  assumes "buf_ok b" "buf_room b 4"
  shows "\<exists>b'. appendInt32 h b x = Inr b' \<and> buf_ok b' \<and> contents b' = contents b @ be_bytes 4 (unat x)
           \<and> writerIndex b' \<le> writerIndex b + 4"
  using buf_append_ok[OF assms, of "be_bytes 4 (unat x)"]
  by (auto simp: appendInt32_def wire_bytes32)

lemma appendInt16_ok:
  assumes "buf_ok b" "buf_room b 2"
  shows "\<exists>b'. appendInt16 h b x = Inr b' \<and> buf_ok b' \<and> contents b' = contents b @ be_bytes 2 (unat x)"
  using buf_append_ok[OF assms, of "be_bytes 2 (unat x)"]
  by (auto simp: appendInt16_def wire_bytes16)

lemma prependInt32_ok:
  assumes "buf_ok b" "4 \<le> readerIndex b"
  shows "\<exists>b'. prependInt32 h b x = Inr b' \<and> buf_ok b' \<and> contents b' = be_bytes 4 (unat x) @ contents b"
  using prepend_ok[OF assms, of "be_bytes 4 (unat x)"]
  by (auto simp: prependInt32_def wire_bytes32)

section \<open>Reading from a descriptor, shrinking\<close>

lemma readFd_ok:
  assumes ok: "buf_ok b" and room: "buf_room b (length bs)"
  shows "\<exists>b'. readFd b (Readv_Bytes bs) = Inr (int (length bs), None, b') \<and> buf_ok b'
           \<and> contents b' = contents b @ bs \<and> writerIndex b' \<le> writerIndex b + length bs"
proof -
  define free where "free = length (buf_data b) - writerIndex b"
  note bd = buf_ok_bounds[OF ok]
  have "length (take free bs) \<le> length (buf_data b) - writerIndex b" by (simp add: free_def)
  then obtain d where d: "mem_write (buf_data b) (writerIndex b) (take free bs) = Inr d"
    "buf_ok (b\<lparr>buf_data := d, writerIndex := writerIndex b + length (take free bs)\<rparr>)"
    "contents (b\<lparr>buf_data := d, writerIndex := writerIndex b + length (take free bs)\<rparr>)
       = contents b @ take free bs"
    using write_extends_contents[OF ok] by blast
  have len_d: "length d = length (buf_data b)" by (rule length_mem_write[OF d(1)])
  show ?thesis
  proof (cases "length bs \<le> free")
    case True
    then have "size_add (writerIndex b) (length bs) = writerIndex b + length bs"
      using bd by (simp add: size_add_small free_def)
    then have "readFd b (Readv_Bytes bs)
        = Inr (int (length bs), None, b\<lparr>buf_data := d, writerIndex := writerIndex b + length bs\<rparr>)"
      using True d(1) ok by (simp add: readFd_def Let_def beginWrite_def free_def)
    with True d show ?thesis by simp
  next
    case False
    define b1 where "b1 = b\<lparr>buf_data := d, writerIndex := length d\<rparr>"
    let ?k = "length bs - free"
    let ?extra = "drop free bs @ replicate (kExtraBuf - ?k) 0"
    have w: "writerIndex b + length (take free bs) = length d"
      using False len_d bd by (simp add: free_def)
    have ok1: "buf_ok b1" and c1: "contents b1 = contents b @ take free bs"
      using d(2,3) unfolding w b1_def by simp_all
    have "buf_room b1 ?k"
      using room False len_d bd by (simp add: buf_room_def b1_def free_def)
    then obtain b2 where b2: "buf_append b1 ?extra ?k = Inr b2" "buf_ok b2"
      "contents b2 = contents b1 @ take ?k ?extra" "writerIndex b2 \<le> writerIndex b1 + ?k"
      using buf_append_ok[OF ok1, of ?k ?extra] by auto
    have "readFd b (Readv_Bytes bs) = Inr (int (length bs), None, b2)"
      using False d(1) ok b2(1)
      by (simp add: readFd_def Let_def beginWrite_def b1_def flip: free_def)
    moreover have "contents b2 = contents b @ bs" using b2(3) c1 by simp
    moreover have "writerIndex b2 \<le> writerIndex b + length bs"
      using b2(4) False len_d bd by (simp add: b1_def free_def)
    ultimately show ?thesis using b2(2) by blast
  qed
qed

lemma toStringPiece_ok:
  assumes "buf_ok b" "length (contents b) < 2 ^ 31"
  shows "sp_ok (toStringPiece b) \<and> sp_bytes (toStringPiece b) = contents b"
  using assms
  by (auto simp: toStringPiece_def StringPiece_range_def sp_ok_def sp_bytes_def readable_contents
      int_of_size_small peek_def length_contents contents_def buf_ok_def simp del: readableBytes_ok)

lemma append_piece_ok:
  assumes "buf_ok b" "sp_ok p" "buf_room b (length (sp_bytes p))"
  shows "\<exists>b'. append_piece b p = Inr b' \<and> buf_ok b' \<and> contents b' = contents b @ sp_bytes p
           \<and> writerIndex b' \<le> writerIndex b + length (sp_bytes p)"
proof -
  let ?n = "nat (sp_len p)"
  have n: "length (sp_bytes p) = ?n" "?n \<le> length (sp_mem p)"
    using assms(2) by (auto simp: length_sp_bytes sp_ok_def)
  with assms(3) have "buf_room b ?n" by simp
  from buf_append_ok[OF assms(1) this n(2)] show ?thesis
    using assms(2) by (auto simp: append_piece_def size_of_sp_len n(1) simp flip: sp_bytes_def)
qed

lemma shrink_ok:
  assumes ok: "buf_ok b" and small: "length (contents b) < 2 ^ 31"
    and room: "length (contents b) + reserve + 8 \<le> vec_max"
  shows "\<exists>b'. shrink b reserve = Inr b' \<and> buf_ok b' \<and> contents b' = contents b
           \<and> writerIndex b' \<le> 8 + length (contents b)"
proof -
  define n where "n = length (contents b)"
  obtain b0 where b0: "Buffer_new = Inr b0" by (simp add: Buffer_new_eq)
  have b0_ok: "buf_ok b0" "contents b0 = []" "writerIndex b0 = 8"
    using b0 Buffer_new_ok[OF b0] by (auto simp: Buffer_new_eq)
  have sz: "size_add (readableBytes b) reserve = n + reserve"
    using room ok by (simp add: size_add_small readable_contents n_def vec_max_def
        del: readableBytes_ok)
  have "buf_room b0 (n + reserve)" using b0_ok(3) room by (simp add: buf_room_def n_def)
  then obtain b1 where b1: "ensureWritableBytes b0 (n + reserve) = Inr b1" "buf_ok b1"
    "contents b1 = []" "writerIndex b1 \<le> 8"
    using ensureWritableBytes_ok[OF b0_ok(1)] b0_ok(2,3) by auto
  have piece: "sp_ok (toStringPiece b)" "sp_bytes (toStringPiece b) = contents b"
    using toStringPiece_ok[OF ok small] by simp_all
  have "buf_room b1 (length (sp_bytes (toStringPiece b)))"
    using b1(4) room by (simp add: buf_room_def piece n_def)
  then obtain b2 where b2: "append_piece b1 (toStringPiece b) = Inr b2" "buf_ok b2"
    "contents b2 = contents b" "writerIndex b2 \<le> writerIndex b1 + n"
    using append_piece_ok[OF b1(2) piece(1)] piece(2) b1(3) by (auto simp: n_def)
  have "shrink b reserve = Inr b2"
    by (simp add: shrink_def Buffer_swap_def b0 b1(1) b2(1) sz)
  with b2 b1(4) show ?thesis by (simp add: n_def)
qed

section \<open>Searching\<close>

lemma mem_read_tail:
  assumes "buf_ok b" "readerIndex b \<le> start" "start \<le> writerIndex b"
  shows "mem_read (buf_data b) start (writerIndex b - start)
           = Inr (drop (start - readerIndex b) (contents b))"
  using assms by (auto simp: mem_read_def contents_def buf_ok_def drop_take)

text \<open>
  The position \<open>p\<close> is that of the first line end at or after \<open>start\<close>, in terms of the contents.
\<close>

definition first_crlf_at :: "Buffer \<Rightarrow> nat \<Rightarrow> nat \<Rightarrow> bool" where
  "first_crlf_at b start p \<longleftrightarrow>
     start \<le> p \<and> p + 2 \<le> writerIndex b
     \<and> take 2 (drop (p - readerIndex b) (contents b)) = kCRLF
     \<and> (\<forall>j. start \<le> j \<longrightarrow> j < p \<longrightarrow> take 2 (drop (j - readerIndex b) (contents b)) \<noteq> kCRLF)"

definition no_crlf_from :: "Buffer \<Rightarrow> nat \<Rightarrow> bool" where
  "no_crlf_from b start \<longleftrightarrow>
     (\<forall>j \<ge> start. take 2 (drop (j - readerIndex b) (contents b)) \<noteq> kCRLF)"

lemma findCRLF_from_ok:
  assumes ok: "buf_ok b" and lo: "readerIndex b \<le> start" and hi: "start \<le> writerIndex b"
  shows "(\<exists>p. findCRLF_from b start = Inr (Some p) \<and> first_crlf_at b start p)
         \<or> (findCRLF_from b start = Inr None \<and> no_crlf_from b start)"
proof -
  define xs where "xs = drop (start - readerIndex b) (contents b)"
  have len: "length xs = writerIndex b - start"
    using lo by (simp add: xs_def length_contents[OF ok])
  have at: "drop (j - readerIndex b) (contents b) = drop (j - start) xs" if "start \<le> j" for j
    using that lo by (simp add: xs_def add.commute)
  have unfold: "findCRLF_from b start =
      Inr (let crlf = (case first_match kCRLF xs of Some i \<Rightarrow> start + i | None \<Rightarrow> writerIndex b)
           in if crlf = writerIndex b then None else Some crlf)"
    using lo hi mem_read_tail[OF ok lo hi]
    by (simp add: findCRLF_from_def peek_def beginWrite_def search_range_def xs_def Let_def)
  show ?thesis
  proof (cases "first_match kCRLF xs")
    case None
    then have "no_crlf_from b start"
      using first_match_None[OF None] by (simp add: no_crlf_from_def at kCRLF_def numeral_2_eq_2)
    with None unfold show ?thesis by simp
  next
    case (Some i)
    from first_match_Some[OF Some] have i: "i + 2 \<le> length xs" "take 2 (drop i xs) = kCRLF"
      "\<forall>j<i. take 2 (drop j xs) \<noteq> kCRLF" by (simp_all add: kCRLF_def numeral_2_eq_2)
    have "first_crlf_at b start (start + i)"
      using i len hi by (auto simp: first_crlf_at_def at)
    moreover have "start + i \<noteq> writerIndex b" using i(1) len hi by simp
    ultimately show ?thesis using Some unfold by simp
  qed
qed

lemma findCRLF_eq: "buf_ok b \<Longrightarrow> findCRLF b = findCRLF_from b (readerIndex b)"
  by (simp add: findCRLF_def findCRLF_from_def peek_def beginWrite_def buf_ok_def)

section \<open>The buffer as an abstract queue\<close>

text \<open>
  A sequence of calls on a buffer, and the same sequence on a plain list of bytes.  The
  list has no storage: making room and shrinking leave it alone, and only a retrieval of
  more than there is stops it.
\<close>

datatype buf_op =
    Op_append "byte list"
  | Op_append32 host_order "32 word"
  | Op_read "byte list"
  | Op_retrieve nat
  | Op_retrieve_all
  | Op_ensure nat
  | Op_shrink nat

fun buf_step :: "Buffer \<Rightarrow> buf_op \<Rightarrow> Buffer outcome" where
  "buf_step b (Op_append xs) = buf_append b xs (length xs)"
| "buf_step b (Op_append32 h x) = appendInt32 h b x"
| "buf_step b (Op_read xs) = seq (readFd b (Readv_Bytes xs)) (\<lambda>(n, e, b'). Inr b')"
| "buf_step b (Op_retrieve n) = retrieve b n"
| "buf_step b Op_retrieve_all = Inr (retrieveAll b)"
| "buf_step b (Op_ensure n) = ensureWritableBytes b n"
| "buf_step b (Op_shrink n) = shrink b n"

fun buf_run :: "Buffer \<Rightarrow> buf_op list \<Rightarrow> Buffer outcome" where
  "buf_run b [] = Inr b"
| "buf_run b (a # as) = seq (buf_step b a) (\<lambda>b'. buf_run b' as)"

fun queue_step :: "byte list \<Rightarrow> buf_op \<Rightarrow> byte list outcome" where
  "queue_step q (Op_append xs) = Inr (q @ xs)"
| "queue_step q (Op_append32 h x) = Inr (q @ be_bytes 4 (unat x))"
| "queue_step q (Op_read xs) = Inr (q @ xs)"
| "queue_step q (Op_retrieve n) =
     (if n \<le> length q then Inr (drop n q) else Inl Assertion_Failed)"
| "queue_step q Op_retrieve_all = Inr []"
| "queue_step q (Op_ensure n) = Inr q"
| "queue_step q (Op_shrink n) = Inr q"

fun queue_run :: "byte list \<Rightarrow> buf_op list \<Rightarrow> byte list outcome" where
  "queue_run q [] = Inr q"
| "queue_run q (a # as) = seq (queue_step q a) (\<lambda>q'. queue_run q' as)"

text \<open>The storage an operation may ask for.\<close>

fun op_size :: "buf_op \<Rightarrow> nat" where
  "op_size (Op_append xs) = length xs"
| "op_size (Op_append32 h x) = 4"
| "op_size (Op_read xs) = length xs"
| "op_size (Op_ensure n) = n"
| "op_size (Op_shrink n) = n"
| "op_size _ = 0"

definition buf_extent :: "Buffer \<Rightarrow> nat" where
  "buf_extent b = max (writerIndex b) (8 + length (contents b))"

definition run_size :: "buf_op list \<Rightarrow> nat" where
  "run_size as = sum_list (map op_size as)"

lemma extent_room: "buf_extent b + n < 2 ^ 31 \<Longrightarrow> buf_room b n"
  by (simp add: buf_extent_def buf_room_def vec_max_def)

lemma extent_small: "buf_extent b + n < 2 ^ 31 \<Longrightarrow> length (contents b) < 2 ^ 31"
  by (simp add: buf_extent_def)

lemma extent_grow:
  "writerIndex b' \<le> writerIndex b + length xs \<Longrightarrow> contents b' = contents b @ xs \<Longrightarrow>
     buf_extent b' \<le> buf_extent b + length xs"
  by (simp add: buf_extent_def)

lemma extent_keep:
  "writerIndex b' \<le> max (writerIndex b) (8 + length (contents b)) \<Longrightarrow>
   length (contents b') \<le> length (contents b) \<Longrightarrow> buf_extent b' \<le> buf_extent b"
  by (simp add: buf_extent_def)

text \<open>One call refines one step of the list.\<close>

definition step_refines :: "Buffer \<Rightarrow> buf_op \<Rightarrow> bool" where
  "step_refines b a \<longleftrightarrow>
     (case buf_step b a of
        Inl e \<Rightarrow> queue_step (contents b) a = Inl e
      | Inr b' \<Rightarrow> queue_step (contents b) a = Inr (contents b') \<and> buf_ok b'
                \<and> buf_extent b' \<le> buf_extent b + op_size a)"

lemma buf_step_refines:
  assumes ok: "buf_ok b" and size: "buf_extent b + op_size a < 2 ^ 31"
  shows "step_refines b a"
proof (cases a)
  case (Op_append xs)
  have "buf_room b (length xs)" using size Op_append by (auto intro: extent_room)
  from buf_append_ok[OF ok this, of xs] show ?thesis
    by (auto simp: step_refines_def Op_append intro: extent_grow)
next
  case (Op_append32 h x)
  have "buf_room b 4" using size Op_append32 by (auto intro: extent_room)
  from appendInt32_ok[OF ok this, of h x] show ?thesis
    using extent_grow[of _ b "be_bytes 4 (unat x)"] by (auto simp: step_refines_def Op_append32)
next
  case (Op_read xs)
  have "buf_room b (length xs)" using size Op_read by (auto intro: extent_room)
  from readFd_ok[OF ok this] show ?thesis
    by (auto simp: step_refines_def Op_read intro: extent_grow)
next
  case (Op_retrieve n)
  show ?thesis
  proof (cases "n \<le> length (contents b)")
    case True
    then show ?thesis
      using retrieve_ok[OF ok True] by (auto simp: step_refines_def Op_retrieve intro!: extent_keep)
  next
    case False
    then show ?thesis using retrieve_too_much[OF ok] by (simp add: step_refines_def Op_retrieve)
  qed
next
  case Op_retrieve_all
  then show ?thesis
    using retrieveAll_ok[OF ok]
    by (auto simp: step_refines_def retrieveAll_def kCheapPrepend_def intro!: extent_keep)
next
  case (Op_ensure n)
  have "buf_room b n" using size Op_ensure by (auto intro: extent_room)
  from ensureWritableBytes_ok[OF ok this] show ?thesis
    by (auto simp: step_refines_def Op_ensure buf_extent_def)
next
  case (Op_shrink n)
  have "length (contents b) + n + 8 \<le> vec_max"
    using size Op_shrink by (simp add: buf_extent_def vec_max_def)
  from shrink_ok[OF ok extent_small[OF size] this] show ?thesis
    by (auto simp: step_refines_def Op_shrink buf_extent_def)
qed

lemma buf_run_refines:
  "buf_ok b \<Longrightarrow> buf_extent b + run_size as < 2 ^ 31 \<Longrightarrow>
     map_sum id contents (buf_run b as) = queue_run (contents b) as"
proof (induction as arbitrary: b)
  case Nil
  then show ?case by simp
next
  case (Cons a as)
  have size: "buf_extent b + op_size a + run_size as < 2 ^ 31"
    using Cons.prems(2) by (simp add: run_size_def)
  then have ref: "step_refines b a" using buf_step_refines[OF Cons.prems(1)] by simp
  show ?case
  proof (cases "buf_step b a")
    case (Inl e)
    with ref show ?thesis by (simp add: step_refines_def)
  next
    case (Inr b')
    with ref have b': "queue_step (contents b) a = Inr (contents b')" "buf_ok b'"
      "buf_extent b' \<le> buf_extent b + op_size a"
      by (simp_all add: step_refines_def)
    then have "map_sum id contents (buf_run b' as) = queue_run (contents b') as"
      using size by (intro Cons.IH) auto
    with Inr b'(1) show ?thesis by (simp add: id_def)
  qed
qed



section \<open>Properties\<close>

text \<open>
  C1: Any sequence of appends, integer appends, descriptor reads, retrievals, room requests and
  shrinks on a well-formed buffer does to its contents exactly what it does to a plain list
  of bytes, including the assertion failure of a retrieval past the end, as long as its
  extent plus all that the whole run puts in or asks for stays below 2 GiB.
\<close>

theorem buffer_refines_queue:
  assumes "buf_ok b" "buf_extent b + run_size as < 2 ^ 31"
  shows "map_sum id contents (buf_run b as) = queue_run (contents b) as"
  using assms by (rule buf_run_refines)

theorem buffer_refines_queue_witness:
  "\<exists>b. Buffer_new = Inr b
     \<and> map_sum id contents (buf_run b [Op_append [1, 2, 3], Op_retrieve 2, Op_shrink 5, Op_read [4]])
         = Inr [3, 4]"
proof -
  obtain b where b: "Buffer_new = Inr b" by (simp add: Buffer_new_eq)
  from Buffer_new_ok[OF b] have ok: "buf_ok b" and c: "contents b = []" by simp_all
  have "buf_extent b = 8" using b c by (auto simp: Buffer_new_eq buf_extent_def)
  then have sz: "buf_extent b
      + run_size [Op_append [1, 2, 3], Op_retrieve 2, Op_shrink 5, Op_read [4]] < 2 ^ 31"
    by (simp add: run_size_def)
  from buffer_refines_queue[OF ok sz] show ?thesis
    by (intro exI[of _ b] conjI) (rule b, simp add: c)
qed



text \<open>
  C19: A 32-bit integer appended on a host of any byte order lies in the buffer most
  significant byte first, after what was there, and a host of any byte order that has
  consumed what was before it reads the same integer back and leaves the rest.
\<close>

theorem int32_roundtrip:
  assumes "buf_ok b" "buf_room b 4"
  shows "\<exists>b1 b2 b3. appendInt32 h b x = Inr b1
           \<and> contents b1 = contents b @ be_bytes 4 (unat x)
           \<and> retrieve b1 (length (contents b)) = Inr b2
           \<and> readInt32 h' b2 = Inr (x, b3) \<and> contents b3 = []"
proof -
  obtain b1 where b1: "appendInt32 h b x = Inr b1" "buf_ok b1"
    "contents b1 = contents b @ be_bytes 4 (unat x)"
    using appendInt32_ok[OF assms] by blast
  obtain b2 where b2: "retrieve b1 (length (contents b)) = Inr b2" "buf_ok b2"
    "contents b2 = be_bytes 4 (unat x) @ []"
    using retrieve_ok[OF b1(2), of "length (contents b)"] b1(3) by auto
  from readInt32_ok[OF b2(2,3)] b1 b2 show ?thesis by blast
qed

theorem int32_roundtrip_witness:
  "\<exists>b b1 b2 b3. Buffer_new = Inr b \<and> appendInt32 Little_Endian b 0xDEADBEEF = Inr b1
     \<and> contents b1 = [0xDE, 0xAD, 0xBE, 0xEF] \<and> retrieve b1 0 = Inr b2
     \<and> readInt32 Big_Endian b2 = Inr (0xDEADBEEF, b3) \<and> contents b3 = []"
proof -
  obtain b where b: "Buffer_new = Inr b" by (simp add: Buffer_new_eq)
  have c: "contents b = []" using Buffer_new_ok[OF b] by simp
  have "be_bytes 4 (unat (0xDEADBEEF :: 32 word)) = [0xDE, 0xAD, 0xBE, 0xEF]"
    by (simp add: be_bytes_def)
  moreover have "buf_room b 4" using b by (auto simp: Buffer_new_eq buf_room_def vec_max_def)
  ultimately show ?thesis
    using int32_roundtrip[of b Little_Endian "0xDEADBEEF" Big_Endian] Buffer_new_ok[OF b] b c
    by (metis append_Nil list.size(3))
qed

text \<open>
  C20: Searching for a line end from a position inside the readable bytes returns the first
  CR LF pair at or after it that lies wholly before the writer index, or null when the rest of
  the readable bytes holds none.
\<close>

theorem findCRLF_first:
  assumes "buf_ok b" "readerIndex b \<le> start" "start \<le> writerIndex b"
  shows "(\<exists>p. findCRLF_from b start = Inr (Some p) \<and> first_crlf_at b start p)
         \<or> (findCRLF_from b start = Inr None \<and> no_crlf_from b start)"
  using assms by (rule findCRLF_from_ok)

definition crlf_sample :: Buffer where
  "crlf_sample = \<lparr>buf_data = replicate 8 0 @ [65, 13, 10, 13, 10] @ replicate 1019 0,
                  readerIndex = 8, writerIndex = 13\<rparr>"

theorem findCRLF_first_witness:
  "findCRLF_from crlf_sample 8 = Inr (Some 9) \<and> first_crlf_at crlf_sample 8 9"
proof -
  have ok: "buf_ok crlf_sample" by (simp add: buf_ok_def crlf_sample_def buf_consts)
  have "findCRLF_from crlf_sample 8 = Inr (Some 9)"
    by (simp add: findCRLF_from_def crlf_sample_def peek_def beginWrite_def search_range_def
        mem_read_def kCRLF_def)
  with findCRLF_first[OF ok, of 8] show ?thesis by (auto simp: crlf_sample_def)
qed

text \<open>
  \<^verbatim>\<open>findEOL(start)\<close> looks at as many bytes from \<open>start\<close> as the whole buffer has readable,
  not at the readable bytes after \<open>start\<close>.  In a buffer that received a line, was drained and
  received one byte, the search from the writer index finds the newline of the old line, a
  position that is not readable, and retrieving up to it fails an assertion.
\<close>

theorem findEOL_from_stale:
  "\<exists>b. seq Buffer_new (\<lambda>b0. buf_run b0 [Op_append [65, 10], Op_retrieve_all, Op_append [66]]) = Inr b
     \<and> contents b = [66] \<and> findEOL_from b (beginWrite b) = Inr (Some (beginWrite b))
     \<and> retrieveUtil b (beginWrite b + 1) = Inl Assertion_Failed"
proof -
  define z where "z = (replicate 1022 0 :: byte list)"
  define b where "b = \<lparr>buf_data = replicate 8 0 @ [66, 10] @ z, readerIndex = 8, writerIndex = 9\<rparr>"
  have new: "Buffer_new = Inr \<lparr>buf_data = replicate 8 0 @ 0 # 0 # z, readerIndex = 8, writerIndex = 8\<rparr>"
  proof -
    have "(replicate 1032 0 :: byte list) = replicate 8 0 @ replicate 2 0 @ z"
      unfolding z_def by (simp only: replicate_add[symmetric]) simp
    then show ?thesis by (simp add: Buffer_new_eq numeral_2_eq_2)
  qed
  have lz: "length z = 1022" by (simp add: z_def)
  have "seq Buffer_new (\<lambda>b0. buf_run b0 [Op_append [65, 10], Op_retrieve_all, Op_append [66]]) = Inr b"
    by (simp add: new b_def buf_append_def ensureWritableBytes_def writableBytes_def size_sub_def lz
        beginWrite_def mem_write_def hasWritten_def size_add_def retrieveAll_def kCheapPrepend_def)
  moreover have "contents b = [66]" by (simp add: contents_def b_def)
  moreover have "findEOL_from b (beginWrite b) = Inr (Some (beginWrite b))"
    by (simp add: findEOL_from_def b_def peek_def beginWrite_def readableBytes_def size_sub_def
        c_memchr_def)
  moreover have "retrieveUtil b (beginWrite b + 1) = Inl Assertion_Failed"
    by (simp add: retrieveUtil_def b_def peek_def beginWrite_def)
  ultimately show ?thesis by blast
qed

end
