(* ===== verification/Text_Format.thy ===== *)
theory Text_Format
  imports Prelude
begin

text \<open>
  The decimal conversions of \<^verbatim>\<open>snprintf\<close> the program uses (\<^verbatim>\<open>%d\<close>, \<^verbatim>\<open>%4d\<close>, \<^verbatim>\<open>%02d\<close>, \<dots>) and
  \<^verbatim>\<open>atoi\<close>, as the C standard defines them.
\<close>

definition digit_char :: "nat \<Rightarrow> char" where
  "digit_char d = char_of (48 + d)"

fun dec_nat :: "nat \<Rightarrow> string" where
  "dec_nat n = (if n < 10 then [digit_char n] else dec_nat (n div 10) @ [digit_char (n mod 10)])"

declare dec_nat.simps [simp del]

definition dec_int :: "int \<Rightarrow> string" where
  "dec_int v = (if v < 0 then CHR ''-'' # dec_nat (nat (- v)) else dec_nat (nat v))"

text \<open>\<^verbatim>\<open>%wd\<close> pads with blanks on the left, \<^verbatim>\<open>%0wd\<close> with zeros after the sign.\<close>

definition pad_left :: "char \<Rightarrow> nat \<Rightarrow> string \<Rightarrow> string" where
  "pad_left c w s = replicate (w - length s) c @ s"

definition fmt_d :: "nat \<Rightarrow> int \<Rightarrow> string" where
  "fmt_d w v = pad_left CHR '' '' w (dec_int v)"

definition fmt_0d :: "nat \<Rightarrow> int \<Rightarrow> string" where
  "fmt_0d w v =
     (if v < 0 then CHR ''-'' # pad_left CHR ''0'' (w - 1) (dec_nat (nat (- v)))
      else pad_left CHR ''0'' w (dec_nat (nat v)))"

text \<open>\<^verbatim>\<open>snprintf\<close> into an array of \<open>n\<close> characters keeps room for the terminating null.\<close>

definition snprintf_buf :: "nat \<Rightarrow> string \<Rightarrow> string" where
  "snprintf_buf n s = take (n - 1) s"

text \<open>Reading decimal numbers.\<close>

definition is_digit :: "char \<Rightarrow> bool" where
  "is_digit c \<longleftrightarrow> 48 \<le> (of_char c :: nat) \<and> (of_char c :: nat) \<le> 57"

definition digit_val :: "char \<Rightarrow> nat" where
  "digit_val c = of_char c - 48"

definition read_nat :: "string \<Rightarrow> nat" where
  "read_nat s = foldl (\<lambda>acc c. acc * 10 + digit_val c) 0 s"

definition read_int :: "string \<Rightarrow> int" where
  "read_int s = (case s of c # cs \<Rightarrow> (if c = CHR ''-'' then - int (read_nat cs) else int (read_nat s))
                 | [] \<Rightarrow> 0)"

text \<open>
  \<^verbatim>\<open>strtol\<close>: optional blanks, an optional sign, then digits up to the first other character, cut off at the
  ends of the 64-bit range.  \<^verbatim>\<open>atol\<close> and \<^verbatim>\<open>atoll\<close> are the same function, and \<^verbatim>\<open>atoi\<close> keeps its low 32 bits.
\<close>

definition is_space :: "char \<Rightarrow> bool" where
  "is_space c \<longleftrightarrow> c = CHR '' '' \<or> (9 \<le> (of_char c :: nat) \<and> (of_char c :: nat) \<le> 13)"

definition c_strtol :: "string \<Rightarrow> int" where
  "c_strtol s =
     max (- (2 ^ 63)) (min (2 ^ 63 - 1)
       (case dropWhile is_space s of
          [] \<Rightarrow> 0
        | c # cs \<Rightarrow>
            if c = CHR ''-'' then - int (read_nat (takeWhile is_digit cs))
            else if c = CHR ''+'' then int (read_nat (takeWhile is_digit cs))
            else int (read_nat (takeWhile is_digit (c # cs)))))"

definition c_atoi :: "string \<Rightarrow> int" where
  "c_atoi s = int32 (c_strtol s)"

section \<open>Lemmas\<close>

lemma is_digit_digit_char: "d < 10 \<Longrightarrow> is_digit (digit_char d)"
  by (simp add: is_digit_def digit_char_def)

lemma digit_val_digit_char: "d < 10 \<Longrightarrow> digit_val (digit_char d) = d"
  by (simp add: digit_val_def digit_char_def)

lemma digit_char_not_minus: "d < 10 \<Longrightarrow> digit_char d \<noteq> CHR ''-''"
proof
  assume "d < 10" "digit_char d = CHR ''-''"
  then have "(of_char (digit_char d) :: nat) = of_char CHR ''-''" by simp
  with \<open>d < 10\<close> show False by (simp add: digit_char_def)
qed

lemma dec_nat_nonempty: "dec_nat n \<noteq> []"
  by (subst dec_nat.simps) simp

lemma dec_nat_digits: "c \<in> set (dec_nat n) \<Longrightarrow> is_digit c"
proof (induction n arbitrary: c rule: dec_nat.induct)
  case (1 n)
  show ?case
  proof (cases "n < 10")
    case True
    with "1.prems" show ?thesis by (simp add: dec_nat.simps[of n] is_digit_digit_char)
  next
    case False
    with "1.prems" "1.IH"[OF False] show ?thesis
      by (auto simp: dec_nat.simps[of n] is_digit_digit_char)
  qed
qed

lemma read_dec_nat: "read_nat (dec_nat n) = n"
proof (induction n rule: dec_nat.induct)
  case (1 n)
  show ?case
  proof (cases "n < 10")
    case True
    then show ?thesis by (simp add: dec_nat.simps[of n] read_nat_def digit_val_digit_char)
  next
    case False
    with "1.IH"[OF False] show ?thesis
      by (simp add: dec_nat.simps[of n] read_nat_def digit_val_digit_char)
  qed
qed

lemma hd_dec_nat: "hd (dec_nat n) \<noteq> CHR ''-''"
proof -
  have "is_digit (hd (dec_nat n))" by (rule dec_nat_digits[of _ n]) (simp add: dec_nat_nonempty)
  then show ?thesis by (auto simp: is_digit_def)
qed

lemma read_dec_int: "read_int (dec_int v) = v"
proof (cases "v < 0")
  case True
  then show ?thesis by (simp add: dec_int_def read_int_def read_dec_nat)
next
  case False
  obtain c cs where s: "dec_nat (nat v) = c # cs" using dec_nat_nonempty by (cases "dec_nat (nat v)") auto
  then have "c \<noteq> CHR ''-''" using hd_dec_nat[of "nat v"] by simp
  with False s show ?thesis using read_dec_nat[of "nat v"] by (simp add: dec_int_def read_int_def)
qed

lemma length_dec_nat: "n < 10 ^ k \<Longrightarrow> 0 < k \<Longrightarrow> length (dec_nat n) \<le> k"
proof (induction n arbitrary: k rule: dec_nat.induct)
  case (1 n)
  show ?case
  proof (cases "n < 10")
    case True
    with "1.prems" show ?thesis by (simp add: dec_nat.simps[of n])
  next
    case False
    then obtain k' where k: "k = Suc k'" "0 < k'" using "1.prems" by (cases k; cases "k - 1") auto
    have "n div 10 < 10 ^ k'" using "1.prems"(1) k(1) by (simp add: less_mult_imp_div_less)
    with "1.IH"[OF False, of k'] k False show ?thesis by (simp add: dec_nat.simps[of n])
  qed
qed

lemma length_pad_left: "length (pad_left c w s) = max w (length s)"
  by (simp add: pad_left_def max_def)

lemma length_fmt_0d:
  "0 \<le> v \<Longrightarrow> v < 10 ^ w \<Longrightarrow> 0 < w \<Longrightarrow> length (fmt_0d w v) = w"
  using length_dec_nat[of "nat v" w]
  by (simp add: fmt_0d_def length_pad_left nat_less_iff max_def)

end
