(* ===== verification/Calendar.thy ===== *)
theory Calendar
  imports Text_Format
begin

text \<open>
  \<^verbatim>\<open>src/src/utils/Date.h\<close> and \<^verbatim>\<open>Date.cpp\<close>: dates of the proleptic Gregorian calendar kept as
  a Julian day number.  The two conversions are shown to be inverse to each other, in both
  directions, and consecutive numbers to be consecutive days.
\<close>

section \<open>Model\<close>

record YearMonthDay =
  ymd_year :: int
  ymd_month :: int
  ymd_day :: int

record Date =
  julianDayNumber :: int

text \<open>The fields of \<^verbatim>\<open>struct tm\<close>.\<close>

record tm =
  tm_sec :: int
  tm_min :: int
  tm_hour :: int
  tm_mday :: int
  tm_mon :: int
  tm_year :: int
  tm_wday :: int
  tm_yday :: int
  tm_isdst :: int
  tm_gmtoff :: int
  tm_zone :: string

text \<open>
  Every operation is one on \<^verbatim>\<open>int\<close>, at 32 bits.  (Where one leaves the range the C++ behaviour
  is undefined; the model wraps, and the theorems below are about dates where none does.)
\<close>

definition getJulianDayNumber :: "int \<Rightarrow> int \<Rightarrow> int \<Rightarrow> int" where
  "getJulianDayNumber year month day =
     (let a = sub32 14 month sdiv 12;
          y = sub32 (add32 year 4800) a;
          m = sub32 (add32 month (mul32 12 a)) 3
      in sub32 (add32 (sub32 (add32 (add32 (add32 day (add32 (mul32 153 m) 2 sdiv 5))
                                           (mul32 y 365))
                                    (y sdiv 4))
                             (y sdiv 100))
                      (y sdiv 400))
               32045)"

definition getYearMonthDay :: "int \<Rightarrow> YearMonthDay" where
  "getYearMonthDay jdn =
     (let a = add32 jdn 32044;
          b = add32 (mul32 4 a) 3 sdiv 146097;
          c = sub32 a (mul32 b 146097 sdiv 4);
          d = add32 (mul32 4 c) 3 sdiv 1461;
          e = sub32 c (mul32 1461 d sdiv 4);
          m = add32 (mul32 5 e) 2 sdiv 153
      in \<lparr>ymd_year = add32 (sub32 (add32 (mul32 b 100) d) 4800) (m sdiv 10),
          ymd_month = sub32 (add32 m 3) (mul32 12 (m sdiv 10)),
          ymd_day = add32 (sub32 e (add32 (mul32 153 m) 2 sdiv 5)) 1\<rparr>)"

definition kDaysPerWeek :: int where
  "kDaysPerWeek = 7"

definition kJulianDayOf1970_01_01 :: int where
  "kJulianDayOf1970_01_01 = getJulianDayNumber 1970 1 1"

definition Date_default :: Date where
  "Date_default = \<lparr>julianDayNumber = 0\<rparr>"

definition Date_ymd :: "int \<Rightarrow> int \<Rightarrow> int \<Rightarrow> Date" where
  "Date_ymd y m d = \<lparr>julianDayNumber = getJulianDayNumber y m d\<rparr>"

definition Date_jdn :: "int \<Rightarrow> Date" where
  "Date_jdn julianDayNum = \<lparr>julianDayNumber = julianDayNum\<rparr>"

definition Date_tm :: "tm \<Rightarrow> Date" where
  "Date_tm t =
     \<lparr>julianDayNumber = getJulianDayNumber (add32 (tm_year t) 1900) (add32 (tm_mon t) 1) (tm_mday t)\<rparr>"

definition Date_swap :: "Date \<Rightarrow> Date \<Rightarrow> Date \<times> Date" where
  "Date_swap this that =
     (this\<lparr>julianDayNumber := julianDayNumber that\<rparr>,
      that\<lparr>julianDayNumber := julianDayNumber this\<rparr>)"

definition Date_valid :: "Date \<Rightarrow> bool" where
  "Date_valid d \<longleftrightarrow> julianDayNumber d > 0"

definition yearMonthDay :: "Date \<Rightarrow> YearMonthDay" where
  "yearMonthDay d = getYearMonthDay (julianDayNumber d)"

definition Date_year :: "Date \<Rightarrow> int" where
  "Date_year d = ymd_year (yearMonthDay d)"

definition Date_month :: "Date \<Rightarrow> int" where
  "Date_month d = ymd_month (yearMonthDay d)"

definition Date_day :: "Date \<Rightarrow> int" where
  "Date_day d = ymd_day (yearMonthDay d)"

definition weekDay :: "Date \<Rightarrow> int" where
  "weekDay d = add32 (julianDayNumber d) 1 smod kDaysPerWeek"

definition Date_lt :: "Date \<Rightarrow> Date \<Rightarrow> bool" where
  "Date_lt x y \<longleftrightarrow> julianDayNumber x < julianDayNumber y"

definition Date_eq :: "Date \<Rightarrow> Date \<Rightarrow> bool" where
  "Date_eq x y \<longleftrightarrow> julianDayNumber x = julianDayNumber y"

definition toIsoString :: "Date \<Rightarrow> string" where
  "toIsoString d =
     (let ymd = yearMonthDay d in
      snprintf_buf 32 (fmt_d 4 (ymd_year ymd) @ ''-'' @ fmt_0d 2 (ymd_month ymd) @ ''-''
                       @ fmt_0d 2 (ymd_day ymd)))"

section \<open>The conversions over the integers\<close>

text \<open>The two formulas with no bound on the integers; they are compared with the code below.\<close>

definition exact_jdn :: "int \<Rightarrow> int \<Rightarrow> int \<Rightarrow> int" where
  "exact_jdn year month day =
     (let a = (14 - month) sdiv 12;
          y = year + 4800 - a;
          m = month + 12 * a - 3
      in day + (153 * m + 2) sdiv 5 + y * 365 + y sdiv 4 - y sdiv 100 + y sdiv 400 - 32045)"

definition exact_ymd :: "int \<Rightarrow> YearMonthDay" where
  "exact_ymd jdn =
     (let a = jdn + 32044;
          b = (4 * a + 3) sdiv 146097;
          c = a - ((b * 146097) sdiv 4);
          d = (4 * c + 3) sdiv 1461;
          e = c - ((1461 * d) sdiv 4);
          m = (5 * e + 2) sdiv 153
      in \<lparr>ymd_year = b * 100 + d - 4800 + (m sdiv 10),
          ymd_month = m + 3 - 12 * (m sdiv 10),
          ymd_day = e - ((153 * m + 2) sdiv 5) + 1\<rparr>)"

section \<open>The Gregorian calendar\<close>

definition leap_year :: "int \<Rightarrow> bool" where
  "leap_year y \<longleftrightarrow> (4 dvd y \<and> \<not> 100 dvd y) \<or> 400 dvd y"

definition days_in_month :: "int \<Rightarrow> int \<Rightarrow> int" where
  "days_in_month y m =
     (if m = 2 then (if leap_year y then 29 else 28)
      else if m \<in> {4, 6, 9, 11} then 30 else 31)"

text \<open>The dates for which the algorithm's divisions have no negative dividend.\<close>

definition gregorian_date :: "int \<Rightarrow> int \<Rightarrow> int \<Rightarrow> bool" where
  "gregorian_date y m d \<longleftrightarrow>
     (-4799 \<le> y \<or> y = -4800 \<and> 3 \<le> m) \<and> 1 \<le> m \<and> m \<le> 12
     \<and> 1 \<le> d \<and> d \<le> days_in_month y m"

definition next_day :: "YearMonthDay \<Rightarrow> YearMonthDay" where
  "next_day t =
     (let y = ymd_year t; m = ymd_month t; d = ymd_day t in
      if d < days_in_month y m then t\<lparr>ymd_day := d + 1\<rparr>
      else if m < 12 then t\<lparr>ymd_month := m + 1, ymd_day := 1\<rparr>
      else \<lparr>ymd_year = y + 1, ymd_month = 1, ymd_day = 1\<rparr>)"

section \<open>Arithmetic of the two conversions\<close>

text \<open>
  Both conversions count from 1 March of the year -4800: \<open>y\<close> is the year that starts then,
  \<open>m\<close> its month and \<open>e\<close> the day in it.  \<open>march_days\<close> is the number of days before day \<open>e\<close>.
\<close>

definition month_offset :: "int \<Rightarrow> int" where
  "month_offset m = (153 * m + 2) div 5"

definition march_days :: "int \<Rightarrow> int \<Rightarrow> int" where
  "march_days y e = 365 * y + y div 4 - y div 100 + y div 400 + e"

lemma div_bounds_eq:
  fixes n q X :: int
  assumes "n * q \<le> X" "X < n * q + n"
  shows "X div n = q"
  by (rule int_div_pos_eq [of _ _ _ "X - n * q"]) (use assms in simp_all)

lemma div_4_split:
  fixes c :: int
  obtains s t where "c = 4 * s + t" "0 \<le> t" "t \<le> 3" "c mod 4 = t" "c div 4 = s"
proof (rule that [of "c div 4" "c mod 4"])
  show "c mod 4 \<le> 3"
    using pos_mod_bound [of 4 c] by simp
qed simp_all

lemma march_year_split:
  fixes c k :: int
  assumes "0 \<le> k" "k < 100"
  shows "march_days (100 * c + k) e = 36524 * c + c div 4 + (365 * k + k div 4) + e"
proof -
  obtain s t where t: "c = 4 * s + t" "0 \<le> t" "t \<le> 3" and s: "c div 4 = s"
    by (rule div_4_split)
  obtain v u where u: "k = 4 * v + u" "0 \<le> u" "u \<le> 3" and v: "k div 4 = v"
    by (rule div_4_split)
  have "(100 * c + k) div 4 = 25 * c + v"
    by (rule div_bounds_eq) (use u in simp_all)
  moreover have "(100 * c + k) div 100 = c"
    by (rule div_bounds_eq) (use assms in simp_all)
  moreover have "(100 * c + k) div 400 = s"
    by (rule div_bounds_eq) (use t assms in simp_all)
  ultimately show ?thesis by (simp add: march_days_def s v)
qed

text \<open>The century, the year in the century and the day in the year, read back.\<close>

lemma century_of_days:
  fixes c R :: int
  assumes "0 \<le> R" "R \<le> 36524" "R = 36524 \<Longrightarrow> c mod 4 = 3"
  shows "(4 * (36524 * c + c div 4 + R) + 3) div 146097 = c"
proof -
  obtain s t where t: "c = 4 * s + t" "0 \<le> t" "t \<le> 3" and m: "c mod 4 = t" and s: "c div 4 = s"
    by (rule div_4_split)
  have "R \<le> 36523 \<or> t = 3"
    using assms(2,3) t m by fastforce
  then show ?thesis
    unfolding s by (intro div_bounds_eq) (use t assms(1,2) in auto)
qed

lemma century_start: "(146097 * c) div 4 = 36524 * c + c div (4 :: int)"
proof -
  obtain s t where t: "c = 4 * s + t" "0 \<le> t" "t \<le> 3" and s: "c div 4 = s"
    by (rule div_4_split)
  show ?thesis
    unfolding s by (rule div_bounds_eq) (use t in simp_all)
qed

lemma year_of_days:
  fixes k e :: int
  assumes "0 \<le> e" "e \<le> 365" "e = 365 \<Longrightarrow> k mod 4 = 3"
  shows "(4 * (365 * k + k div 4 + e) + 3) div 1461 = k"
proof -
  obtain s t where t: "k = 4 * s + t" "0 \<le> t" "t \<le> 3" and m: "k mod 4 = t" and s: "k div 4 = s"
    by (rule div_4_split)
  have "e \<le> 364 \<or> t = 3"
    using assms(2,3) m by fastforce
  then show ?thesis
    unfolding s by (intro div_bounds_eq) (use t assms(1,2) in auto)
qed

lemma year_start: "(1461 * k) div 4 = 365 * k + k div (4 :: int)"
proof -
  obtain s t where t: "k = 4 * s + t" "0 \<le> t" "t \<le> 3" and s: "k div 4 = s"
    by (rule div_4_split)
  show ?thesis
    unfolding s by (rule div_bounds_eq) (use t in simp_all)
qed

text \<open>The month table, by cases.\<close>

lemma month_cases:
  fixes m :: int
  assumes "0 \<le> m" "m \<le> 11"
  shows "m = 0 \<or> m = 1 \<or> m = 2 \<or> m = 3 \<or> m = 4 \<or> m = 5 \<or> m = 6 \<or> m = 7 \<or> m = 8 \<or> m = 9
         \<or> m = 10 \<or> m = 11"
  using assms by presburger

lemma month_of_day:
  fixes m d :: int
  assumes "0 \<le> m" "m \<le> 11" "1 \<le> d" "d \<le> month_offset (m + 1) - month_offset m"
  shows "(5 * (d - 1 + month_offset m) + 2) div 153 = m"
proof (rule div_bounds_eq)
  show "153 * m \<le> 5 * (d - 1 + month_offset m) + 2"
    using month_cases [OF assms(1,2)] assms(3,4) by (auto simp: month_offset_def)
  show "5 * (d - 1 + month_offset m) + 2 < 153 * m + 153"
    using month_cases [OF assms(1,2)] assms(3,4) by (auto simp: month_offset_def)
qed

lemma month_bounds:
  fixes e :: int
  assumes "0 \<le> e" "e \<le> 365"
  defines "m \<equiv> (5 * e + 2) div 153"
  shows "0 \<le> m" "m \<le> 11" "month_offset m \<le> e" "e < month_offset (m + 1)"
proof -
  have lo: "153 * m \<le> 5 * e + 2" and hi: "5 * e + 2 < 153 * m + 153"
    unfolding m_def by linarith+
  show m: "0 \<le> m" "m \<le> 11"
    using lo hi assms(1,2) by linarith+
  have "5 * month_offset m \<le> 153 * m + 2" "153 * m + 155 < 5 * month_offset (m + 1) + 5"
    unfolding month_offset_def distrib_left by linarith+
  then show "month_offset m \<le> e" "e < month_offset (m + 1)"
    using lo hi by linarith+
qed

text \<open>The year that starts in March, the month in it and its day.\<close>

definition march_year :: "int \<Rightarrow> int \<Rightarrow> int" where
  "march_year y m = (if m \<le> 2 then y + 4799 else y + 4800)"

definition march_month :: "int \<Rightarrow> int" where
  "march_month m = (if m \<le> 2 then m + 9 else m - 3)"

lemma march_month_range: "1 \<le> m \<Longrightarrow> m \<le> 12 \<Longrightarrow> 0 \<le> march_month m \<and> march_month m \<le> 11"
  by (simp add: march_month_def)

lemma march_year_nonneg: "gregorian_date y m d \<Longrightarrow> 0 \<le> march_year y m"
  by (auto simp: gregorian_date_def march_year_def)

lemma exact_jdn_march:
  assumes "1 \<le> m" "m \<le> 12" "0 \<le> march_year y m"
  shows "exact_jdn y m d
         = march_days (march_year y m) (d - 1 + month_offset (march_month m)) - 32044"
proof -
  have a: "(14 - m) sdiv 12 = (if m \<le> 2 then 1 else 0)"
    using assms(1,2) by (auto simp: trunc_simps intro!: div_bounds_eq)
  have y: "y + 4800 - (14 - m) sdiv 12 = march_year y m"
    unfolding a by (simp add: march_year_def)
  have m: "m + 12 * ((14 - m) sdiv 12) - 3 = march_month m"
    unfolding a by (simp add: march_month_def)
  show ?thesis
    using assms(3) march_month_range [OF assms(1,2)]
    unfolding exact_jdn_def Let_def y m
    by (simp add: trunc_simps march_days_def month_offset_def)
qed

lemma leap_year_march:
  fixes c k :: int
  assumes "0 \<le> k" "k < 100" "leap_year (100 * c + k + 1)"
  shows "k mod 4 = 3" "k = 99 \<Longrightarrow> c mod 4 = 3"
proof -
  have "4 dvd 100 * c + k + 1"
    using assms(3) dvd_trans [of 4 400 "100 * c + k + 1"] unfolding leap_year_def by auto
  then have "4 dvd (100 * c) + (k + 1)"
    by (simp add: add.assoc)
  then have "4 dvd k + 1"
    using dvd_add_right_iff [of 4 "100 * c" "k + 1"] by simp
  then show "k mod 4 = 3" by presburger
  assume "k = 99"
  then have "400 dvd 100 * (c + 1)"
    using assms(3) unfolding leap_year_def by (auto simp: algebra_simps)
  then have "4 dvd c + 1"
    using dvd_times_left_cancel_iff [of 100 4 "c + 1"] by simp
  then show "c mod 4 = 3" by presburger
qed

lemma exact_ymd_march:
  fixes y e :: int
  assumes y: "0 \<le> y" and e: "0 \<le> e" "e \<le> 365" and leap: "e = 365 \<Longrightarrow> leap_year (y + 1)"
  defines "m \<equiv> (5 * e + 2) div 153"
  shows "exact_ymd (march_days y e - 32044)
         = \<lparr>ymd_year = y - 4800 + m div 10, ymd_month = m + 3 - 12 * (m div 10),
            ymd_day = e - month_offset m + 1\<rparr>"
proof -
  define c k where "c = y div 100" and "k = y mod 100"
  have yck: "y = 100 * c + k" and k: "0 \<le> k" "k < 100" and c: "0 \<le> c"
    unfolding c_def k_def using y by (simp_all add: pos_imp_zdiv_nonneg_iff)
  define R where "R = 365 * k + k div 4 + e"
  have A: "march_days y e = 36524 * c + c div 4 + R"
    unfolding yck R_def using march_year_split [OF k] by simp
  have q: "0 \<le> k div 4" "k div 4 \<le> 24" "0 \<le> c div 4"
    using k c by linarith+
  have R: "0 \<le> R" "R \<le> 36524"
    unfolding R_def using k e q by linarith+
  have full: "R = 36524 \<Longrightarrow> c mod 4 = 3"
    unfolding R_def using k e q leap leap_year_march(2) [OF k, of c] unfolding yck by linarith
  have A0: "0 \<le> march_days y e" and m0: "0 \<le> m"
    unfolding A using c q R month_bounds(1) [OF e] by (simp_all add: m_def)
  have b: "(4 * march_days y e + 3) sdiv 146097 = c"
    using A0 century_of_days [OF R full] by (simp add: trunc_simps A)
  have c1: "march_days y e - (c * 146097) sdiv 4 = R"
    using c century_start [of c] by (simp add: trunc_simps A mult.commute [of c])
  have d: "(4 * R + 3) sdiv 1461 = k"
    using R(1) year_of_days [OF e] leap leap_year_march(1) [OF k, of c]
    unfolding R_def yck by (simp add: trunc_simps)
  have e1: "R - (1461 * k) sdiv 4 = e"
    using k year_start [of k] unfolding R_def by (simp add: trunc_simps)
  have m1: "(5 * e + 2) sdiv 153 = m" "m sdiv 10 = m div 10"
      "(153 * m + 2) sdiv 5 = month_offset m"
    using e m0 by (simp_all add: trunc_simps m_def month_offset_def)
  show ?thesis
    unfolding exact_ymd_def Let_def diff_add_cancel b c1 d e1 m1 by (simp add: yck)
qed

lemma leap_year_shift: "leap_year (y + 4800) = leap_year y"
proof -
  have "(4 :: int) dvd 4800" "(100 :: int) dvd 4800" "(400 :: int) dvd 4800" by simp_all
  then show ?thesis
    unfolding leap_year_def by (simp add: dvd_add_left_iff)
qed

lemma days_in_month_march:
  assumes "1 \<le> m" "m \<le> 12" "m \<noteq> 2"
  shows "days_in_month y m = month_offset (march_month m + 1) - month_offset (march_month m)"
  using assms month_cases [of "m - 1"]
  by (auto simp: days_in_month_def month_offset_def march_month_def)

lemma february: "month_offset 11 = 337" "month_offset 12 = 367" "march_month 2 = 11"
  by (simp_all add: month_offset_def march_month_def)

lemma day_in_march_year:
  assumes g: "gregorian_date y m d"
  defines "e \<equiv> d - 1 + month_offset (march_month m)"
  shows "0 \<le> e" "e \<le> 365" "e = 365 \<Longrightarrow> leap_year (march_year y m + 1)"
    "(5 * e + 2) div 153 = march_month m"
proof -
  have m: "1 \<le> m" "m \<le> 12" and d: "1 \<le> d" "d \<le> days_in_month y m"
    using g by (auto simp: gregorian_date_def)
  have len: "days_in_month y m \<le> month_offset (march_month m + 1) - month_offset (march_month m)"
  proof (cases "m = 2")
    case True
    then show ?thesis by (simp add: days_in_month_def february)
  qed (simp add: days_in_month_march m)
  have "month_offset (march_month m) + days_in_month y m \<le> (if m = 2 then 366 else 337)
        \<and> 0 \<le> month_offset (march_month m)"
    using m month_cases [of "m - 1"]
    by (auto simp: days_in_month_def month_offset_def march_month_def)
  then show "0 \<le> e" "e \<le> 365"
    using d by (auto simp: e_def split: if_splits)
  show "leap_year (march_year y m + 1)" if "e = 365"
  proof -
    have "m = 2"
      using that d \<open>month_offset (march_month m) + days_in_month y m \<le> _ \<and> _\<close>
      by (auto simp: e_def split: if_splits)
    then show ?thesis
      using that d leap_year_shift [of y]
      by (auto simp: add.commute [of 4800] e_def february days_in_month_def march_year_def split: if_splits)
  qed
  show "(5 * e + 2) div 153 = march_month m"
    unfolding e_def using month_of_day march_month_range [OF m] d len by simp
qed

lemma march_month_back:
  assumes "1 \<le> m" "m \<le> 12"
  shows "march_month m div 10 = (if m \<le> 2 then 1 else 0)"
    "march_month m + 3 - 12 * (march_month m div 10) = m"
    "march_year y m - 4800 + march_month m div 10 = y"
  using month_cases [of "m - 1"] assms by (auto simp: march_month_def march_year_def)

section \<open>The conversions are inverse to each other\<close>

lemma ymd_of_jdn:
  assumes g: "gregorian_date y m d"
  shows "exact_ymd (exact_jdn y m d) = \<lparr>ymd_year = y, ymd_month = m, ymd_day = d\<rparr>"
proof -
  have m: "1 \<le> m" "m \<le> 12"
    using g by (auto simp: gregorian_date_def)
  show ?thesis
    using day_in_march_year [OF g] march_year_nonneg [OF g] m
    unfolding exact_jdn_march [OF m march_year_nonneg [OF g]]
    by (subst exact_ymd_march) (simp_all only: march_month_back(1) [OF m], auto simp: march_month_def march_year_def)
qed

lemma div_plus_1:
  fixes y n :: int
  assumes "0 < n"
  shows "(y + 1) div n = y div n + (if n dvd y + 1 then 1 else 0)"
proof -
  define q r where "q = y div n" and "r = y mod n"
  have y: "y = n * q + r" "0 \<le> r" "r < n"
    unfolding q_def r_def using assms by simp_all
  have "n dvd y + 1 \<longleftrightarrow> y mod n + 1 = n"
  proof -
    have "n dvd y + 1 \<longleftrightarrow> n dvd y mod n + 1"
      by (metis dvd_eq_mod_eq_0 mod_add_left_eq)
    also have "\<dots> \<longleftrightarrow> y mod n + 1 = n"
      using assms zdvd_imp_le [of n "y mod n + 1"] pos_mod_bound [OF assms, of y]
        pos_mod_sign [OF assms, of y] by auto
    finally show ?thesis .
  qed
  then show ?thesis
    unfolding q_def [symmetric] r_def [symmetric]
    by (intro div_bounds_eq) (use y in \<open>auto simp: algebra_simps\<close>)
qed

lemma march_days_next_year:
  "march_days (y + 1) 0 = march_days y 0 + (if leap_year (y + 1) then 366 else 365)"
proof -
  have "4 dvd y + 1" if "100 dvd y + 1" using that dvd_trans [of 4 100 "y + 1"] by simp
  moreover have "100 dvd y + 1" if "400 dvd y + 1" using that dvd_trans [of 100 400 "y + 1"] by simp
  ultimately show ?thesis
    by (auto simp: march_days_def div_plus_1 leap_year_def distrib_left)
qed

lemma next_day_in_month:
  assumes "gregorian_date y m d" "d < days_in_month y m"
  shows "gregorian_date y m (d + 1)"
    "exact_jdn y m (d + 1) = exact_jdn y m d + 1"
  using assms by (auto simp: gregorian_date_def exact_jdn_def Let_def)

lemma march_days_add: "march_days y (e + n) = march_days y e + n"
  by (simp add: march_days_def)

lemma next_month:
  assumes g: "gregorian_date y m d" and d: "d = days_in_month y m" and m: "m < 12"
  shows "gregorian_date y (m + 1) 1"
    "exact_jdn y (m + 1) 1 = exact_jdn y m d + 1"
proof -
  show g': "gregorian_date y (m + 1) 1"
    using g m by (auto simp: gregorian_date_def days_in_month_def)
  have r: "1 \<le> m" "m \<le> 12" "1 \<le> m + 1" "m + 1 \<le> 12"
    using g m by (auto simp: gregorian_date_def)
  show "exact_jdn y (m + 1) 1 = exact_jdn y m d + 1"
  proof (cases "m = 2")
    case True
    have nxt: "march_days (y + 4800) 0 = march_days (y + 4799) 0 + d + 337"
      using march_days_next_year [of "y + 4799"] leap_year_shift [of y] True d
      by (simp add: days_in_month_def add.commute [of 4800])
    have "exact_jdn y 3 1 = march_days (y + 4800) 0 - 32044"
      using True exact_jdn_march [OF r(3,4) march_year_nonneg [OF g'], of 1]
      by (simp add: march_year_def march_month_def month_offset_def)
    moreover have "exact_jdn y 2 d = march_days (y + 4799) (0 + (d + 336)) - 32044"
      using True exact_jdn_march [OF r(1,2) march_year_nonneg [OF g], of d]
      by (simp add: march_year_def february algebra_simps)
    ultimately show ?thesis
      using True nxt unfolding march_days_add by simp
  next
    case False
    have "march_month (m + 1) = march_month m + 1" "march_year y (m + 1) = march_year y m"
      using False r by (auto simp: march_month_def march_year_def)
    then show ?thesis
      using False d days_in_month_march [OF r(1,2) False]
        exact_jdn_march [OF r(1,2) march_year_nonneg [OF g]]
        exact_jdn_march [OF r(3,4) march_year_nonneg [OF g']]
      by (simp add: march_days_def)
  qed
qed

lemma next_year:
  assumes g: "gregorian_date y 12 31"
  shows "gregorian_date (y + 1) 1 1"
    "exact_jdn (y + 1) 1 1 = exact_jdn y 12 31 + 1"
proof -
  show g': "gregorian_date (y + 1) 1 1"
    using g by (auto simp: gregorian_date_def days_in_month_def)
  show "exact_jdn (y + 1) 1 1 = exact_jdn y 12 31 + 1"
    using exact_jdn_march [OF _ _ march_year_nonneg [OF g]]
      exact_jdn_march [OF _ _ march_year_nonneg [OF g']]
    by (simp add: march_days_def march_year_def march_month_def month_offset_def
        add.commute [of 4800])
qed

lemma next_day_jdn:
  fixes t :: YearMonthDay
  assumes "gregorian_date (ymd_year t) (ymd_month t) (ymd_day t)"
  shows "gregorian_date (ymd_year (next_day t)) (ymd_month (next_day t)) (ymd_day (next_day t))"
    "exact_jdn (ymd_year (next_day t)) (ymd_month (next_day t)) (ymd_day (next_day t))
     = exact_jdn (ymd_year t) (ymd_month t) (ymd_day t) + 1"
proof -
  have last: "ymd_day t = days_in_month (ymd_year t) (ymd_month t)"
    if "\<not> ymd_day t < days_in_month (ymd_year t) (ymd_month t)"
    using that assms by (simp add: gregorian_date_def)
  have december: "ymd_month t = 12" if "\<not> ymd_month t < 12"
    using that assms by (simp add: gregorian_date_def)
  show "gregorian_date (ymd_year (next_day t)) (ymd_month (next_day t)) (ymd_day (next_day t))"
    "exact_jdn (ymd_year (next_day t)) (ymd_month (next_day t)) (ymd_day (next_day t))
     = exact_jdn (ymd_year t) (ymd_month t) (ymd_day t) + 1"
    using next_day_in_month [OF assms] next_month [OF assms] last december
      next_year [of "ymd_year t"] assms
    by (auto simp: next_day_def Let_def days_in_month_def)
qed

lemma jdn_is_date:
  assumes "-32044 \<le> jdn"
  obtains t :: YearMonthDay where "gregorian_date (ymd_year t) (ymd_month t) (ymd_day t)"
    "exact_jdn (ymd_year t) (ymd_month t) (ymd_day t) = jdn"
proof -
  have "\<exists>t :: YearMonthDay. gregorian_date (ymd_year t) (ymd_month t) (ymd_day t)
            \<and> exact_jdn (ymd_year t) (ymd_month t) (ymd_day t) = jdn"
    using assms
  proof (induction jdn rule: int_ge_induct)
    case base
    have "gregorian_date (-4800) 3 1 \<and> exact_jdn (-4800) 3 1 = -32044"
      by (simp add: gregorian_date_def days_in_month_def exact_jdn_def trunc_simps)
    then show ?case
      by (intro exI [of _ "\<lparr>ymd_year = -4800, ymd_month = 3, ymd_day = 1\<rparr>"]) simp
  next
    case (step i)
    then show ?case using next_day_jdn by blast
  qed
  with that show thesis by blast
qed

lemma exact_ymd_valid:
  assumes "-32044 \<le> jdn"
  defines "t \<equiv> exact_ymd jdn"
  shows "gregorian_date (ymd_year t) (ymd_month t) (ymd_day t)"
    "exact_jdn (ymd_year t) (ymd_month t) (ymd_day t) = jdn"
proof -
  obtain u :: YearMonthDay where u: "gregorian_date (ymd_year u) (ymd_month u) (ymd_day u)"
    "exact_jdn (ymd_year u) (ymd_month u) (ymd_day u) = jdn"
    using jdn_is_date [OF assms(1)] .
  then have "t = u"
    unfolding t_def using ymd_of_jdn [OF u(1)] by simp
  with u show "gregorian_date (ymd_year t) (ymd_month t) (ymd_day t)"
    "exact_jdn (ymd_year t) (ymd_month t) (ymd_day t) = jdn"
    by simp_all
qed

section \<open>The range of int\<close>

text \<open>
  No intermediate result of \<^verbatim>\<open>getYearMonthDay\<close> leaves the range of \<^verbatim>\<open>int\<close> as long as \<open>4 * a + 3\<close>
  does not, that is up to day 536838867; \<^verbatim>\<open>getJulianDayNumber\<close> has room beyond.
\<close>

definition last_jdn :: int where
  "last_jdn = 536838867"

definition last_year :: int where
  "last_year = 1465102"

lemma sdiv_bounds:
  fixes x k :: int
  assumes "0 \<le> x" "0 < k"
  shows "0 \<le> x sdiv k" "k * (x sdiv k) \<le> x" "x < k * (x sdiv k) + k"
proof -
  have e: "x sdiv k = x div k"
    using assms by (simp add: trunc_simps)
  show "0 \<le> x sdiv k" unfolding e using assms by (simp add: pos_imp_zdiv_nonneg_iff)
  have "x = k * (x div k) + x mod k" "0 \<le> x mod k" "x mod k < k"
    using assms by simp_all
  then show "k * (x sdiv k) \<le> x" "x < k * (x sdiv k) + k"
    unfolding e by linarith+
qed

lemma getYearMonthDay_exact:
  assumes "-32044 \<le> jdn" "jdn \<le> last_jdn"
  shows "getYearMonthDay jdn = exact_ymd jdn"
proof -
  define a where "a = jdn + 32044"
  define b where "b = (4 * a + 3) sdiv 146097"
  define q where "q = (b * 146097) sdiv 4"
  define c where "c = a - q"
  define d where "d = (4 * c + 3) sdiv 1461"
  define r where "r = (1461 * d) sdiv 4"
  define e where "e = c - r"
  define m where "m = (5 * e + 2) sdiv 153"
  define t where "t = m sdiv 10"
  define u where "u = (153 * m + 2) sdiv 5"
  have a: "0 \<le> a" "a \<le> 536870911"
    using assms by (simp_all add: a_def last_jdn_def)
  have b: "0 \<le> b" "146097 * b \<le> 4 * a + 3" "4 * a + 3 < 146097 * b + 146097"
    unfolding b_def using sdiv_bounds [of "4 * a + 3" 146097] a by simp_all
  have q: "4 * q \<le> b * 146097" "b * 146097 < 4 * q + 4"
    unfolding q_def using sdiv_bounds [of "b * 146097" 4] b by simp_all
  have c: "0 \<le> c" "c \<le> 36525"
    unfolding c_def using b q by linarith+
  have d: "0 \<le> d" "1461 * d \<le> 4 * c + 3" "4 * c + 3 < 1461 * d + 1461"
    unfolding d_def using sdiv_bounds [of "4 * c + 3" 1461] c by simp_all
  have r: "4 * r \<le> 1461 * d" "1461 * d < 4 * r + 4"
    unfolding r_def using sdiv_bounds [of "1461 * d" 4] d by simp_all
  have e: "0 \<le> e" "e \<le> 366"
    unfolding e_def using d r by linarith+
  have m: "0 \<le> m" "153 * m \<le> 5 * e + 2"
    unfolding m_def using sdiv_bounds [of "5 * e + 2" 153] e by simp_all
  have t: "0 \<le> t" "10 * t \<le> m"
    unfolding t_def using sdiv_bounds [of m 10] m by simp_all
  have u: "0 \<le> u" "5 * u \<le> 153 * m + 2"
    unfolding u_def using sdiv_bounds [of "153 * m + 2" 5] m by simp_all
  have A: "add32 jdn 32044 = a"
    using a by (simp add: add32_small a_def)
  have B: "add32 (mul32 4 a) 3 sdiv 146097 = b"
    using a by (simp add: small32 b_def)
  have C: "sub32 a (mul32 b 146097 sdiv 4) = c"
    using a b q c by (simp add: small32 q_def [symmetric] c_def)
  have D: "add32 (mul32 4 c) 3 sdiv 1461 = d"
    using c by (simp add: small32 d_def)
  have E: "sub32 c (mul32 1461 d sdiv 4) = e"
    using c d r e by (simp add: small32 r_def [symmetric] e_def)
  have M: "add32 (mul32 5 e) 2 sdiv 153 = m"
    using e by (simp add: small32 m_def)
  have U: "add32 (mul32 153 m) 2 sdiv 5 = u"
    using e m by (simp add: small32 u_def)
  have "getYearMonthDay jdn
        = \<lparr>ymd_year = b * 100 + d - 4800 + t, ymd_month = m + 3 - 12 * t, ymd_day = e - u + 1\<rparr>"
    unfolding getYearMonthDay_def Let_def A B C D E M U t_def [symmetric]
    using a b c d e m t u by (simp add: small32)
  moreover have "exact_ymd jdn
        = \<lparr>ymd_year = b * 100 + d - 4800 + t, ymd_month = m + 3 - 12 * t, ymd_day = e - u + 1\<rparr>"
    unfolding exact_ymd_def Let_def a_def [symmetric] b_def [symmetric] q_def [symmetric]
      c_def [symmetric] d_def [symmetric] r_def [symmetric] e_def [symmetric] m_def [symmetric]
      t_def [symmetric] u_def [symmetric] ..
  ultimately show ?thesis by simp
qed

lemma getJulianDayNumber_exact:
  assumes g: "gregorian_date year month day" and last: "year \<le> last_year + 1"
  shows "getJulianDayNumber year month day = exact_jdn year month day"
proof -
  define a where "a = (14 - month) sdiv 12"
  define y where "y = year + 4800 - a"
  define m where "m = month + 12 * a - 3"
  have mon: "1 \<le> month" "month \<le> 12" and day: "1 \<le> day" "day \<le> 31"
    using g by (auto simp: gregorian_date_def days_in_month_def split: if_splits)
  have a: "a = (if month \<le> 2 then 1 else 0)"
    unfolding a_def using mon by (auto simp: trunc_simps intro!: div_bounds_eq)
  have y: "0 \<le> y" "y \<le> 1469903" and ye: "- 4800 \<le> year"
    using g last by (auto simp: y_def a gregorian_date_def last_year_def)
  have m: "0 \<le> m" "m \<le> 11"
    using mon by (auto simp: m_def a)
  have A: "sub32 14 month sdiv 12 = a"
    using mon by (simp add: sub32_small a_def)
  have Y: "sub32 (add32 year 4800) a = y"
    using y ye last by (simp add: add32_small sub32_small y_def a last_year_def)
  have M: "sub32 (add32 month (mul32 12 a)) 3 = m"
    using mon by (simp add: small32 m_def a)
  define u where "u = (153 * m + 2) sdiv 5"
  have u: "0 \<le> u" "5 * u \<le> 153 * m + 2"
    unfolding u_def using sdiv_bounds [of "153 * m + 2" 5] m by simp_all
  have U: "add32 (mul32 153 m) 2 sdiv 5 = u"
    using m by (simp add: small32 u_def)
  note d4 = sdiv_bounds [of y 4] and d100 = sdiv_bounds [of y 100] and d400 = sdiv_bounds [of y 400]
  show ?thesis
    unfolding getJulianDayNumber_def exact_jdn_def Let_def A Y M U
      a_def [symmetric] y_def [symmetric] m_def [symmetric] u_def [symmetric]
    using day u m y d4 d100 d400 by (simp add: small32)
qed

lemma exact_jdn_bounds:
  assumes g: "gregorian_date y m d"
  shows "-32044 \<le> exact_jdn y m d" "y \<le> last_year - 1 \<Longrightarrow> exact_jdn y m d \<le> last_jdn"
    "exact_jdn y m d \<le> last_jdn \<Longrightarrow> y \<le> last_year + 1"
proof -
  have m: "1 \<le> m" "m \<le> 12"
    using g by (auto simp: gregorian_date_def)
  define Y e where "Y = march_year y m" and "e = d - 1 + month_offset (march_month m)"
  have e: "0 \<le> e" "e \<le> 365"
    unfolding e_def by (rule day_in_march_year [OF g])+
  have Y: "0 \<le> Y" "y + 4799 \<le> Y" "Y \<le> y + 4800"
    using march_year_nonneg [OF g] by (auto simp: Y_def march_year_def)
  have j: "exact_jdn y m d = march_days Y e - 32044"
    unfolding Y_def e_def by (rule exact_jdn_march [OF m march_year_nonneg [OF g]])
  have lo: "365 * Y + Y div 4 - Y div 100 + Y div 400 \<ge> 365 * Y"
    using Y zdiv_mono2 [of Y 4 100] by (simp add: pos_imp_zdiv_nonneg_iff)
  show "-32044 \<le> exact_jdn y m d"
    unfolding j march_days_def using lo e Y by linarith
  show "exact_jdn y m d \<le> last_jdn" if "y \<le> last_year - 1"
    unfolding j march_days_def last_jdn_def using e Y that by (simp add: last_year_def)
  show "y \<le> last_year + 1" if "exact_jdn y m d \<le> last_jdn"
    using that e Y unfolding j march_days_def last_jdn_def by (simp add: last_year_def)
qed

text \<open>The conversions of the code, in the range of \<^verbatim>\<open>int\<close>.\<close>

lemma getYearMonthDay_getJulianDayNumber:
  assumes g: "gregorian_date y m d" and y: "y < last_year"
  shows "getYearMonthDay (getJulianDayNumber y m d) = \<lparr>ymd_year = y, ymd_month = m, ymd_day = d\<rparr>"
proof -
  have "exact_jdn y m d \<le> last_jdn"
    using exact_jdn_bounds(2) [OF g] y by simp
  then show ?thesis
    using y getYearMonthDay_exact [OF exact_jdn_bounds(1) [OF g]] getJulianDayNumber_exact [OF g]
      ymd_of_jdn [OF g] by simp
qed

lemma getYearMonthDay_valid:
  assumes "-32044 \<le> jdn" "jdn \<le> last_jdn"
  defines "t \<equiv> getYearMonthDay jdn"
  shows "gregorian_date (ymd_year t) (ymd_month t) (ymd_day t)"
    "getJulianDayNumber (ymd_year t) (ymd_month t) (ymd_day t) = jdn"
proof -
  have t: "t = exact_ymd jdn"
    unfolding t_def by (rule getYearMonthDay_exact [OF assms(1,2)])
  show g: "gregorian_date (ymd_year t) (ymd_month t) (ymd_day t)"
    unfolding t by (rule exact_ymd_valid [OF assms(1)])
  have e: "exact_jdn (ymd_year t) (ymd_month t) (ymd_day t) = jdn"
    unfolding t by (rule exact_ymd_valid [OF assms(1)])
  then have "ymd_year t \<le> last_year + 1"
    using exact_jdn_bounds(3) [OF g] assms(2) by simp
  then show "getJulianDayNumber (ymd_year t) (ymd_month t) (ymd_day t) = jdn"
    using getJulianDayNumber_exact [OF g] e by simp
qed

text \<open>
  C8: A calendar date and its Julian day number determine each other, in 32-bit arithmetic and
  over the whole range in which it does not overflow.  Every day of the Gregorian calendar from
  1 March -4800 to the end of the year 1465101 is read back from the number that
  \<^verbatim>\<open>getJulianDayNumber\<close> gives it, and every number from -32044 to 536838867 is split by
  \<^verbatim>\<open>getYearMonthDay\<close> into a real calendar date (month lengths and leap years included) whose
  number it is.  One day later \<open>4 * a + 3\<close> is no longer an \<^verbatim>\<open>int\<close>, and the wrapped result is
  not that day's date.
\<close>

theorem date_roundtrip:
  "(\<forall>y m d. gregorian_date y m d \<and> y < last_year \<longrightarrow>
      yearMonthDay (Date_ymd y m d) = \<lparr>ymd_year = y, ymd_month = m, ymd_day = d\<rparr>)
   \<and> (\<forall>jdn. -32044 \<le> jdn \<and> jdn \<le> last_jdn \<longrightarrow>
        gregorian_date (Date_year (Date_jdn jdn)) (Date_month (Date_jdn jdn)) (Date_day (Date_jdn jdn))
        \<and> Date_ymd (Date_year (Date_jdn jdn)) (Date_month (Date_jdn jdn)) (Date_day (Date_jdn jdn))
          = Date_jdn jdn)
   \<and> yearMonthDay (Date_jdn (last_jdn + 1)) \<noteq> next_day (yearMonthDay (Date_jdn last_jdn))"
proof -
  have "getYearMonthDay (last_jdn + 1) \<noteq> next_day (getYearMonthDay last_jdn)"
    unfolding last_jdn_def by code_simp
  then show ?thesis
    using getYearMonthDay_getJulianDayNumber getYearMonthDay_valid
    by (simp add: yearMonthDay_def Date_ymd_def Date_year_def Date_month_def Date_day_def Date_jdn_def)
qed

theorem date_roundtrip_witness:
  "yearMonthDay (Date_ymd 2012 2 29) = \<lparr>ymd_year = 2012, ymd_month = 2, ymd_day = 29\<rparr>
   \<and> Date_ymd (Date_year (Date_jdn 0)) (Date_month (Date_jdn 0)) (Date_day (Date_jdn 0)) = Date_jdn 0"
proof -
  have "gregorian_date 2012 2 29"
    by (simp add: gregorian_date_def days_in_month_def leap_year_def)
  then show ?thesis
    using date_roundtrip by (simp add: last_year_def last_jdn_def)
qed

text \<open>
  Consecutive Julian day numbers are consecutive calendar days: the date of \<open>jdn + 1\<close> is
  the day after the date of \<open>jdn\<close> (over ends of months and years), and its \<^verbatim>\<open>weekDay\<close> is the
  next day of the week.
\<close>

theorem consecutive_days:
  assumes "-32044 \<le> jdn" "jdn < last_jdn"
  shows "yearMonthDay (Date_jdn (jdn + 1)) = next_day (yearMonthDay (Date_jdn jdn))
    \<and> (-1 \<le> jdn \<longrightarrow> weekDay (Date_jdn (jdn + 1)) = (weekDay (Date_jdn jdn) + 1) mod 7)"
proof -
  let ?n = "next_day (exact_ymd jdn)"
  have "exact_ymd (exact_jdn (ymd_year ?n) (ymd_month ?n) (ymd_day ?n)) = ?n"
    using ymd_of_jdn [OF next_day_jdn(1) [OF exact_ymd_valid(1) [OF assms(1)]]] by simp
  then have "exact_ymd (jdn + 1) = ?n"
    using next_day_jdn(2) exact_ymd_valid [OF assms(1)] by simp
  then show ?thesis
    using assms
    by (auto simp: yearMonthDay_def Date_jdn_def weekDay_def kDaysPerWeek_def trunc_simps
        getYearMonthDay_exact add32_small last_jdn_def mod_add_left_eq)
qed

theorem consecutive_days_witness:
  "yearMonthDay (Date_jdn 2440588) = next_day (yearMonthDay (Date_jdn 2440587))
   \<and> yearMonthDay (Date_jdn 2440588) = \<lparr>ymd_year = 1970, ymd_month = 1, ymd_day = 1\<rparr>
   \<and> weekDay (Date_jdn 2440588) = 4"
proof -
  have "yearMonthDay (Date_jdn 2440588) = \<lparr>ymd_year = 1970, ymd_month = 1, ymd_day = 1\<rparr>"
    by code_simp
  moreover have "weekDay (Date_jdn 2440588) = 4"
    by code_simp
  ultimately show ?thesis
    using consecutive_days [of 2440587] by (simp add: last_jdn_def)
qed

end
