(* ===== verification/Time_Stamp.thy ===== *)
theory Time_Stamp
  imports Calendar Complex_Main
begin

text \<open>
  \<^verbatim>\<open>src/src/utils/Timestamp.h\<close> and \<^verbatim>\<open>Timestamp.cpp\<close>: microseconds since the epoch in an
  \<^verbatim>\<open>int64_t\<close>.  A \<^verbatim>\<open>double\<close> is a real number; every floating-point operation is followed by
  the rounding function \<open>rnd\<close> of the machine, a parameter.  \<^verbatim>\<open>gettimeofday\<close> and \<^verbatim>\<open>gmtime_r\<close>
  are parameters too.
\<close>

section \<open>Model\<close>

record Timestamp =
  microSecondsSinceEpoch :: int

definition kMicroSecondsPerSecond :: int where
  "kMicroSecondsPerSecond = 1000 * 1000"

definition Timestamp_default :: Timestamp where
  "Timestamp_default = \<lparr>microSecondsSinceEpoch = 0\<rparr>"

definition Timestamp_of :: "int \<Rightarrow> Timestamp" where
  "Timestamp_of microseconds = \<lparr>microSecondsSinceEpoch = microseconds\<rparr>"

definition Timestamp_swap :: "Timestamp \<Rightarrow> Timestamp \<Rightarrow> Timestamp \<times> Timestamp" where
  "Timestamp_swap this that =
     (this\<lparr>microSecondsSinceEpoch := microSecondsSinceEpoch that\<rparr>,
      that\<lparr>microSecondsSinceEpoch := microSecondsSinceEpoch this\<rparr>)"

definition Timestamp_toString :: "Timestamp \<Rightarrow> string" where
  "Timestamp_toString t =
     (let seconds = microSecondsSinceEpoch t sdiv kMicroSecondsPerSecond;
          microseconds = microSecondsSinceEpoch t smod kMicroSecondsPerSecond
      in snprintf_buf 31 (dec_int seconds @ ''.'' @ fmt_0d 6 microseconds))"

definition toFormattedString :: "(int \<Rightarrow> tm) \<Rightarrow> Timestamp \<Rightarrow> string" where
  "toFormattedString gmtime_r t =
     (let seconds = microSecondsSinceEpoch t sdiv kMicroSecondsPerSecond;
          microseconds = int32 (microSecondsSinceEpoch t smod kMicroSecondsPerSecond);
          tm_time = gmtime_r seconds
      in snprintf_buf 32
           (fmt_d 4 (tm_year tm_time + 1900) @ fmt_0d 2 (tm_mon tm_time + 1)
            @ fmt_0d 2 (tm_mday tm_time) @ '' '' @ fmt_0d 2 (tm_hour tm_time) @ '':''
            @ fmt_0d 2 (tm_min tm_time) @ '':'' @ fmt_0d 2 (tm_sec tm_time) @ ''.''
            @ fmt_0d 6 microseconds))"

definition Timestamp_valid :: "Timestamp \<Rightarrow> bool" where
  "Timestamp_valid t \<longleftrightarrow> microSecondsSinceEpoch t > 0"

definition secondsSinceEpoch :: "Timestamp \<Rightarrow> int" where
  "secondsSinceEpoch t = microSecondsSinceEpoch t sdiv kMicroSecondsPerSecond"

text \<open>\<open>tv\<close> is what \<^verbatim>\<open>gettimeofday\<close> stores: seconds and microseconds.\<close>

definition Timestamp_now :: "int \<times> int \<Rightarrow> Timestamp" where
  "Timestamp_now tv = Timestamp_of (fst tv * kMicroSecondsPerSecond + snd tv)"

definition Timestamp_invalid :: Timestamp where
  "Timestamp_invalid = Timestamp_default"

definition Timestamp_lt :: "Timestamp \<Rightarrow> Timestamp \<Rightarrow> bool" where
  "Timestamp_lt lhs rhs \<longleftrightarrow> microSecondsSinceEpoch lhs < microSecondsSinceEpoch rhs"

definition Timestamp_eq :: "Timestamp \<Rightarrow> Timestamp \<Rightarrow> bool" where
  "Timestamp_eq lhs rhs \<longleftrightarrow> microSecondsSinceEpoch lhs = microSecondsSinceEpoch rhs"

text \<open>The conversion of a \<^verbatim>\<open>double\<close> to \<^verbatim>\<open>int64_t\<close> drops the fraction.\<close>

definition trunc_to_zero :: "real \<Rightarrow> int" where
  "trunc_to_zero x = (if x < 0 then \<lceil>x\<rceil> else \<lfloor>x\<rfloor>)"

definition timeDifference :: "(real \<Rightarrow> real) \<Rightarrow> Timestamp \<Rightarrow> Timestamp \<Rightarrow> real" where
  "timeDifference rnd high low =
     (let diff = microSecondsSinceEpoch high - microSecondsSinceEpoch low
      in rnd (rnd (real_of_int diff) / real_of_int kMicroSecondsPerSecond))"

definition addTime :: "(real \<Rightarrow> real) \<Rightarrow> Timestamp \<Rightarrow> real \<Rightarrow> Timestamp" where
  "addTime rnd timestamp seconds =
     (let delta = trunc_to_zero (rnd (seconds * real_of_int kMicroSecondsPerSecond))
      in Timestamp_of (microSecondsSinceEpoch timestamp + delta))"

section \<open>Ordering\<close>

text \<open>Timestamps are ordered as the integers they hold.\<close>

lemma Timestamp_eq_iff: "Timestamp_eq s t \<longleftrightarrow> s = (t :: Timestamp)"
  by (cases s; cases t) (simp add: Timestamp_eq_def)

lemma Timestamp_lt_trans: "Timestamp_lt a b \<Longrightarrow> Timestamp_lt b c \<Longrightarrow> Timestamp_lt a c"
  by (simp add: Timestamp_lt_def)

lemma Timestamp_lt_total:
  "Timestamp_lt (s :: Timestamp) t \<or> s = t \<or> Timestamp_lt t s"
  by (cases s; cases t) (auto simp: Timestamp_lt_def)

lemma trunc_to_zero_mono: "x \<le> y \<Longrightarrow> trunc_to_zero x \<le> trunc_to_zero y"
proof -
  assume h: "x \<le> y"
  show ?thesis
  proof (cases "x < 0")
    case True
    then have "\<lceil>x\<rceil> \<le> 0" by (simp add: ceiling_le_iff)
    then have "\<lceil>x\<rceil> \<le> \<lfloor>y\<rfloor>" if "\<not> y < 0"
      by (rule order_trans) (use that in simp)
    then show ?thesis
      using True ceiling_mono [OF h] by (simp add: trunc_to_zero_def)
  next
    case False
    then show ?thesis using h floor_mono [OF h] by (auto simp: trunc_to_zero_def)
  qed
qed

lemma trunc_to_zero_error: "\<bar>real_of_int (trunc_to_zero x) - x\<bar> < 1"
  by (simp add: trunc_to_zero_def) linarith

section \<open>Adding a delay\<close>

text \<open>
  Adding a delay to a time is monotone in the delay, never moves backwards for a delay
  that is not negative, and with a rounding that does not change the product differs from the
  exact sum by less than a microsecond.
\<close>

theorem addTime_monotone:
  assumes mono: "\<And>x y. x \<le> y \<Longrightarrow> rnd x \<le> rnd y" and zero: "rnd 0 = 0"
  shows "(s \<le> s' \<longrightarrow> \<not> Timestamp_lt (addTime rnd t s') (addTime rnd t s))
    \<and> (0 \<le> s \<longrightarrow> \<not> Timestamp_lt (addTime rnd t s) t)
    \<and> (rnd (s * 1000000) = s * 1000000 \<longrightarrow>
         \<bar>real_of_int (microSecondsSinceEpoch (addTime rnd t s))
           - (real_of_int (microSecondsSinceEpoch t) + s * 1000000)\<bar> < 1)"
proof (intro conjI impI)
  assume "s \<le> s'"
  then have "trunc_to_zero (rnd (s * 1000000)) \<le> trunc_to_zero (rnd (s' * 1000000))"
    by (intro trunc_to_zero_mono mono) simp
  then show "\<not> Timestamp_lt (addTime rnd t s') (addTime rnd t s)"
    by (simp add: Timestamp_lt_def addTime_def Timestamp_of_def kMicroSecondsPerSecond_def)
next
  assume "0 \<le> s"
  then have "trunc_to_zero (rnd 0) \<le> trunc_to_zero (rnd (s * 1000000))"
    by (intro trunc_to_zero_mono mono) simp
  then show "\<not> Timestamp_lt (addTime rnd t s) t"
    by (simp add: Timestamp_lt_def addTime_def Timestamp_of_def kMicroSecondsPerSecond_def zero
        trunc_to_zero_def [of 0])
next
  assume "rnd (s * 1000000) = s * 1000000"
  then show "\<bar>real_of_int (microSecondsSinceEpoch (addTime rnd t s))
      - (real_of_int (microSecondsSinceEpoch t) + s * 1000000)\<bar> < 1"
    using trunc_to_zero_error [of "s * 1000000"]
    by (simp add: addTime_def Timestamp_of_def kMicroSecondsPerSecond_def)
qed

theorem addTime_monotone_witness:
  "\<not> Timestamp_lt (addTime (\<lambda>x. x) (Timestamp_of 5) (3 / 2)) (addTime (\<lambda>x. x) (Timestamp_of 5) (1 / 2))
   \<and> microSecondsSinceEpoch (addTime (\<lambda>x. x) (Timestamp_of 5) (1 / 2)) = 500005"
  using addTime_monotone [of "\<lambda>x. x" "1 / 2" "3 / 2" "Timestamp_of 5"]
  by (simp add: addTime_def Timestamp_of_def kMicroSecondsPerSecond_def trunc_to_zero_def)

section \<open>The text form\<close>

lemma dec_nat_no_dot: "CHR ''.'' \<notin> set (dec_nat n)"
  using dec_nat_digits [of "CHR ''.''" n] by (auto simp: is_digit_def)

lemma takeWhile_before: "c \<notin> set xs \<Longrightarrow> takeWhile (\<lambda>x. x \<noteq> c) (xs @ c # ys) = xs"
  by (subst takeWhile_append2) auto

lemma dropWhile_before: "c \<notin> set xs \<Longrightarrow> dropWhile (\<lambda>x. x \<noteq> c) (xs @ c # ys) = c # ys"
  by (subst dropWhile_append2) auto

lemma read_nat_zeros: "read_nat (replicate k CHR ''0'' @ s) = read_nat s"
  by (induction k) (simp_all add: read_nat_def digit_val_def)

lemma read_fmt_0d: "0 \<le> v \<Longrightarrow> read_nat (fmt_0d w v) = nat v"
  by (simp add: fmt_0d_def pad_left_def read_nat_zeros read_dec_nat)

text \<open>The seconds and microseconds that a printed time shows.\<close>

definition read_timestamp :: "string \<Rightarrow> int" where
  "read_timestamp s =
     int (read_nat (takeWhile (\<lambda>c. c \<noteq> CHR ''.'') s)) * 1000000
     + int (read_nat (tl (dropWhile (\<lambda>c. c \<noteq> CHR ''.'') s)))"

text \<open>
  \<^verbatim>\<open>Timestamp::toString\<close> of any time from the epoch on fits its buffer and shows the whole
  time: the seconds before the point, and six digits of microseconds after it.
\<close>

theorem Timestamp_toString_roundtrip:
  assumes "0 \<le> microSecondsSinceEpoch t" "microSecondsSinceEpoch t < 2 ^ 63"
  shows "read_timestamp (Timestamp_toString t) = microSecondsSinceEpoch t
    \<and> length (tl (dropWhile (\<lambda>c. c \<noteq> CHR ''.'') (Timestamp_toString t))) = 6"
proof -
  define us where "us = microSecondsSinceEpoch t"
  let ?s = "us div 1000000" and ?u = "us mod 1000000"
  have us: "0 \<le> us" "us < 2 ^ 63" using assms by (simp_all add: us_def)
  have s: "0 \<le> ?s" "?s < 10 ^ 13" using us by simp_all
  then have "nat ?s < 10 ^ 13" by (simp add: nat_less_iff)
  then have ls: "length (dec_int ?s) \<le> 13"
    using length_dec_nat [of "nat ?s" 13] s by (simp add: dec_int_def)
  have lu: "length (fmt_0d 6 ?u) = 6"
    by (rule length_fmt_0d) simp_all
  have str: "Timestamp_toString t = dec_nat (nat ?s) @ CHR ''.'' # fmt_0d 6 ?u"
    using us ls lu s unfolding Timestamp_toString_def us_def [symmetric] kMicroSecondsPerSecond_def
    by (simp add: trunc_simps snprintf_buf_def dec_int_def)
  show ?thesis
    using us s lu unfolding us_def [symmetric] str read_timestamp_def
      takeWhile_before [OF dec_nat_no_dot] dropWhile_before [OF dec_nat_no_dot]
    by (simp add: read_dec_nat read_fmt_0d)
qed

theorem Timestamp_toString_roundtrip_witness:
  "read_timestamp (Timestamp_toString (Timestamp_of 1000042)) = 1000042"
  using Timestamp_toString_roundtrip [of "Timestamp_of 1000042"] by (simp add: Timestamp_of_def)

end
