(* ===== verification/Time_Zone.thy ===== *)
theory Time_Zone
  imports Time_Stamp Endian_Order
begin

text \<open>
  \<^verbatim>\<open>src/src/utils/TimeZone.h\<close> and \<^verbatim>\<open>TimeZone.cpp\<close>: broken-down UTC time, zone data and the
  reader of zone files.  The C library's \<^verbatim>\<open>gmtime_r\<close> and \<^verbatim>\<open>timegm\<close> are parameters.
\<close>

section \<open>Zone data\<close>

record Transition =
  gmttime :: int
  localtime :: int
  localtimeIdx :: nat

record Localtime =
  gmtOffset :: int
  isDst :: bool
  arrbIdx :: nat

record TZData =
  transitions :: "Transition list"
  localtimes :: "Localtime list"
  tz_names :: "string list"
  tz_abbreviation :: string

definition empty_data :: TZData where
  "empty_data = \<lparr>transitions = [], localtimes = [], tz_names = [], tz_abbreviation = []\<rparr>"

text \<open>\<^verbatim>\<open>Comp\<close>: the flag selects the field that is compared.\<close>

definition Comp_less :: "bool \<Rightarrow> Transition \<Rightarrow> Transition \<Rightarrow> bool" where
  "Comp_less compareGmt lhs rhs \<longleftrightarrow>
     (if compareGmt then gmttime lhs < gmttime rhs else localtime lhs < localtime rhs)"

definition Comp_equal :: "bool \<Rightarrow> Transition \<Rightarrow> Transition \<Rightarrow> bool" where
  "Comp_equal compareGmt lhs rhs \<longleftrightarrow>
     (if compareGmt then gmttime lhs = gmttime rhs else localtime lhs = localtime rhs)"

definition kSecondsPerDay :: int where
  "kSecondsPerDay = 24 * 60 * 60"

definition fillHMS :: "int \<Rightarrow> tm \<Rightarrow> tm" where
  "fillHMS seconds utc =
     (let minutes = seconds div 60
      in utc\<lparr>tm_sec := seconds mod 60, tm_min := minutes mod 60, tm_hour := minutes div 60\<rparr>)"

definition zero_tm :: tm where
  "zero_tm = \<lparr>tm_sec = 0, tm_min = 0, tm_hour = 0, tm_mday = 0, tm_mon = 0, tm_year = 0,
     tm_wday = 0, tm_yday = 0, tm_isdst = 0, tm_gmtoff = 0, tm_zone = []\<rparr>"

section \<open>Reading a zone file\<close>

text \<open>
  An open file is the bytes that are still to be read.  A read returns its result and the rest,
  or throws \<^verbatim>\<open>logic_error\<close>; a variable-length array of a negative size is a fault.
\<close>

definition readBytes :: "int \<Rightarrow> byte list \<Rightarrow> (byte list \<times> byte list) outcome" where
  "readBytes n f =
     (if n < 0 then Inl Out_Of_Range
      else if length f < nat n then Inl (Logic_Error ''no enough data'')
      else Inr (take (nat n) f, drop (nat n) f))"

definition tz_readInt32 :: "host_order \<Rightarrow> byte list \<Rightarrow> (32 word \<times> byte list) outcome" where
  "tz_readInt32 h f =
     (if length f < 4 then Inl (Logic_Error ''bad int32_t data'')
      else Inr (word_of_nat (htobe h 4 (object_value h (take 4 f))), drop 4 f))"

definition readUInt8 :: "byte list \<Rightarrow> (byte \<times> byte list) outcome" where
  "readUInt8 f =
     (case f of [] \<Rightarrow> Inl (Logic_Error ''bad uint8_t data'') | x # xs \<Rightarrow> Inr (x, xs))"

fun read_times :: "nat \<Rightarrow> (byte list \<Rightarrow> ('a \<times> byte list) outcome) \<Rightarrow> byte list
    \<Rightarrow> ('a list \<times> byte list) outcome" where
  "read_times 0 rd f = Inr ([], f)"
| "read_times (Suc n) rd f =
     seq (rd f) (\<lambda>(x, f). seq (read_times n rd f) (\<lambda>(xs, f). Inr (x # xs, f)))"

definition read_localtime :: "host_order \<Rightarrow> byte list \<Rightarrow> (Localtime \<times> byte list) outcome" where
  "read_localtime h f =
     seq (tz_readInt32 h f) (\<lambda>(gmtoff, f).
     seq (readUInt8 f) (\<lambda>(isdst, f).
     seq (readUInt8 f) (\<lambda>(abbrind, f).
       Inr (\<lparr>gmtOffset = sint gmtoff, isDst = isdst \<noteq> 0, arrbIdx = unat abbrind\<rparr>, f))))"

definition make_transition :: "Localtime list \<Rightarrow> 32 word \<Rightarrow> byte \<Rightarrow> Transition outcome" where
  "make_transition ls t idx =
     (if unat idx < length ls
      then Inr \<lparr>gmttime = sint t, localtime = sint t + gmtOffset (ls ! unat idx),
                localtimeIdx = unat idx\<rparr>
      else Inl Out_Of_Range)"

fun make_transitions :: "Localtime list \<Rightarrow> 32 word list \<Rightarrow> byte list \<Rightarrow> Transition list outcome" where
  "make_transitions ls (t # ts) (i # idxs) =
     seq (make_transition ls t i) (\<lambda>x. seq (make_transitions ls ts idxs) (\<lambda>xs. Inr (x # xs)))"
| "make_transitions ls _ _ = Inr []"

text \<open>
  The loop over the local time types appends each to \<^verbatim>\<open>data->localtimes\<close>, so the ones read before
  an exception stay there.
\<close>

fun read_localtimes :: "host_order \<Rightarrow> nat \<Rightarrow> byte list \<Rightarrow> TZData \<Rightarrow> TZData \<times> byte list outcome" where
  "read_localtimes h 0 f data = (data, Inr f)"
| "read_localtimes h (Suc n) f data =
     (case read_localtime h f of
        Inl e \<Rightarrow> (data, Inl e)
      | Inr (l, f) \<Rightarrow> read_localtimes h n f (data\<lparr>localtimes := localtimes data @ [l]\<rparr>))"

text \<open>
  What follows the test of the magic number: the counts, the tables and the abbreviations.  A
  negative \<^verbatim>\<open>timecnt\<close> makes \<^verbatim>\<open>reserve\<close> throw, the other loops run zero times for a negative
  count; the loop over the leap seconds has an empty body.
\<close>

definition read_counts :: "host_order \<Rightarrow> byte list
    \<Rightarrow> (32 word \<times> 32 word \<times> 32 word list \<times> byte list \<times> byte list) outcome" where
  "read_counts h f =
     seq (readBytes 1 f) (\<lambda>(version, f).
     seq (readBytes 15 f) (\<lambda>(_, f).
     seq (tz_readInt32 h f) (\<lambda>(isgmtcnt, f).
     seq (tz_readInt32 h f) (\<lambda>(isstdcnt, f).
     seq (tz_readInt32 h f) (\<lambda>(leapcnt, f).
     seq (tz_readInt32 h f) (\<lambda>(timecnt, f).
     seq (tz_readInt32 h f) (\<lambda>(typecnt, f).
     seq (tz_readInt32 h f) (\<lambda>(charcnt, f).
     if sint timecnt < 0 then Inl (Logic_Error ''vector::reserve'') else
     seq (read_times (nat (sint timecnt)) (tz_readInt32 h) f) (\<lambda>(gmts, f).
     seq (read_times (nat (sint timecnt)) readUInt8 f) (\<lambda>(idxs, f).
       Inr (typecnt, charcnt, gmts, idxs, f)))))))))))"

definition read_tables :: "host_order \<Rightarrow> byte list \<Rightarrow> TZData \<Rightarrow> TZData \<times> unit outcome" where
  "read_tables h f data =
     (case read_counts h f of
        Inl e \<Rightarrow> (data, Inl e)
      | Inr (typecnt, charcnt, gmts, idxs, f) \<Rightarrow>
     (case read_localtimes h (nat (sint typecnt)) f data of
        (data, Inl e) \<Rightarrow> (data, Inl e)
      | (data, Inr f) \<Rightarrow>
     (case make_transitions (localtimes data) gmts idxs of
        Inl e \<Rightarrow> (data, Inl e)
      | Inr ts \<Rightarrow>
     (let data = data\<lparr>transitions := transitions data @ ts\<rparr> in
      case readBytes (sint charcnt) f of
        Inl e \<Rightarrow> (data, Inl e)
      | Inr (abbr, f) \<Rightarrow> (data\<lparr>tz_abbreviation := map (char_of \<circ> unat) abbr\<rparr>, Inr ())))))"

text \<open>
  The body of the \<^verbatim>\<open>try\<close>.  A stray semicolon ends the \<^verbatim>\<open>if\<close> that tests the magic number, so the
  block that throws runs whatever the test says.
\<close>

definition tz_magic :: "byte list" where
  "tz_magic = map (word_of_nat \<circ> of_char) ''TZif''"

definition read_zone :: "host_order \<Rightarrow> byte list \<Rightarrow> TZData \<Rightarrow> TZData \<times> unit outcome" where
  "read_zone h f data =
     (case readBytes 4 f of
        Inl e \<Rightarrow> (data, Inl e)
      | Inr (head, f) \<Rightarrow>
          let skip = (if head \<noteq> tz_magic then () else ());
              block = (Inl (Logic_Error ''bad head'') :: unit outcome)
          in (case block of Inl e \<Rightarrow> (data, Inl e) | Inr _ \<Rightarrow> read_tables h f data))"

text \<open>\<^verbatim>\<open>logic_error\<close> is caught and printed; the function returns true in every case.\<close>

definition readTimeZoneFile :: "host_order \<Rightarrow> byte list option \<Rightarrow> TZData \<Rightarrow> (bool \<times> TZData) outcome" where
  "readTimeZoneFile h zonefile data =
     (case zonefile of
        None \<Rightarrow> Inr (True, data)
      | Some f \<Rightarrow>
          (case read_zone h f data of
             (data, Inr _) \<Rightarrow> Inr (True, data)
           | (data, Inl (Logic_Error _)) \<Rightarrow> Inr (True, data)
           | (data, Inl e) \<Rightarrow> Inl e))"

section \<open>Looking up the local time type\<close>

text \<open>\<^verbatim>\<open>std::lower_bound\<close> by its loop of halvings over a range of \<open>len\<close> elements from \<open>first\<close>.\<close>

function lower_bound_loop :: "('a \<Rightarrow> bool) \<Rightarrow> 'a list \<Rightarrow> nat \<Rightarrow> nat \<Rightarrow> nat" where
  "lower_bound_loop before xs first len =
     (if len = 0 then first
      else let half = len div 2; middle = first + half
           in if before (xs ! middle) then lower_bound_loop before xs (middle + 1) (len - half - 1)
              else lower_bound_loop before xs first half)"
  by pat_completeness auto
termination
  by (relation "measure (\<lambda>(before, xs, first, len). len)") auto

declare lower_bound_loop.simps [simp del]

definition findLocaltime :: "TZData \<Rightarrow> Transition \<Rightarrow> bool \<Rightarrow> Localtime outcome" where
  "findLocaltime data sentry gmt =
     (let ts = transitions data; ls = localtimes data;
          type_at = (\<lambda>i. if i < length ls then Inr (ls ! i) else Inl Out_Of_Range)
      in if ts = [] \<or> Comp_less gmt sentry (hd ts) then type_at 0
         else let transI = lower_bound_loop (\<lambda>t. Comp_less gmt t sentry) ts 0 (length ts)
              in if transI \<noteq> length ts then
                   if \<not> Comp_equal gmt sentry (ts ! transI)
                   then cassert (transI \<noteq> 0) (type_at (localtimeIdx (ts ! (transI - 1))))
                   else type_at (localtimeIdx (ts ! transI))
                 else type_at (localtimeIdx (last ts)))"

section \<open>The class TimeZone\<close>

text \<open>The shared pointer to the data is null only when reading failed.\<close>

definition TimeZone_new :: "host_order \<Rightarrow> byte list option \<Rightarrow> TZData option outcome" where
  "TimeZone_new h zonefile =
     seq (readTimeZoneFile h zonefile empty_data) (\<lambda>(ok, data). Inr (if \<not> ok then None else Some data))"

definition TimeZone_valid :: "TZData option \<Rightarrow> bool" where
  "TimeZone_valid tz \<longleftrightarrow> tz \<noteq> None"

definition toLocalTime :: "(int \<Rightarrow> tm) \<Rightarrow> TZData option \<Rightarrow> int \<Rightarrow> tm outcome" where
  "toLocalTime gmtime_r tz seconds =
     (case tz of
        None \<Rightarrow> Inl Assertion_Failed
      | Some data \<Rightarrow>
          seq (findLocaltime data \<lparr>gmttime = seconds, localtime = 0, localtimeIdx = 0\<rparr> True) (\<lambda>local.
            let localSeconds = seconds + gmtOffset local;
                localTime = gmtime_r localSeconds
            in if arrbIdx local \<le> length (tz_abbreviation data)
               then Inr (localTime\<lparr>tm_isdst := (if isDst local then 1 else 0),
                                   tm_gmtoff := gmtOffset local,
                                   tm_zone := takeWhile (\<lambda>c. c \<noteq> CHR 0x00)
                                     (drop (arrbIdx local) (tz_abbreviation data))\<rparr>)
               else Inl Out_Of_Range))"

definition fromLocalTime :: "(int \<Rightarrow> tm) \<Rightarrow> (tm \<Rightarrow> int) \<Rightarrow> TZData option \<Rightarrow> tm \<Rightarrow> int outcome" where
  "fromLocalTime gmtime_r timegm tz localTm =
     (case tz of
        None \<Rightarrow> Inl Assertion_Failed
      | Some data \<Rightarrow>
          (let seconds = timegm localTm in
           seq (findLocaltime data \<lparr>gmttime = 0, localtime = seconds, localtimeIdx = 0\<rparr> False) (\<lambda>local.
             if tm_isdst localTm \<noteq> 0 then
               seq (toLocalTime gmtime_r tz (seconds - gmtOffset local)) (\<lambda>tryTm.
                 let seconds =
                   (if tm_isdst tryTm = 0 \<and> tm_hour tryTm = tm_hour localTm
                       \<and> tm_min tryTm = tm_min localTm
                    then seconds - 3600 else seconds)
                 in Inr (seconds - gmtOffset local))
             else Inr (seconds - gmtOffset local))))"

definition toUtcTime :: "int \<Rightarrow> bool \<Rightarrow> tm" where
  "toUtcTime secs yday =
     (let utc = zero_tm\<lparr>tm_zone := ''GMT''\<rparr>;
          seconds = int32 (secs smod kSecondsPerDay);
          days = int32 (secs sdiv kSecondsPerDay);
          (seconds, days) = (if seconds < 0 then (seconds + kSecondsPerDay, days - 1)
                             else (seconds, days));
          utc = fillHMS (uint32 seconds) utc;
          date = Date_jdn (days + kJulianDayOf1970_01_01);
          ymd = yearMonthDay date;
          utc = utc\<lparr>tm_year := ymd_year ymd - 1900, tm_mon := ymd_month ymd - 1,
                    tm_mday := ymd_day ymd, tm_wday := weekDay date\<rparr>
      in if yday
         then let startOfYear = Date_ymd (ymd_year ymd) 1 1
              in utc\<lparr>tm_yday := julianDayNumber date - julianDayNumber startOfYear\<rparr>
         else utc)"

definition fromUtcTime_fields :: "int \<Rightarrow> int \<Rightarrow> int \<Rightarrow> int \<Rightarrow> int \<Rightarrow> int \<Rightarrow> int" where
  "fromUtcTime_fields year month day hour minute seconds =
     (let date = Date_ymd year month day;
          secondsInDay = hour * 3600 + minute * 60 + seconds;
          days = julianDayNumber date - kJulianDayOf1970_01_01
      in days * kSecondsPerDay + secondsInDay)"

definition fromUtcTime :: "tm \<Rightarrow> int" where
  "fromUtcTime utc =
     fromUtcTime_fields (tm_year utc + 1900) (tm_mon utc + 1) (tm_mday utc)
       (tm_hour utc) (tm_min utc) (tm_sec utc)"

section \<open>UTC time\<close>

text \<open>
  The seconds for which the calendar arithmetic stays in the range of \<^verbatim>\<open>int\<close> and its dividends
  are not negative: from 1 March -4800 to beyond the year 1,400,000.
\<close>

definition utc_range :: "int \<Rightarrow> bool" where
  "utc_range secs \<longleftrightarrow> -2472632 * 86400 \<le> secs \<and> secs < 530000000 * 86400"

lemma epoch_jdn: "kJulianDayOf1970_01_01 = 2440588"
  by code_simp

text \<open>The truncated quotient and remainder, corrected, are the floored ones.\<close>

lemma floored_day:
  assumes "utc_range secs"
  shows "(if int32 (secs smod 86400) < 0
          then (int32 (secs smod 86400) + 86400, int32 (secs sdiv 86400) - 1)
          else (int32 (secs smod 86400), int32 (secs sdiv 86400)))
         = (secs mod 86400, secs div 86400)"
proof (cases "0 \<le> secs")
  case True
  have "secs div 86400 < 530000000" "0 \<le> secs div 86400" "0 \<le> secs mod 86400"
      "secs mod 86400 < 86400"
    using assms True by (auto simp: utc_range_def)
  then show ?thesis
    using True by (simp add: trunc_simps int32_small)
next
  case False
  define q r where "q = (- secs) div 86400" and "r = (- secs) mod 86400"
  have neg: "- secs = 86400 * q + r" "0 \<le> r" "r < 86400" "0 \<le> q" "q \<le> 2472632"
    using False assms unfolding q_def r_def utc_range_def by auto
  have t: "secs smod 86400 = - r" "secs sdiv 86400 = - q"
    using False by (simp_all add: smod_neg sdiv_neg q_def r_def)
  have "int32 (- r) = - r" "int32 (- q) = - q"
    using neg by (simp_all add: int32_small)
  moreover have "secs div 86400 = (if r = 0 then - q else - q - 1)"
    by (rule div_bounds_eq) (use neg in \<open>auto split: if_splits\<close>)
  ultimately show ?thesis
    using neg unfolding t by (auto simp: minus_div_mult_eq_mod [symmetric])
qed

lemma toUtcTime_eq:
  assumes "utc_range secs"
  defines "date \<equiv> Date_jdn (secs div 86400 + 2440588)"
  shows "toUtcTime secs yday =
    (fillHMS (secs mod 86400) (zero_tm\<lparr>tm_zone := ''GMT''\<rparr>))
      \<lparr>tm_year := Date_year date - 1900, tm_mon := Date_month date - 1, tm_mday := Date_day date,
       tm_wday := weekDay date,
       tm_yday := (if yday then julianDayNumber date - julianDayNumber (Date_ymd (Date_year date) 1 1)
                   else 0)\<rparr>"
proof -
  have d: "kSecondsPerDay = 86400" by (simp add: kSecondsPerDay_def)
  have u: "uint32 (secs mod 86400) = secs mod 86400"
    by (rule uint32_small) (simp_all add: pos_mod_bound [THEN less_trans])
  show ?thesis
    unfolding toUtcTime_def Let_def d floored_day [OF assms(1)] epoch_jdn prod.case u date_def
      Date_year_def Date_month_def Date_day_def
    by (cases yday) (simp_all add: fillHMS_def Let_def zero_tm_def)
qed
lemma hms_sum: "s div 3600 * 3600 + (s div 60 mod 60) * 60 + s mod 60 = (s :: int)"
proof -
  have "s div 60 div 60 = s div 3600"
    by (simp add: zdiv_zmult2_eq [symmetric])
  then have "s div 60 = 60 * (s div 3600) + s div 60 mod 60"
    using mult_div_mod_eq [of 60 "s div 60"] by simp
  moreover have "s = 60 * (s div 60) + s mod 60"
    by simp
  ultimately show ?thesis by linarith
qed

text \<open>
  C21: For every number of seconds in the range of the calendar arithmetic, before the epoch as
  well as after it, \<^verbatim>\<open>toUtcTime\<close> yields a time of day and a Gregorian date with all fields in range,
  and \<^verbatim>\<open>fromUtcTime\<close> gives the number back.
\<close>

theorem utc_roundtrip:
  fixes secs :: int and yday :: bool
  assumes r: "utc_range secs"
  defines "utc \<equiv> toUtcTime secs yday"
  shows "fromUtcTime utc = secs
    \<and> tm_sec utc \<in> {0..59} \<and> tm_min utc \<in> {0..59} \<and> tm_hour utc \<in> {0..23}
    \<and> gregorian_date (tm_year utc + 1900) (tm_mon utc + 1) (tm_mday utc)"
proof -
  define jdn s where "jdn = secs div 86400 + 2440588" and "s = secs mod 86400"
  have jdn: "-32044 \<le> jdn" "jdn \<le> last_jdn"
    using r unfolding jdn_def utc_range_def last_jdn_def by linarith+
  have s: "0 \<le> s" "s < 86400" by (simp_all add: s_def)
  have secs: "secs = (jdn - 2440588) * 86400 + s"
    unfolding jdn_def s_def by simp
  have hour: "s div 60 div 60 = s div 3600"
    by (simp add: zdiv_zmult2_eq [symmetric])
  have hms: "tm_hour utc = s div 3600 \<and> tm_min utc = s div 60 mod 60 \<and> tm_sec utc = s mod 60"
    unfolding utc_def toUtcTime_eq [OF r] s_def [symmetric]
    by (simp add: fillHMS_def Let_def hour)
  have ymd: "tm_year utc = ymd_year (getYearMonthDay jdn) - 1900
      \<and> tm_mon utc = ymd_month (getYearMonthDay jdn) - 1 \<and> tm_mday utc = ymd_day (getYearMonthDay jdn)"
    unfolding utc_def toUtcTime_eq [OF r] jdn_def [symmetric]
    by (simp add: Date_year_def Date_month_def Date_day_def yearMonthDay_def Date_jdn_def)
  have "fromUtcTime utc = (jdn - 2440588) * 86400
      + (s div 3600 * 3600 + (s div 60 mod 60) * 60 + s mod 60)"
    using hms ymd getYearMonthDay_valid(2) [OF jdn]
    by (simp add: fromUtcTime_def fromUtcTime_fields_def epoch_jdn Date_ymd_def kSecondsPerDay_def)
  then have "fromUtcTime utc = secs"
    unfolding hms_sum secs [symmetric] .
  moreover have "tm_hour utc \<in> {0..23}" "tm_min utc \<in> {0..59}" "tm_sec utc \<in> {0..59}"
    using hms s by auto
  ultimately show ?thesis
    using ymd getYearMonthDay_valid(1) [OF jdn] by simp
qed

theorem utc_roundtrip_witness:
  "fromUtcTime (toUtcTime (-1) True) = -1 \<and> toUtcTime (-1) True
     = \<lparr>tm_sec = 59, tm_min = 59, tm_hour = 23, tm_mday = 31, tm_mon = 11, tm_year = 69,
        tm_wday = 3, tm_yday = 364, tm_isdst = 0, tm_gmtoff = 0, tm_zone = ''GMT''\<rparr>"
proof -
  have r: "utc_range (-1)" by (simp add: utc_range_def)
  have "toUtcTime (-1) True
     = \<lparr>tm_sec = 59, tm_min = 59, tm_hour = 23, tm_mday = 31, tm_mon = 11, tm_year = 69,
        tm_wday = 3, tm_yday = 364, tm_isdst = 0, tm_gmtoff = 0, tm_zone = ''GMT''\<rparr>"
    unfolding toUtcTime_eq [OF r] by code_simp
  then show ?thesis using utc_roundtrip [OF r, of True] by simp
qed

section \<open>Zone lookup\<close>

lemma lower_bound_loop_spec:
  assumes part: "\<And>i j. i \<le> j \<Longrightarrow> j < length xs \<Longrightarrow> before (xs ! j) \<Longrightarrow> before (xs ! i)"
    and "first + len \<le> length xs"
    and "\<And>i. i < first \<Longrightarrow> before (xs ! i)"
    and "\<And>i. first + len \<le> i \<Longrightarrow> i < length xs \<Longrightarrow> \<not> before (xs ! i)"
  defines "r \<equiv> lower_bound_loop before xs first len"
  shows "r \<le> length xs \<and> (\<forall>i<r. before (xs ! i)) \<and> (\<forall>i. r \<le> i \<and> i < length xs \<longrightarrow> \<not> before (xs ! i))"
  using assms(2,3,4) unfolding r_def
proof (induction len arbitrary: first rule: less_induct)
  case (less len)
  let ?half = "len div 2" and ?mid = "first + len div 2"
  show ?case
  proof (cases "len = 0")
    case True
    then show ?thesis
      using less.prems by (simp add: lower_bound_loop.simps)
  next
    case len: False
    then have mid: "?mid < length xs" "?half < len"
      using less.prems(1) by simp_all
    have rest: "len - ?half - 1 < len" "?mid + 1 + (len - ?half - 1) \<le> length xs"
        "?mid + 1 + (len - ?half - 1) = first + len"
      using less.prems(1) mid(2) by linarith+
    show ?thesis
    proof (cases "before (xs ! ?mid)")
      case True
      have lower: "before (xs ! i)" if "i < ?mid + 1" for i
        using part [of i ?mid] True mid that by simp
      have step: "lower_bound_loop before xs first len
          = lower_bound_loop before xs (?mid + 1) (len - ?half - 1)"
        using True len by (subst lower_bound_loop.simps) (simp add: Let_def)
      show ?thesis
        unfolding step using less.prems(3) by (intro less.IH rest(1,2) lower) (simp_all add: rest(3))
    next
      case False
      have upper: "\<not> before (xs ! i)" if "?mid \<le> i" "i < length xs" for i
        using part [of ?mid i] False that by blast
      have step: "lower_bound_loop before xs first len = lower_bound_loop before xs first ?half"
        using False len by (subst lower_bound_loop.simps) (simp add: Let_def)
      show ?thesis
        unfolding step using mid less.prems(2) by (intro less.IH upper) simp_all
    qed
  qed
qed

text \<open>The key that \<^verbatim>\<open>Comp\<close> compares, and the type that is in force at a time.\<close>

definition comp_key :: "bool \<Rightarrow> Transition \<Rightarrow> int" where
  "comp_key gmt t = (if gmt then gmttime t else localtime t)"

definition type_in_force :: "bool \<Rightarrow> TZData \<Rightarrow> int \<Rightarrow> nat" where
  "type_in_force gmt data k =
     (case filter (\<lambda>t. comp_key gmt t \<le> k) (transitions data) of
        [] \<Rightarrow> 0 | ts \<Rightarrow> localtimeIdx (last ts))"

definition zone_ok :: "bool \<Rightarrow> TZData \<Rightarrow> bool" where
  "zone_ok gmt data \<longleftrightarrow>
     sorted_wrt (\<lambda>s t. comp_key gmt s < comp_key gmt t) (transitions data)
     \<and> localtimes data \<noteq> []
     \<and> list_all (\<lambda>t. localtimeIdx t < length (localtimes data)) (transitions data)"

lemma Comp_key: "Comp_less gmt s t \<longleftrightarrow> comp_key gmt s < comp_key gmt t"
  "Comp_equal gmt s t \<longleftrightarrow> comp_key gmt s = comp_key gmt t"
  by (simp_all add: Comp_less_def Comp_equal_def comp_key_def)

lemma filter_prefix:
  assumes "n \<le> length xs" "\<And>i. i < n \<Longrightarrow> P (xs ! i)" "\<And>i. n \<le> i \<Longrightarrow> i < length xs \<Longrightarrow> \<not> P (xs ! i)"
  shows "filter P xs = take n xs"
proof -
  have "filter P (take n xs) = take n xs"
    using assms(1,2) by (auto simp: filter_id_conv in_set_conv_nth)
  moreover have "filter P (drop n xs) = []"
    using assms(1,3) by (auto simp: filter_empty_conv in_set_conv_nth)
  ultimately show ?thesis
    by (metis append_Nil2 append_take_drop_id filter_append)
qed

lemma last_take: "0 < n \<Longrightarrow> n \<le> length xs \<Longrightarrow> last (take n xs) = xs ! (n - 1)"
  by (subst last_conv_nth) (auto simp: min_def)

lemma type_in_force_prefix:
  assumes "n \<le> length (transitions data)"
    "\<And>i. i < n \<Longrightarrow> comp_key gmt (transitions data ! i) \<le> k"
    "\<And>i. n \<le> i \<Longrightarrow> i < length (transitions data) \<Longrightarrow> k < comp_key gmt (transitions data ! i)"
  shows "type_in_force gmt data k = (if n = 0 then 0 else localtimeIdx (transitions data ! (n - 1)))"
proof -
  have "filter (\<lambda>t. comp_key gmt t \<le> k) (transitions data) = take n (transitions data)"
    using assms by (intro filter_prefix) (simp_all add: not_le)
  then have "type_in_force gmt data k
      = (if n = 0 \<or> transitions data = [] then 0 else localtimeIdx (last (take n (transitions data))))"
    unfolding type_in_force_def by (cases "take n (transitions data)") auto
  then show ?thesis
    using assms(1) by (auto simp: last_take)
qed

text \<open>
  C22: In zone data whose transitions are sorted and whose indices are in range,
  \<^verbatim>\<open>findLocaltime\<close> returns, by its binary search, the local time type of the last transition that
  is not later than the time asked for, and the first type for a time before all of them.
  It fails no assertion and reads no element out of range.
\<close>

theorem findLocaltime_in_force:
  assumes ok: "zone_ok gmt data"
  shows "findLocaltime data sentry gmt
         = Inr (localtimes data ! type_in_force gmt data (comp_key gmt sentry))"
proof -
  let ?ts = "transitions data" and ?key = "comp_key gmt" and ?k = "comp_key gmt sentry"
  have less: "?key (?ts ! i) < ?key (?ts ! j)" if "i < j" "j < length ?ts" for i j
    using ok that by (auto simp: zone_ok_def sorted_wrt_iff_nth_less)
  have idx: "localtimeIdx (?ts ! i) < length (localtimes data)" if "i < length ?ts" for i
    using ok that by (auto simp: zone_ok_def list_all_length)
  have ne: "0 < length (localtimes data)"
    using ok by (auto simp: zone_ok_def)
  define r where "r = lower_bound_loop (\<lambda>t. Comp_less gmt t sentry) ?ts 0 (length ?ts)"
  have spec: "r \<le> length ?ts \<and> (\<forall>i<r. Comp_less gmt (?ts ! i) sentry)
      \<and> (\<forall>i. r \<le> i \<and> i < length ?ts \<longrightarrow> \<not> Comp_less gmt (?ts ! i) sentry)"
    unfolding r_def
  proof (rule lower_bound_loop_spec)
    fix i j
    assume "i \<le> j" "j < length ?ts" "Comp_less gmt (?ts ! j) sentry"
    then show "Comp_less gmt (?ts ! i) sentry"
      using less [of i j] by (cases "i = j") (auto simp: Comp_key)
  qed simp_all
  then have r: "r \<le> length ?ts" "\<And>i. i < r \<Longrightarrow> ?key (?ts ! i) < ?k"
      "\<And>i. r \<le> i \<Longrightarrow> i < length ?ts \<Longrightarrow> ?k \<le> ?key (?ts ! i)"
    by (simp_all add: Comp_key not_less)
  let ?at = "\<lambda>i. if i < length (localtimes data) then Inr (localtimes data ! i) else Inl Out_Of_Range"
  have find: "findLocaltime data sentry gmt =
      (if ?ts = [] \<or> ?k < ?key (hd ?ts) then ?at 0
       else if r \<noteq> length ?ts then
         if ?k \<noteq> ?key (?ts ! r) then cassert (r \<noteq> 0) (?at (localtimeIdx (?ts ! (r - 1))))
         else ?at (localtimeIdx (?ts ! r))
       else ?at (localtimeIdx (last ?ts)))"
    unfolding findLocaltime_def Let_def r_def Comp_key ..
  consider (before) "?ts = [] \<or> ?k < ?key (hd ?ts)"
    | (after) "?ts \<noteq> []" "?key (hd ?ts) \<le> ?k" "r = length ?ts"
    | (between) "?ts \<noteq> []" "?key (hd ?ts) \<le> ?k" "r < length ?ts" "?k < ?key (?ts ! r)"
    | (exact) "?ts \<noteq> []" "?key (hd ?ts) \<le> ?k" "r < length ?ts" "?k = ?key (?ts ! r)"
    using r(1) r(3) [of r] by linarith
  then show ?thesis
  proof cases
    case before
    have "?k < ?key (?ts ! i)" if "i < length ?ts" for i
    proof -
      have "?ts \<noteq> []" using that by auto
      then have "?k < ?key (?ts ! 0)" using before by (simp add: hd_conv_nth)
      then show ?thesis using less [of 0 i] that by (cases "i = 0") auto
    qed
    then show ?thesis
      using type_in_force_prefix [of 0 data gmt ?k] before ne
      unfolding find by simp
  next
    case after
    then show ?thesis
      using type_in_force_prefix [of r data gmt ?k] r idx [of "r - 1"]
      unfolding find by (simp add: last_conv_nth not_less less_imp_le)
  next
    case between
    have "0 < r"
      using between by (cases r) (auto simp: hd_conv_nth)
    moreover have "?k < ?key (?ts ! i)" if "r \<le> i" "i < length ?ts" for i
      using between less [of r i] that by (cases "i = r") auto
    moreover have neq: "?k \<noteq> ?key (?ts ! r)" and "r - 1 < length ?ts"
      using between by auto
    ultimately show ?thesis
      using type_in_force_prefix [of r data gmt ?k] r between(1-3) idx [of "r - 1"]
      unfolding find by (simp add: neq not_less less_imp_le)
  next
    case exact
    have "?k < ?key (?ts ! i)" if "Suc r \<le> i" "i < length ?ts" for i
      using exact less [of r i] that by simp
    moreover have "?key (?ts ! i) \<le> ?k" if "i < Suc r" for i
      using exact r(2) that by (cases "i = r") (auto simp: less_imp_le)
    ultimately show ?thesis
      using type_in_force_prefix [of "Suc r" data gmt ?k] exact idx [of r]
      unfolding find by (simp add: not_less)
  qed
qed

text \<open>A zone with a summer time, for the witness.\<close>

definition summer_zone :: TZData where
  "summer_zone =
     \<lparr>transitions = [\<lparr>gmttime = 100, localtime = 7300, localtimeIdx = 1\<rparr>,
                     \<lparr>gmttime = 20000, localtime = 23600, localtimeIdx = 0\<rparr>],
      localtimes = [\<lparr>gmtOffset = 3600, isDst = False, arrbIdx = 0\<rparr>,
                    \<lparr>gmtOffset = 7200, isDst = True, arrbIdx = 4\<rparr>],
      tz_names = [], tz_abbreviation = ''CET'' @ [CHR 0x00] @ ''CEST'' @ [CHR 0x00]\<rparr>"

theorem findLocaltime_in_force_witness:
  "findLocaltime summer_zone \<lparr>gmttime = 150, localtime = 0, localtimeIdx = 0\<rparr> True
   = Inr \<lparr>gmtOffset = 7200, isDst = True, arrbIdx = 4\<rparr>"
proof -
  have "zone_ok True summer_zone"
    by (simp add: zone_ok_def summer_zone_def comp_key_def)
  from findLocaltime_in_force [OF this] show ?thesis
    by (simp add: summer_zone_def type_in_force_def comp_key_def)
qed

section \<open>The reader throws on every file\<close>

text \<open>
  C32: Reading a zone file never loads anything.  Whatever the file holds, a well-formed zone
  file included, the constructor of \<^verbatim>\<open>TimeZone\<close> succeeds with empty data, the zone counts as valid,
  and the first conversion to local time reads the front of an empty vector.
\<close>

theorem zone_file_never_loaded:
  "TimeZone_new h zonefile = Inr (Some empty_data)
   \<and> TimeZone_valid (Some empty_data)
   \<and> toLocalTime gmtime_r (Some empty_data) seconds = Inl Out_Of_Range
   \<and> fromLocalTime gmtime_r timegm (Some empty_data) t = Inl Out_Of_Range"
  by (simp add: TimeZone_new_def readTimeZoneFile_def read_zone_def readBytes_def TimeZone_valid_def
      toLocalTime_def fromLocalTime_def findLocaltime_def empty_data_def Let_def
      split: option.split)

end
