(* ===== verification/Log_Stream.thy ===== *)
theory Log_Stream
  imports Text_Format String_Piece Complex_Main
begin

text \<open>
  \<^verbatim>\<open>src/src/utils/LogStream.h\<close> and \<^verbatim>\<open>LogStream.cpp\<close>: the fixed-size buffers of the logger, the
  integer formatter that walks a table of digits from its middle, and the stream operators.  The
  formatter is shown to print decimal numbers, and the stream to take each item whole or not at
  all, in order, and never to write outside its array.
\<close>

section \<open>FixedBuffer\<close>

definition kSmallBuffer :: nat where
  "kSmallBuffer = 4000"

definition kLargeBuffer :: nat where
  "kLargeBuffer = 4000 * 1000"

datatype fb_cookie = cookieStart | cookieEnd

text \<open>The array, whose length is the template argument \<^verbatim>\<open>SIZE\<close>, and the offset of \<^verbatim>\<open>cur_\<close> in it.\<close>

record FixedBuffer =
  cookie :: fb_cookie
  fb_data :: string
  fb_cur :: nat

definition setCookie :: "FixedBuffer \<Rightarrow> fb_cookie \<Rightarrow> FixedBuffer" where
  "setCookie b c = b\<lparr>cookie := c\<rparr>"

text \<open>The array is not initialised: \<open>junk\<close> is what it holds.\<close>

definition FixedBuffer_new :: "string \<Rightarrow> FixedBuffer" where
  "FixedBuffer_new junk =
     setCookie \<lparr>cookie = cookieStart, fb_data = junk, fb_cur = 0\<rparr> cookieStart"

definition FixedBuffer_destroy :: "FixedBuffer \<Rightarrow> FixedBuffer" where
  "FixedBuffer_destroy b = setCookie b cookieEnd"

definition fb_length :: "FixedBuffer \<Rightarrow> int" where
  "fb_length b = int32 (int (fb_cur b))"

definition fb_avail :: "FixedBuffer \<Rightarrow> int" where
  "fb_avail b = int32 (int (length (fb_data b)) - int (fb_cur b))"

definition fb_add :: "FixedBuffer \<Rightarrow> nat \<Rightarrow> FixedBuffer" where
  "fb_add b len = b\<lparr>fb_cur := fb_cur b + len\<rparr>"

definition fb_append :: "FixedBuffer \<Rightarrow> string \<Rightarrow> nat \<Rightarrow> FixedBuffer outcome" where
  "fb_append b buf len =
     (if size_of_int (fb_avail b) > len then
        seq (mem_read buf 0 len) (\<lambda>cs.
        seq (mem_write (fb_data b) (fb_cur b) cs) (\<lambda>d.
          Inr (b\<lparr>fb_data := d, fb_cur := fb_cur b + len\<rparr>)))
      else Inr b)"

definition fb_reset :: "FixedBuffer \<Rightarrow> FixedBuffer" where
  "fb_reset b = b\<lparr>fb_cur := 0\<rparr>"

definition fb_bzero :: "FixedBuffer \<Rightarrow> FixedBuffer" where
  "fb_bzero b = b\<lparr>fb_data := replicate (length (fb_data b)) CHR 0x00\<rparr>"

definition debugString :: "FixedBuffer \<Rightarrow> (FixedBuffer \<times> string) outcome" where
  "debugString b =
     seq (mem_write (fb_data b) (fb_cur b) [CHR 0x00]) (\<lambda>d. Inr (b\<lparr>fb_data := d\<rparr>, d))"

definition asString :: "FixedBuffer \<Rightarrow> string outcome" where
  "asString b = mem_read (fb_data b) 0 (size_of_int (fb_length b))"

section \<open>Formatting integers\<close>

definition log_digits :: string where
  "log_digits = ''9876543210123456789''"

definition digitsHex :: string where
  "digitsHex = ''0123456789ABCDEF''"

text \<open>
  The \<^verbatim>\<open>do\<close> loop of \<^verbatim>\<open>convert\<close>: least significant digit first.  \<^verbatim>\<open>zero\<close> points to the middle of
  \<^verbatim>\<open>digits\<close>, so that \<^verbatim>\<open>zero[lsd]\<close> is a digit for the negative remainders of C++ too.
\<close>

lemma sdiv_10_smaller: "i sdiv 10 \<noteq> 0 \<Longrightarrow> nat \<bar>i sdiv 10\<bar> < nat \<bar>i\<bar>" for i :: int
  by (cases "0 \<le> i") (auto simp: sdiv_nonneg sdiv_neg)

function convert_loop :: "int \<Rightarrow> string" where
  "convert_loop i =
     (let lsd = i smod 10; i' = i sdiv 10
      in log_digits ! nat (9 + lsd) # (if i' \<noteq> 0 then convert_loop i' else []))"
  by pat_completeness auto
termination
  by (relation "measure (\<lambda>i. nat \<bar>i\<bar>)") (use sdiv_10_smaller in auto)

declare convert_loop.simps [simp del]

definition convert :: "int \<Rightarrow> string" where
  "convert v = rev (convert_loop v @ (if v < 0 then ''-'' else []))"

fun convertHex_loop :: "nat \<Rightarrow> string" where
  "convertHex_loop i =
     digitsHex ! (i mod 16) # (if i div 16 \<noteq> 0 then convertHex_loop (i div 16) else [])"

declare convertHex_loop.simps [simp del]

definition convertHex :: "nat \<Rightarrow> string" where
  "convertHex v = rev (convertHex_loop v)"

section \<open>LogStream\<close>

record LogStream =
  ls_buffer :: FixedBuffer

definition kMaxNumericSize :: int where
  "kMaxNumericSize = 32"

definition resetBuffer :: "LogStream \<Rightarrow> LogStream" where
  "resetBuffer s = s\<lparr>ls_buffer := fb_reset (ls_buffer s)\<rparr>"

definition ls_append :: "LogStream \<Rightarrow> string \<Rightarrow> nat \<Rightarrow> LogStream outcome" where
  "ls_append s data len = seq (fb_append (ls_buffer s) data len) (\<lambda>b. Inr (s\<lparr>ls_buffer := b\<rparr>))"

text \<open>Writing at \<^verbatim>\<open>current()\<close> and advancing by \<^verbatim>\<open>add\<close>, when there is room for any number.\<close>

definition put_current :: "LogStream \<Rightarrow> string \<Rightarrow> nat \<Rightarrow> LogStream outcome" where
  "put_current s txt len =
     (let b = ls_buffer s in
      if fb_avail b \<ge> kMaxNumericSize then
        seq (mem_write (fb_data b) (fb_cur b) txt) (\<lambda>d.
          Inr (s\<lparr>ls_buffer := fb_add (b\<lparr>fb_data := d\<rparr>) len\<rparr>))
      else Inr s)"

definition formatInteger :: "LogStream \<Rightarrow> int \<Rightarrow> LogStream outcome" where
  "formatInteger s v = put_current s (convert v @ [CHR 0x00]) (length (convert v))"

definition put_bool :: "LogStream \<Rightarrow> bool \<Rightarrow> LogStream outcome" where
  "put_bool s v = ls_append s (if v then ''1'' else ''0'') 1"

definition put_int :: "LogStream \<Rightarrow> 32 word \<Rightarrow> LogStream outcome" where
  "put_int s v = formatInteger s (sint v)"

definition put_uint :: "LogStream \<Rightarrow> 32 word \<Rightarrow> LogStream outcome" where
  "put_uint s v = formatInteger s (uint v)"

definition put_short :: "LogStream \<Rightarrow> 16 word \<Rightarrow> LogStream outcome" where
  "put_short s v = put_int s (scast v)"

definition put_ushort :: "LogStream \<Rightarrow> 16 word \<Rightarrow> LogStream outcome" where
  "put_ushort s v = put_uint s (ucast v)"

definition put_long :: "LogStream \<Rightarrow> 64 word \<Rightarrow> LogStream outcome" where
  "put_long s v = formatInteger s (sint v)"

definition put_ulong :: "LogStream \<Rightarrow> 64 word \<Rightarrow> LogStream outcome" where
  "put_ulong s v = formatInteger s (uint v)"

definition put_llong :: "LogStream \<Rightarrow> 64 word \<Rightarrow> LogStream outcome" where
  "put_llong s v = formatInteger s (sint v)"

definition put_ullong :: "LogStream \<Rightarrow> 64 word \<Rightarrow> LogStream outcome" where
  "put_ullong s v = formatInteger s (uint v)"

definition put_ptr :: "LogStream \<Rightarrow> 64 word \<Rightarrow> LogStream outcome" where
  "put_ptr s p =
     (let v = unat p
      in put_current s (''0x'' @ convertHex v @ [CHR 0x00]) (length (convertHex v) + 2))"

text \<open>\<open>fmt_g\<close> is the text that \<^verbatim>\<open>%.12g\<close> gives for a \<^verbatim>\<open>double\<close>; \<^verbatim>\<open>snprintf\<close> returns its full length.\<close>

definition put_double :: "(real \<Rightarrow> string) \<Rightarrow> LogStream \<Rightarrow> real \<Rightarrow> LogStream outcome" where
  "put_double fmt_g s v =
     put_current s (snprintf_buf (nat kMaxNumericSize) (fmt_g v) @ [CHR 0x00]) (length (fmt_g v))"

definition put_float :: "(real \<Rightarrow> string) \<Rightarrow> LogStream \<Rightarrow> real \<Rightarrow> LogStream outcome" where
  "put_float fmt_g s v = put_double fmt_g s v"

definition put_char :: "LogStream \<Rightarrow> char \<Rightarrow> LogStream outcome" where
  "put_char s v = ls_append s [v] 1"

text \<open>A C string is its characters, without the terminating null.\<close>

definition put_cstr :: "LogStream \<Rightarrow> string \<Rightarrow> LogStream outcome" where
  "put_cstr s v = ls_append s (v @ [CHR 0x00]) (length v)"

definition put_string :: "LogStream \<Rightarrow> string \<Rightarrow> LogStream outcome" where
  "put_string s v = ls_append s (v @ [CHR 0x00]) (length v)"

definition chars_of_bytes :: "byte list \<Rightarrow> string" where
  "chars_of_bytes bs = map (char_of \<circ> unat) bs"

definition put_piece :: "LogStream \<Rightarrow> StringPiece \<Rightarrow> LogStream outcome" where
  "put_piece s v = ls_append s (chars_of_bytes (sp_mem v)) (size_of_int (sp_len v))"

text \<open>\<^verbatim>\<open>Fmt\<close>: \<open>txt\<close> is what the format of the caller gives for the value.\<close>

record Fmt =
  fmt_buf :: string
  fmt_length :: nat

definition Fmt_new :: "string \<Rightarrow> Fmt outcome" where
  "Fmt_new txt =
     cassert (length txt < 32)
       (Inr \<lparr>fmt_buf = snprintf_buf 32 txt @ [CHR 0x00], fmt_length = length txt\<rparr>)"

definition put_fmt :: "LogStream \<Rightarrow> Fmt \<Rightarrow> LogStream outcome" where
  "put_fmt s fmt = ls_append s (fmt_buf fmt) (fmt_length fmt)"

text \<open>The overloads of \<^verbatim>\<open>operator<<\<close>, by the type of their argument.\<close>

datatype log_item =
    L_bool bool | L_short "16 word" | L_ushort "16 word" | L_int "32 word" | L_uint "32 word"
  | L_long "64 word" | L_ulong "64 word" | L_llong "64 word" | L_ullong "64 word"
  | L_ptr "64 word" | L_float real | L_double real | L_char char | L_cstr string
  | L_string string | L_piece StringPiece | L_fmt Fmt

fun LogStream_put :: "(real \<Rightarrow> string) \<Rightarrow> LogStream \<Rightarrow> log_item \<Rightarrow> LogStream outcome" where
  "LogStream_put g s (L_bool v) = put_bool s v"
| "LogStream_put g s (L_short v) = put_short s v"
| "LogStream_put g s (L_ushort v) = put_ushort s v"
| "LogStream_put g s (L_int v) = put_int s v"
| "LogStream_put g s (L_uint v) = put_uint s v"
| "LogStream_put g s (L_long v) = put_long s v"
| "LogStream_put g s (L_ulong v) = put_ulong s v"
| "LogStream_put g s (L_llong v) = put_llong s v"
| "LogStream_put g s (L_ullong v) = put_ullong s v"
| "LogStream_put g s (L_ptr p) = put_ptr s p"
| "LogStream_put g s (L_float v) = put_float g s v"
| "LogStream_put g s (L_double v) = put_double g s v"
| "LogStream_put g s (L_char v) = put_char s v"
| "LogStream_put g s (L_cstr v) = put_cstr s v"
| "LogStream_put g s (L_string v) = put_string s v"
| "LogStream_put g s (L_piece v) = put_piece s v"
| "LogStream_put g s (L_fmt v) = put_fmt s v"

fun LogStream_puts :: "(real \<Rightarrow> string) \<Rightarrow> LogStream \<Rightarrow> log_item list \<Rightarrow> LogStream outcome" where
  "LogStream_puts g s [] = Inr s"
| "LogStream_puts g s (it # its) = seq (LogStream_put g s it) (\<lambda>s. LogStream_puts g s its)"

section \<open>The integer formatter prints decimal numbers\<close>

lemma abs_smod_10: "\<bar>v smod 10\<bar> = \<bar>v\<bar> mod 10" for v :: int
  by (cases "0 \<le> v") (auto simp: smod_nonneg smod_neg)

lemma abs_sdiv_10: "\<bar>v sdiv 10\<bar> = \<bar>v\<bar> div 10" for v :: int
  by (cases "0 \<le> v") (auto simp: sdiv_nonneg sdiv_neg)

lemma digit_table:
  assumes "\<bar>d\<bar> < 10"
  shows "log_digits ! nat (9 + d) = digit_char (nat \<bar>d\<bar>)"
proof -
  have "\<forall>k\<in>{0..<19}. log_digits ! k = digit_char (nat \<bar>int k - 9\<bar>)"
    by code_simp
  moreover have "nat (9 + d) \<in> {0..<19}" "int (nat (9 + d)) - 9 = d"
    using assms by auto
  ultimately show ?thesis by metis
qed

lemma convert_loop_decimal: "rev (convert_loop v) = dec_nat (nat \<bar>v\<bar>)"
proof (induction v rule: convert_loop.induct)
  case (1 v)
  have lsd: "log_digits ! nat (9 + v smod 10) = digit_char (nat \<bar>v\<bar> mod 10)"
    using digit_table [of "v smod 10"] abs_smod_10 [of v] by (simp add: nat_mod_distrib)
  have rest: "nat \<bar>v sdiv 10\<bar> = nat \<bar>v\<bar> div 10"
    unfolding abs_sdiv_10 by (simp add: nat_div_distrib)
  show ?case
  proof (cases "v sdiv 10 = 0")
    case True
    then have "nat \<bar>v\<bar> < 10" using rest by simp
    then show ?thesis
      using True lsd by (simp add: convert_loop.simps [of v] dec_nat.simps [of "nat \<bar>v\<bar>"])
  next
    case False
    then have "\<not> nat \<bar>v\<bar> < 10" using rest by (metis div_less nat_0_iff abs_le_zero_iff)
    then show ?thesis
      using False lsd rest "1.IH" [OF refl refl False]
      by (simp add: convert_loop.simps [of v] dec_nat.simps [of "nat \<bar>v\<bar>"])
  qed
qed

lemma convert_eq_dec_int: "convert v = dec_int v"
  using convert_loop_decimal [of v] by (simp add: convert_def dec_int_def)

lemma length_convert:
  assumes "- (2 ^ 63) \<le> v" "v < 2 ^ 64"
  shows "length (convert v) \<le> 20"
proof (cases "v < 0")
  case True
  then have "nat (- v) < 10 ^ 19" using assms(1) by (simp add: nat_less_iff)
  then show ?thesis
    using True length_dec_nat [of "nat (- v)" 19] by (simp add: convert_eq_dec_int dec_int_def)
next
  case False
  then have "nat v < 10 ^ 20" using assms(2) by (simp add: nat_less_iff)
  then show ?thesis
    using False length_dec_nat [of "nat v" 20] by (simp add: convert_eq_dec_int dec_int_def)
qed

text \<open>The value of a hexadecimal digit of the table, and of a string of them.\<close>

definition hex_val :: "char \<Rightarrow> nat" where
  "hex_val c = (if is_digit c then digit_val c else of_char c - 55)"

definition read_hex :: "string \<Rightarrow> nat" where
  "read_hex s = foldl (\<lambda>acc c. acc * 16 + hex_val c) 0 s"

lemma hex_val_table:
  assumes "d < 16"
  shows "hex_val (digitsHex ! d) = d"
proof -
  have "\<forall>k\<in>{0..<16}. hex_val (digitsHex ! k) = k" by code_simp
  then show ?thesis using assms by simp
qed

lemma convertHex_loop_value: "read_hex (rev (convertHex_loop n)) = n"
proof (induction n rule: convertHex_loop.induct)
  case (1 n)
  show ?case
  proof (cases "n div 16 = 0")
    case True
    then show ?thesis
      by (subst convertHex_loop.simps) (simp add: read_hex_def hex_val_table)
  next
    case False
    with "1.IH" [OF False] show ?thesis
      by (subst convertHex_loop.simps) (simp add: read_hex_def hex_val_table)
  qed
qed

lemma length_convertHex_loop: "n < 16 ^ k \<Longrightarrow> 0 < k \<Longrightarrow> length (convertHex_loop n) \<le> k"
proof (induction n arbitrary: k rule: convertHex_loop.induct)
  case (1 n)
  show ?case
  proof (cases "n div 16 = 0")
    case True
    with "1.prems" show ?thesis by (subst convertHex_loop.simps) simp
  next
    case False
    then obtain k' where k: "k = Suc k'" "0 < k'"
      using "1.prems" by (cases k; cases "k - 1") auto
    have "n div 16 < 16 ^ k'"
      using "1.prems"(1) k(1) by (simp add: less_mult_imp_div_less)
    with "1.IH" [OF False, of k'] k False show ?thesis
      by (subst convertHex_loop.simps) simp
  qed
qed

lemma length_convertHex: "length (convertHex (unat (p :: 64 word))) \<le> 16"
proof -
  have "unat p < 16 ^ 16" using unat_bound [of p] by simp
  then show ?thesis
    using length_convertHex_loop [of "unat p" 16] by (simp add: convertHex_def)
qed

text \<open>
  C24: The integer formatter agrees with decimal notation on every value of every integer type,
  the most negative one included, for which negating would overflow: it prints a minus sign and
  the digits without leading zeros, the text reads back as the value, and it never takes more
  than 20 characters; a pointer prints as at most 16 hexadecimal digits that read back as it.
\<close>

theorem convert_correct:
  "convert v = dec_int v \<and> read_int (convert v) = v
   \<and> (- (2 ^ 63) \<le> v \<and> v < 2 ^ 64 \<longrightarrow> length (convert v) \<le> 20)
   \<and> read_hex (convertHex (unat (p :: 64 word))) = unat p \<and> length (convertHex (unat p)) \<le> 16"
  using convert_eq_dec_int [of v] read_dec_int [of v] length_convert [of v]
    convertHex_loop_value [of "unat p"] length_convertHex [of p]
  by (simp add: convertHex_def)

theorem convert_correct_witness:
  "convert (- 9223372036854775808) = ''-9223372036854775808''
   \<and> length (convert (- 9223372036854775808)) \<le> 20"
proof -
  have "convert (- 9223372036854775808) = ''-9223372036854775808''"
    by code_simp
  then show ?thesis
    using convert_correct [of "- 9223372036854775808"] by simp
qed

section \<open>Bounded append buffers\<close>

text \<open>
  What the logger relies on in a fixed buffer: a text that fits is appended whole, one that does
  not fit leaves the buffer alone.  \<open>room\<close> is the space left; a text must be shorter than it.
\<close>

locale append_buffer =
  fixes inv :: "'b \<Rightarrow> bool" and contents :: "'b \<Rightarrow> string" and room :: "'b \<Rightarrow> nat"
    and append :: "'b \<Rightarrow> string \<Rightarrow> 'b outcome"
  assumes append_fits: "inv b \<Longrightarrow> length t < room b \<Longrightarrow>
      \<exists>b'. append b t = Inr b' \<and> inv b' \<and> contents b' = contents b @ t
           \<and> room b' = room b - length t"
    and append_full: "inv b \<Longrightarrow> room b \<le> length t \<Longrightarrow> append b t = Inr b"
begin

lemma append_cases:
  assumes "inv b"
  shows "\<exists>b'. append b t = Inr b' \<and> inv b'
    \<and> contents b' = contents b @ (if length t < room b then t else [])
    \<and> room b' + length (contents b') = room b + length (contents b)"
  using append_fits [OF assms, of t] append_full [OF assms, of t] assms
  by (cases "length t < room b") auto

fun append_all :: "'b \<Rightarrow> string list \<Rightarrow> 'b outcome" where
  "append_all b [] = Inr b"
| "append_all b (t # ts) = seq (append b t) (\<lambda>b. append_all b ts)"

lemma append_all_fits:
  assumes "inv b" "length (concat ts) < room b"
  shows "\<exists>b'. append_all b ts = Inr b' \<and> inv b' \<and> contents b' = contents b @ concat ts
              \<and> room b' = room b - length (concat ts)"
  using assms
proof (induction ts arbitrary: b)
  case (Cons t ts)
  obtain b' where b': "append b t = Inr b'" "inv b'" "contents b' = contents b @ t"
      "room b' = room b - length t"
    using append_fits [of b t] Cons.prems by auto
  then obtain b'' where "append_all b' ts = Inr b''" "inv b''"
      "contents b'' = contents b' @ concat ts" "room b'' = room b' - length (concat ts)"
    using Cons.IH [of b'] Cons.prems by fastforce
  then show ?case using b' by simp
qed simp

end

definition fb_inv :: "FixedBuffer \<Rightarrow> bool" where
  "fb_inv b \<longleftrightarrow> fb_cur b < length (fb_data b) \<and> length (fb_data b) < 2 ^ 31"

definition fb_contents :: "FixedBuffer \<Rightarrow> string" where
  "fb_contents b = take (fb_cur b) (fb_data b)"

definition fb_room :: "FixedBuffer \<Rightarrow> nat" where
  "fb_room b = length (fb_data b) - fb_cur b"

lemma fb_avail_room: "fb_inv b \<Longrightarrow> fb_avail b = int (fb_room b)"
  by (simp add: fb_inv_def fb_avail_def fb_room_def int32_small of_nat_diff)

lemma fb_room_contents: "fb_inv b \<Longrightarrow> fb_room b + length (fb_contents b) = length (fb_data b)"
  by (simp add: fb_inv_def fb_room_def fb_contents_def)

text \<open>Writing a text and more after it, and moving \<^verbatim>\<open>cur_\<close> past the text.\<close>

lemma fb_write:
  assumes "fb_inv b" "length (t @ z) \<le> fb_room b" "length t < fb_room b"
  shows "\<exists>d. mem_write (fb_data b) (fb_cur b) (t @ z) = Inr d
    \<and> fb_inv (b\<lparr>fb_data := d, fb_cur := fb_cur b + length t\<rparr>)
    \<and> fb_contents (b\<lparr>fb_data := d, fb_cur := fb_cur b + length t\<rparr>) = fb_contents b @ t
    \<and> fb_room (b\<lparr>fb_data := d, fb_cur := fb_cur b + length t\<rparr>) = fb_room b - length t
    \<and> length d = length (fb_data b)"
  using assms by (auto simp: mem_write_def fb_inv_def fb_contents_def fb_room_def)

lemma fb_append_mem:
  assumes "fb_inv b"
  shows "fb_append b (t @ z) (length t)
         = (if length t < fb_room b then
              seq (mem_write (fb_data b) (fb_cur b) t) (\<lambda>d.
                Inr (b\<lparr>fb_data := d, fb_cur := fb_cur b + length t\<rparr>))
            else Inr b)"
proof -
  have "fb_room b < 2 ^ 64"
    using assms by (auto simp: fb_inv_def fb_room_def)
  then show ?thesis
    using assms by (simp add: fb_append_def fb_avail_room size_of_int_nat mem_read_def)
qed

interpretation fixed: append_buffer fb_inv fb_contents fb_room "\<lambda>b t. fb_append b t (length t)"
proof
  fix b t
  assume b: "fb_inv b"
  show "\<exists>b'. fb_append b t (length t) = Inr b' \<and> fb_inv b' \<and> fb_contents b' = fb_contents b @ t
             \<and> fb_room b' = fb_room b - length t" if "length t < fb_room b"
    using fb_write [OF b, of t "[]"] that fb_append_mem [OF b, of t "[]"] by auto
  show "fb_append b t (length t) = Inr b" if "fb_room b \<le> length t"
    using fb_append_mem [OF b, of t "[]"] that by simp
qed

section \<open>The stream takes items whole\<close>

text \<open>What an item prints, and the room its operator asks for.\<close>

fun item_text :: "(real \<Rightarrow> string) \<Rightarrow> log_item \<Rightarrow> string" where
  "item_text g (L_bool v) = (if v then ''1'' else ''0'')"
| "item_text g (L_short v) = dec_int (sint v)"
| "item_text g (L_ushort v) = dec_int (uint v)"
| "item_text g (L_int v) = dec_int (sint v)"
| "item_text g (L_uint v) = dec_int (uint v)"
| "item_text g (L_long v) = dec_int (sint v)"
| "item_text g (L_ulong v) = dec_int (uint v)"
| "item_text g (L_llong v) = dec_int (sint v)"
| "item_text g (L_ullong v) = dec_int (uint v)"
| "item_text g (L_ptr p) = ''0x'' @ convertHex (unat p)"
| "item_text g (L_float v) = g v"
| "item_text g (L_double v) = g v"
| "item_text g (L_char v) = [v]"
| "item_text g (L_cstr v) = v"
| "item_text g (L_string v) = v"
| "item_text g (L_piece v) = chars_of_bytes (take (nat (sp_len v)) (sp_mem v))"
| "item_text g (L_fmt v) = take (fmt_length v) (fmt_buf v)"

fun item_is_number :: "log_item \<Rightarrow> bool" where
  "item_is_number (L_bool _) = False"
| "item_is_number (L_char _) = False"
| "item_is_number (L_cstr _) = False"
| "item_is_number (L_string _) = False"
| "item_is_number (L_piece _) = False"
| "item_is_number (L_fmt _) = False"
| "item_is_number _ = True"

definition item_room :: "(real \<Rightarrow> string) \<Rightarrow> log_item \<Rightarrow> nat" where
  "item_room g it = (if item_is_number it then 32 else length (item_text g it) + 1)"

text \<open>A piece must lie in its memory and a \<^verbatim>\<open>Fmt\<close> must come from its constructor.\<close>

fun item_ok :: "log_item \<Rightarrow> bool" where
  "item_ok (L_piece v) \<longleftrightarrow> 0 \<le> sp_len v \<and> sp_len v \<le> int (length (sp_mem v)) \<and> sp_len v < 2 ^ 31"
| "item_ok (L_fmt v) \<longleftrightarrow> fmt_length v \<le> length (fmt_buf v)"
| "item_ok _ \<longleftrightarrow> True"

definition stream_inv :: "LogStream \<Rightarrow> bool" where
  "stream_inv s \<longleftrightarrow> fb_inv (ls_buffer s) \<and> length (fb_data (ls_buffer s)) = kSmallBuffer"

definition stream_text :: "LogStream \<Rightarrow> string" where
  "stream_text s = fb_contents (ls_buffer s)"

definition keep_item :: "(real \<Rightarrow> string) \<Rightarrow> string \<Rightarrow> log_item \<Rightarrow> string" where
  "keep_item g acc it =
     (if item_room g it \<le> kSmallBuffer - length acc then acc @ item_text g it else acc)"

lemma stream_room: "stream_inv s \<Longrightarrow> fb_room (ls_buffer s) = kSmallBuffer - length (stream_text s)"
  using fb_room_contents [of "ls_buffer s"] by (simp add: stream_inv_def stream_text_def)

text \<open>An operation on a stream that puts a text there whole, or nothing when room is short.\<close>

definition puts_whole :: "LogStream \<Rightarrow> LogStream outcome \<Rightarrow> string \<Rightarrow> nat \<Rightarrow> bool" where
  "puts_whole s r t need \<longleftrightarrow>
     (\<exists>s'. r = Inr s' \<and> stream_inv s' \<and> stream_text s'
        = (if need \<le> kSmallBuffer - length (stream_text s) then stream_text s @ t else stream_text s))"

lemma ls_append_text:
  assumes s: "stream_inv s"
  shows "puts_whole s (ls_append s (t @ z) (length t)) t (length t + 1)"
proof -
  have b: "fb_inv (ls_buffer s)" using s by (simp add: stream_inv_def)
  show ?thesis
    using fb_write [OF b, of t "[]"] fb_append_mem [OF b, of t z] s stream_room [OF s]
    by (auto simp: puts_whole_def ls_append_def stream_inv_def stream_text_def)
qed

lemma ls_append_exact:
  "stream_inv s \<Longrightarrow> puts_whole s (ls_append s t (length t)) t (length t + 1)"
  using ls_append_text [of s t "[]"] by simp

lemma put_current_text:
  assumes s: "stream_inv s" and t: "length t < 32"
  shows "puts_whole s (put_current s (t @ [CHR 0x00]) (length t)) t 32"
proof -
  have b: "fb_inv (ls_buffer s)" using s by (simp add: stream_inv_def)
  show ?thesis
    using fb_write [OF b, of t "[CHR 0x00]"] t s stream_room [OF s]
    by (auto simp: puts_whole_def put_current_def Let_def fb_avail_room [OF b] kMaxNumericSize_def
        stream_inv_def stream_text_def fb_add_def)
qed

lemma formatInteger_text:
  assumes s: "stream_inv s" and v: "- (2 ^ 63) \<le> v" "v < 2 ^ 64"
  shows "puts_whole s (formatInteger s v) (dec_int v) 32"
  using put_current_text [OF s, of "convert v"] length_convert [OF v]
  unfolding formatInteger_def convert_eq_dec_int by simp

lemma word_in_range:
  "- (2 ^ 63) \<le> sint (a :: 32 word)" "sint a < 2 ^ 64" "- (2 ^ 63) \<le> uint a" "uint a < 2 ^ 64"
  "- (2 ^ 63) \<le> sint (b :: 64 word)" "sint b < 2 ^ 64" "- (2 ^ 63) \<le> uint b" "uint b < 2 ^ 64"
  "- (2 ^ 63) \<le> sint (c :: 16 word)" "sint c < 2 ^ 64" "- (2 ^ 63) \<le> uint c" "uint c < 2 ^ 64"
proof -
  show "- (2 ^ 63) \<le> uint a" "- (2 ^ 63) \<le> uint b" "- (2 ^ 63) \<le> uint c"
    by (rule order_trans [of _ 0]; simp)+
qed (use sint_ge [of a] sint_lt [of a] uint_lt2p [of a] sint_ge [of b] sint_lt [of b] uint_lt2p [of b]
    sint_ge [of c] sint_lt [of c] uint_lt2p [of c] in simp_all)

lemma short_to_int: "sint (scast (v :: 16 word) :: 32 word) = sint v"
  "uint (ucast (v :: 16 word) :: 32 word) = uint v"
  by (simp_all add: sint_up_scast is_up uint_up_ucast)

lemma LogStream_put_item:
  assumes s: "stream_inv s" and ok: "item_ok it" and g: "\<And>v. length (g v) < 32"
  shows "puts_whole s (LogStream_put g s it) (item_text g it) (item_room g it)"
proof (cases it)
  case (L_ptr p)
  have "puts_whole s (put_current s ((''0x'' @ convertHex (unat p)) @ [CHR 0x00])
      (length (''0x'' @ convertHex (unat p)))) (''0x'' @ convertHex (unat p)) 32"
    using length_convertHex [of p] by (intro put_current_text [OF s]) simp
  then show ?thesis
    using L_ptr by (simp add: put_ptr_def Let_def item_room_def)
next
  case (L_piece v)
  have "chars_of_bytes (sp_mem v)
      = chars_of_bytes (take (nat (sp_len v)) (sp_mem v)) @ chars_of_bytes (drop (nat (sp_len v)) (sp_mem v))"
    by (simp add: chars_of_bytes_def flip: map_append)
  moreover have "size_of_int (sp_len v) = length (chars_of_bytes (take (nat (sp_len v)) (sp_mem v)))"
  proof -
    have "nat (sp_len v) < 2 ^ 64" "nat (sp_len v) \<le> length (sp_mem v)" "0 \<le> sp_len v"
      using ok L_piece by (auto simp: nat_less_iff)
    then show ?thesis
      using size_of_int_nat [of "nat (sp_len v)"] by (simp add: chars_of_bytes_def)
  qed
  ultimately show ?thesis
    using L_piece ls_append_text [OF s] by (simp add: put_piece_def item_room_def)
next
  case (L_fmt v)
  have "fmt_buf v = take (fmt_length v) (fmt_buf v) @ drop (fmt_length v) (fmt_buf v)"
    "fmt_length v = length (take (fmt_length v) (fmt_buf v))"
    using ok L_fmt by simp_all
  then have "puts_whole s (ls_append s (fmt_buf v) (fmt_length v)) (take (fmt_length v) (fmt_buf v))
      (length (take (fmt_length v) (fmt_buf v)) + 1)"
    using ls_append_text [OF s, of "take (fmt_length v) (fmt_buf v)" "drop (fmt_length v) (fmt_buf v)"]
    by simp
  then show ?thesis
    using L_fmt by (simp add: put_fmt_def item_room_def)
next
  case (L_double v)
  then show ?thesis
    using put_current_text [OF s g, of v] g [of v]
    by (simp add: put_double_def item_room_def snprintf_buf_def kMaxNumericSize_def)
next
  case (L_float v)
  then show ?thesis
    using put_current_text [OF s g, of v] g [of v]
    by (simp add: put_float_def put_double_def item_room_def snprintf_buf_def kMaxNumericSize_def)
next
  case (L_bool v)
  then show ?thesis
    using ls_append_exact [OF s, of "if v then ''1'' else ''0''"]
    by (simp add: put_bool_def item_room_def split: if_splits)
next
  case (L_char v)
  then show ?thesis
    using ls_append_exact [OF s, of "[v]"] by (simp add: put_char_def item_room_def)
qed (use ls_append_text [OF s] formatInteger_text [OF s] word_in_range in
    \<open>simp_all add: item_room_def put_cstr_def put_string_def put_int_def put_uint_def put_short_def
      put_ushort_def put_long_def put_ulong_def put_llong_def put_ullong_def short_to_int\<close>)

lemma LogStream_puts_spec:
  assumes "stream_inv s" "\<forall>it\<in>set its. item_ok it" "\<forall>v. length (fmt_g v) < 32"
  shows "\<exists>s'. LogStream_puts fmt_g s its = Inr s' \<and> stream_inv s'
              \<and> stream_text s' = foldl (keep_item fmt_g) (stream_text s) its"
  using assms
proof (induction its arbitrary: s)
  case (Cons it its)
  then obtain s' where s': "LogStream_put fmt_g s it = Inr s'" "stream_inv s'"
      "stream_text s' = keep_item fmt_g (stream_text s) it"
    using LogStream_put_item [of s it fmt_g] by (auto simp: puts_whole_def keep_item_def)
  then show ?case
    using Cons.IH [of s'] Cons.prems by simp
qed simp

lemma keep_items_fit:
  assumes "length acc + length (concat (map (item_text g) its)) + 32 \<le> kSmallBuffer"
  shows "foldl (keep_item g) acc its = acc @ concat (map (item_text g) its)"
  using assms
proof (induction its arbitrary: acc)
  case (Cons it its)
  have "item_room g it \<le> length (item_text g it) + 32"
    by (simp add: item_room_def)
  then have "keep_item g acc it = acc @ item_text g it"
    using Cons.prems by (simp add: keep_item_def)
  then show ?case using Cons by simp
qed simp

text \<open>Operations that find room, one after the other.\<close>

lemma puts_whole_fits:
  assumes "puts_whole s r t need" "length (stream_text s) + need \<le> kSmallBuffer"
  shows "\<exists>s'. r = Inr s' \<and> stream_inv s' \<and> stream_text s' = stream_text s @ t"
  using assms by (auto simp: puts_whole_def)

lemma LogStream_puts_fit:
  assumes "stream_inv s" "\<forall>it\<in>set its. item_ok it" "\<forall>v. length (g v) < 32"
    "length (stream_text s) + length (concat (map (item_text g) its)) + 32 \<le> kSmallBuffer"
  shows "\<exists>s'. LogStream_puts g s its = Inr s' \<and> stream_inv s'
              \<and> stream_text s' = stream_text s @ concat (map (item_text g) its)"
  using LogStream_puts_spec [OF assms(1-3)] keep_items_fit [OF assms(4)] by auto

text \<open>
  C23: A log stream takes each item whole or not at all, in the order in which they are put.  A
  number needs 32 free characters and a text one more than its length; an item that does not fit
  is dropped and later, shorter ones may still be taken.  No sequence of items writes outside
  the 4000 characters of the buffer.
\<close>

theorem stream_takes_whole_items:
  assumes "stream_inv s" "\<forall>it\<in>set its. item_ok it" "\<forall>v. length (fmt_g v) < 32"
  shows "\<exists>s'. LogStream_puts fmt_g s its = Inr s' \<and> stream_inv s'
              \<and> stream_text s' = foldl (keep_item fmt_g) (stream_text s) its"
  using assms by (rule LogStream_puts_spec)

theorem stream_takes_whole_items_witness:
  "\<exists>s'. LogStream_puts (\<lambda>v. ''1.5'') \<lparr>ls_buffer = FixedBuffer_new (replicate kSmallBuffer CHR ''?'')\<rparr>
          [L_cstr ''a='', L_int (- 7), L_char CHR '' '', L_double (3 / 2)] = Inr s'
        \<and> stream_inv s' \<and> stream_text s' = ''a=-7 1.5''"
proof -
  let ?s = "\<lparr>ls_buffer = FixedBuffer_new (replicate kSmallBuffer CHR ''?'')\<rparr>"
  have s: "stream_inv ?s" and t: "stream_text ?s = []"
    by (simp_all add: stream_inv_def fb_inv_def FixedBuffer_new_def setCookie_def kSmallBuffer_def
        stream_text_def fb_contents_def)
  have "dec_int (sint (- 7 :: 32 word)) = ''-7''"
    by code_simp
  then have "foldl (keep_item (\<lambda>v. ''1.5'')) []
      [L_cstr ''a='', L_int (- 7), L_char CHR '' '', L_double (3 / 2)] = ''a=-7 1.5''"
    by (simp add: keep_item_def item_room_def kSmallBuffer_def)
  then show ?thesis
    using stream_takes_whole_items [OF s, of "[L_cstr ''a='', L_int (- 7), L_char CHR '' '', L_double (3 / 2)]"
        "\<lambda>v. ''1.5''"] unfolding t
    by simp
qed

end
