(* ===== verification/Threads.thy ===== *)
theory Threads
  imports Text_Format "HOL-Library.Multiset"
begin

text \<open>
  \<^verbatim>\<open>src/src/utils/Atomic.h\<close>, \<^verbatim>\<open>CurrentThread.h\<close>, \<^verbatim>\<open>Thread.h\<close> and \<^verbatim>\<open>Thread.cpp\<close>: atomic integers at
  their width, the thread-local names and ids, and the life of a thread object.  The kernel's
  \<^verbatim>\<open>gettid\<close> and the result of \<^verbatim>\<open>pthread_create\<close> are parameters.
\<close>

section \<open>AtomicIntegerT\<close>

text \<open>Each operation is one atomic step: the new value of \<^verbatim>\<open>value_\<close> and the result.\<close>

record 'v AtomicIntegerT =
  atomic_value :: 'v

definition Atomic_new :: "'n::len word AtomicIntegerT" where
  "Atomic_new = \<lparr>atomic_value = 0\<rparr>"

definition atomic_get :: "'n::len word AtomicIntegerT \<Rightarrow> 'n word AtomicIntegerT \<times> 'n word" where
  "atomic_get a =
     ((if atomic_value a = 0 then a\<lparr>atomic_value := 0\<rparr> else a), atomic_value a)"

definition getAndAdd :: "'n::len word AtomicIntegerT \<Rightarrow> 'n word \<Rightarrow> 'n word AtomicIntegerT \<times> 'n word" where
  "getAndAdd a x = (a\<lparr>atomic_value := atomic_value a + x\<rparr>, atomic_value a)"

definition addAndGet :: "'n::len word AtomicIntegerT \<Rightarrow> 'n word \<Rightarrow> 'n word AtomicIntegerT \<times> 'n word" where
  "addAndGet a x = (let (a, v) = getAndAdd a x in (a, v + x))"

definition incrementAndGet :: "'n::len word AtomicIntegerT \<Rightarrow> 'n word AtomicIntegerT \<times> 'n word" where
  "incrementAndGet a = addAndGet a 1"

definition decrementAndGet :: "'n::len word AtomicIntegerT \<Rightarrow> 'n word AtomicIntegerT \<times> 'n word" where
  "decrementAndGet a = addAndGet a (- 1)"

definition atomic_add :: "'n::len word AtomicIntegerT \<Rightarrow> 'n word \<Rightarrow> 'n word AtomicIntegerT" where
  "atomic_add a x = fst (getAndAdd a x)"

definition atomic_increment :: "'n::len word AtomicIntegerT \<Rightarrow> 'n word AtomicIntegerT" where
  "atomic_increment a = fst (incrementAndGet a)"

definition atomic_decrement :: "'n::len word AtomicIntegerT \<Rightarrow> 'n word AtomicIntegerT" where
  "atomic_decrement a = fst (decrementAndGet a)"

definition getAndSet :: "'n::len word AtomicIntegerT \<Rightarrow> 'n word \<Rightarrow> 'n word AtomicIntegerT \<times> 'n word" where
  "getAndSet a newValue = (a\<lparr>atomic_value := newValue\<rparr>, atomic_value a)"

section \<open>CurrentThread\<close>

record thread_locals =
  t_cachedTid :: int
  t_tidString :: string
  t_threadName :: string

definition initial_locals :: thread_locals where
  "initial_locals = \<lparr>t_cachedTid = 0, t_tidString = [], t_threadName = ''unknown''\<rparr>"

definition cacheTid :: "int \<Rightarrow> thread_locals \<Rightarrow> thread_locals outcome" where
  "cacheTid gettid l =
     (if t_cachedTid l = 0 then
        let txt = fmt_d 5 gettid @ '' ''
        in cassert (length txt = 6)
             (Inr (l\<lparr>t_cachedTid := gettid, t_tidString := snprintf_buf 32 txt\<rparr>))
      else Inr l)"

definition CurrentThread_tid :: "int \<Rightarrow> thread_locals \<Rightarrow> (thread_locals \<times> int) outcome" where
  "CurrentThread_tid gettid l =
     seq (if t_cachedTid l = 0 then cacheTid gettid l else Inr l) (\<lambda>l. Inr (l, t_cachedTid l))"

definition isMainThread :: "int \<Rightarrow> int \<Rightarrow> thread_locals \<Rightarrow> (thread_locals \<times> bool) outcome" where
  "isMainThread gettid getpid l =
     seq (CurrentThread_tid gettid l) (\<lambda>(l, tid). Inr (l, tid = getpid))"

definition afterFork :: "int \<Rightarrow> thread_locals \<Rightarrow> thread_locals outcome" where
  "afterFork gettid l =
     seq (CurrentThread_tid gettid (l\<lparr>t_cachedTid := 0, t_threadName := ''main''\<rparr>)) (\<lambda>(l, _). Inr l)"

definition ThreadNameInitializer :: "int \<Rightarrow> thread_locals \<Rightarrow> thread_locals outcome" where
  "ThreadNameInitializer gettid l =
     seq (CurrentThread_tid gettid (l\<lparr>t_threadName := ''main''\<rparr>)) (\<lambda>(l, _). Inr l)"

section \<open>Thread\<close>

record Thread =
  started :: bool
  joined :: bool
  pthreadId :: nat
  th_tid :: int
  th_name :: string

text \<open>The constructor counts the object in the class's atomic counter.\<close>

definition Thread_new :: "string \<Rightarrow> 32 word AtomicIntegerT \<Rightarrow> Thread \<times> 32 word AtomicIntegerT" where
  "Thread_new n numCreated =
     (\<lparr>started = False, joined = False, pthreadId = 0, th_tid = 0, th_name = n\<rparr>,
      atomic_increment numCreated)"

definition numCreated :: "32 word AtomicIntegerT \<Rightarrow> 32 word" where
  "numCreated c = snd (atomic_get c)"

text \<open>The destructor detaches a thread that was started and not joined.\<close>

definition Thread_destroy :: "Thread \<Rightarrow> nat option" where
  "Thread_destroy t = (if started t \<and> \<not> joined t then Some (pthreadId t) else None)"

text \<open>
  \<^verbatim>\<open>pthread_create\<close> gives a new id, or an error: then \<^verbatim>\<open>LOG_SYSFATAL\<close> ends the process.
\<close>

definition Thread_start :: "nat option \<Rightarrow> Thread \<Rightarrow> Thread outcome" where
  "Thread_start pthread_create t =
     cassert (\<not> started t)
       (case pthread_create of
          Some i \<Rightarrow> Inr (t\<lparr>started := True, pthreadId := i\<rparr>)
        | None \<Rightarrow> Inl Fatal_Abort)"

definition Thread_join :: "(nat \<Rightarrow> int) \<Rightarrow> Thread \<Rightarrow> (Thread \<times> int) outcome" where
  "Thread_join pthread_join t =
     cassert (started t) (cassert (\<not> joined t)
       (Inr (t\<lparr>joined := True\<rparr>, pthread_join (pthreadId t))))"

text \<open>How the thread's function ends.\<close>

datatype func_end = Func_Returned | Func_Exception | Func_Std_Exception | Func_Unknown_Exception

text \<open>
  \<^verbatim>\<open>ThreadData::runInThread\<close>, up to the function and after it: the id is stored in the
  thread object when it is still alive, and the name says how the function ended.  An
  unknown exception that leaves the start routine ends the process as the two others do.
\<close>

definition ThreadData_enter ::
  "int \<Rightarrow> string \<Rightarrow> int option \<Rightarrow> thread_locals \<Rightarrow> (thread_locals \<times> int option) outcome" where
  "ThreadData_enter gettid nm wkTid l =
     seq (CurrentThread_tid gettid l) (\<lambda>(l, tid).
       Inr (l\<lparr>t_threadName := nm\<rparr>, (case wkTid of Some _ \<Rightarrow> Some tid | None \<Rightarrow> None)))"

definition ThreadData_leave :: "func_end \<Rightarrow> thread_locals \<Rightarrow> thread_locals \<times> bool" where
  "ThreadData_leave r l =
     (case r of
        Func_Returned \<Rightarrow> (l\<lparr>t_threadName := ''finished''\<rparr>, False)
      | Func_Exception \<Rightarrow> (l\<lparr>t_threadName := ''crashed''\<rparr>, True)
      | Func_Std_Exception \<Rightarrow> (l\<lparr>t_threadName := ''crashed''\<rparr>, True)
      | Func_Unknown_Exception \<Rightarrow> (l\<lparr>t_threadName := ''crashed''\<rparr>, True))"

definition runInThread_data ::
  "int \<Rightarrow> string \<Rightarrow> int option \<Rightarrow> func_end \<Rightarrow> thread_locals
   \<Rightarrow> (thread_locals \<times> int option) outcome" where
  "runInThread_data gettid nm wkTid r l =
     seq (ThreadData_enter gettid nm wkTid l) (\<lambda>(l, tid).
       let (l, aborts) = ThreadData_leave r l
       in if aborts then Inl Fatal_Abort else Inr (l, tid))"

text \<open>
  What \<^verbatim>\<open>Thread::start\<close> hands to the new thread, and the start routine, which frees it.  The thread
  object is alive when it still has a number.
\<close>

record ThreadData =
  td_name :: string
  td_wkTid :: "int option"

definition ThreadData_new :: "string \<Rightarrow> int \<Rightarrow> ThreadData" where
  "ThreadData_new nm tid = \<lparr>td_name = nm, td_wkTid = Some tid\<rparr>"

definition startThread :: "int \<Rightarrow> ThreadData \<Rightarrow> func_end \<Rightarrow> thread_locals \<Rightarrow> (thread_locals \<times> int option) outcome" where
  "startThread gettid data r l = runInThread_data gettid (td_name data) (td_wkTid data) r l"

section \<open>Properties\<close>

lemma atomic_adds: "atomic_value (foldl atomic_add a xs) = atomic_value a + sum_list xs"
  by (induction xs arbitrary: a) (simp_all add: atomic_add_def getAndAdd_def algebra_simps)

text \<open>
  Atomic additions commute: whatever the order in which the additions of several threads take
  effect, the counter ends with the same value, and each \<^verbatim>\<open>addAndGet\<close> returns the value that its own
  addition left, wrap-around included.
\<close>

theorem atomic_additions_commute:
  fixes a :: "'n::len word AtomicIntegerT"
  shows "(mset xs = mset ys \<longrightarrow> foldl atomic_add a xs = foldl atomic_add a ys)
    \<and> snd (addAndGet a x) = atomic_value (fst (addAndGet a x))
    \<and> fst (decrementAndGet (fst (incrementAndGet a))) = a"
proof -
  have *: "foldl atomic_add a zs = a\<lparr>atomic_value := atomic_value a + sum_list zs\<rparr>" for zs
    by (induction zs arbitrary: a) (simp_all add: atomic_add_def getAndAdd_def algebra_simps)
  have "sum_list xs = sum_list ys" if "mset xs = mset ys"
    using that by (metis sum_mset_sum_list)
  then show ?thesis
    by (simp add: * addAndGet_def getAndAdd_def incrementAndGet_def decrementAndGet_def)
qed

theorem atomic_additions_commute_witness:
  "foldl atomic_add (Atomic_new :: 8 word AtomicIntegerT) [200, 100] = foldl atomic_add Atomic_new [100, 200]
   \<and> atomic_value (foldl atomic_add (Atomic_new :: 8 word AtomicIntegerT) [200, 100]) = 44"
proof -
  have "mset [200, 100 :: 8 word] = mset [100, 200]" by simp
  then show ?thesis
    using atomic_additions_commute [of "[200, 100]" "[100, 200]" "Atomic_new :: 8 word AtomicIntegerT" 0]
    by (simp add: atomic_add_def getAndAdd_def Atomic_new_def)
qed

lemma length_dec_nat_ge: "10 ^ k \<le> n \<Longrightarrow> k < length (dec_nat n)"
proof (induction k arbitrary: n)
  case 0
  then show ?case using dec_nat_nonempty by simp
next
  case (Suc k)
  then have "\<not> n < 10" "10 ^ k \<le> n div 10"
    by (auto simp: less_eq_div_iff_mult_less_eq) (metis mult_le_mono1 mult.commute one_le_numeral one_le_power
        le_trans mult_1 not_less)
  with Suc.IH [of "n div 10"] show ?case by (subst dec_nat.simps) simp
qed

text \<open>
  C33: Caching a thread id succeeds only below 100000: the text of a larger id has more than the
  six characters that \<^verbatim>\<open>cacheTid\<close> asserts, so on a system with \<^verbatim>\<open>pid_max\<close> above 99999 the process
  aborts on its first use of an id; otherwise the id and its six characters are cached, and later
  calls return it.
\<close>

theorem cacheTid_five_digits:
  assumes "0 < gettid" "t_cachedTid l = 0"
  shows "(gettid < 100000 \<longrightarrow>
            (\<exists>l'. CurrentThread_tid gettid l = Inr (l', gettid) \<and> length (t_tidString l') = 6
                  \<and> (\<forall>g. CurrentThread_tid g l' = Inr (l', gettid))))
    \<and> (100000 \<le> gettid \<longrightarrow> CurrentThread_tid gettid l = Inl Assertion_Failed)"
proof -
  have "length (dec_int gettid) \<le> 5" if "gettid < 100000"
    using that assms(1) length_dec_nat [of "nat gettid" 5] by (simp add: dec_int_def nat_less_iff)
  moreover have "5 < length (dec_int gettid)" if "100000 \<le> gettid"
    using that assms(1) length_dec_nat_ge [of 5 "nat gettid"] by (simp add: dec_int_def nat_le_iff le_nat_iff)
  ultimately show ?thesis
    using assms
    by (auto simp: CurrentThread_tid_def cacheTid_def Let_def fmt_d_def length_pad_left cassert_def
        snprintf_buf_def max_def)
qed

theorem cacheTid_five_digits_witness:
  "CurrentThread_tid 123456 initial_locals = Inl Assertion_Failed
   \<and> (\<exists>l'. CurrentThread_tid 42 initial_locals = Inr (l', 42) \<and> length (t_tidString l') = 6)"
  using cacheTid_five_digits [of 123456 initial_locals] cacheTid_five_digits [of 42 initial_locals]
  by (auto simp: initial_locals_def)

end
