(* ===== verification/Logging.thy ===== *)
theory Logging
  imports Log_Stream Threads Time_Stamp
begin

text \<open>
  \<^verbatim>\<open>src/src/utils/Logging.h\<close> and \<^verbatim>\<open>Logging.cpp\<close>: what a \<^verbatim>\<open>Logger\<close> object writes.  The clock,
  \<^verbatim>\<open>gmtime_r\<close>, \<^verbatim>\<open>strerror_r\<close> and the text of \<^verbatim>\<open>%.12g\<close> are parameters.
\<close>

section \<open>Levels and source files\<close>

datatype LogLevel = TRACE | DEBUG | INFO | WARN | ERROR | FATAL

fun level_number :: "LogLevel \<Rightarrow> nat" where
  "level_number TRACE = 0"
| "level_number DEBUG = 1"
| "level_number INFO = 2"
| "level_number WARN = 3"
| "level_number ERROR = 4"
| "level_number FATAL = 5"

fun LogLevelName :: "LogLevel \<Rightarrow> string" where
  "LogLevelName TRACE = ''TRACE ''"
| "LogLevelName DEBUG = ''DEBUG ''"
| "LogLevelName INFO = ''INFO ''"
| "LogLevelName WARN = ''WARN ''"
| "LogLevelName ERROR = ''ERROR ''"
| "LogLevelName FATAL = ''FATAL ''"

definition initLogLevel :: "(string \<Rightarrow> string option) \<Rightarrow> LogLevel" where
  "initLogLevel getenv =
     (if getenv ''DBDKY_LOG_TRACE'' \<noteq> None then TRACE
      else if getenv ''DBDKY_LOG_DEBUG'' \<noteq> None then DEBUG else INFO)"

record SourceFile =
  sf_data :: string
  sf_size :: int

text \<open>\<^verbatim>\<open>strrchr\<close>: the offset of the last occurrence of a character.\<close>

fun strrchr :: "string \<Rightarrow> char \<Rightarrow> nat option" where
  "strrchr [] c = None"
| "strrchr (x # xs) c =
     (case strrchr xs c of
        Some i \<Rightarrow> Some (Suc i)
      | None \<Rightarrow> if x = c then Some 0 else None)"

text \<open>The constructor from a string literal, whose array has one character more than \<open>arr\<close>.\<close>

definition SourceFile_array :: "string \<Rightarrow> SourceFile" where
  "SourceFile_array arr =
     (let n = int (length arr + 1) - 1 in
      case strrchr arr CHR ''/'' of
        Some slash \<Rightarrow> \<lparr>sf_data = drop (slash + 1) arr, sf_size = n - int (slash + 1)\<rparr>
      | None \<Rightarrow> \<lparr>sf_data = arr, sf_size = n\<rparr>)"

definition SourceFile_cstr :: "string \<Rightarrow> SourceFile" where
  "SourceFile_cstr filename =
     (let data = (case strrchr filename CHR ''/'' of
                    Some slash \<Rightarrow> drop (slash + 1) filename | None \<Rightarrow> filename)
      in \<lparr>sf_data = data, sf_size = int (length data)\<rparr>)"

section \<open>The log line\<close>

text \<open>\<^verbatim>\<open>T(str, len)\<close> and \<^verbatim>\<open>SourceFile\<close> are put by \<^verbatim>\<open>LogStream::append\<close>; a C string has its null.\<close>

definition put_T :: "LogStream \<Rightarrow> string \<Rightarrow> nat \<Rightarrow> LogStream outcome" where
  "put_T s str len = ls_append s (str @ [CHR 0x00]) len"

definition put_SourceFile :: "LogStream \<Rightarrow> SourceFile \<Rightarrow> LogStream outcome" where
  "put_SourceFile s v = ls_append s (sf_data v @ [CHR 0x00]) (size_of_int (sf_size v))"

record Impl =
  im_time :: Timestamp
  im_stream :: LogStream
  im_level :: LogLevel
  im_line :: "32 word"
  im_basename :: SourceFile

text \<open>The thread-local cache of the formatted second.\<close>

record time_cache =
  t_time :: string
  t_lastSecond :: int

definition formatTime :: "(int \<Rightarrow> tm) \<Rightarrow> Impl \<Rightarrow> time_cache \<Rightarrow> (Impl \<times> time_cache) outcome" where
  "formatTime gmtime_r im c =
     (let us = microSecondsSinceEpoch (im_time im);
          seconds = us sdiv 1000000;
          microseconds = int32 (us smod 1000000)
      in seq (if seconds \<noteq> t_lastSecond c then
                let tm_time = gmtime_r seconds;
                    txt = fmt_d 4 (tm_year tm_time + 1900) @ fmt_0d 2 (tm_mon tm_time + 1)
                          @ fmt_0d 2 (tm_mday tm_time) @ '' '' @ fmt_0d 2 (tm_hour tm_time) @ '':''
                          @ fmt_0d 2 (tm_min tm_time) @ '':'' @ fmt_0d 2 (tm_sec tm_time)
                in cassert (length txt = 17)
                     (Inr (c\<lparr>t_lastSecond := seconds, t_time := snprintf_buf 32 txt\<rparr>))
              else Inr c) (\<lambda>c.
         seq (Fmt_new (''.'' @ fmt_0d 6 microseconds @ ''Z '')) (\<lambda>us.
         cassert (fmt_length us = 9)
           (seq (put_T (im_stream im) (t_time c) 17) (\<lambda>s.
            seq (put_T s (butlast (fmt_buf us)) 9) (\<lambda>s.
              Inr (im\<lparr>im_stream := s\<rparr>, c)))))))"

text \<open>
  The environment of a logger: clock, thread id, \<^verbatim>\<open>errno\<close> texts and the library's conversions.
\<close>

record log_env =
  env_now :: "int \<times> int"
  env_gmtime_r :: "int \<Rightarrow> tm"
  env_gettid :: int
  env_strerror :: "32 word \<Rightarrow> string"
  env_fmt_g :: "real \<Rightarrow> string"

record log_thread =
  lt_locals :: thread_locals
  lt_cache :: time_cache

definition Impl_new ::
  "log_env \<Rightarrow> string \<Rightarrow> LogLevel \<Rightarrow> 32 word \<Rightarrow> SourceFile \<Rightarrow> 32 word \<Rightarrow> log_thread
   \<Rightarrow> (Impl \<times> log_thread) outcome" where
  "Impl_new env junk level savedErrno file line th =
     (let im = \<lparr>im_time = Timestamp_now (env_now env),
                im_stream = \<lparr>ls_buffer = FixedBuffer_new junk\<rparr>,
                im_level = level, im_line = line, im_basename = file\<rparr>
      in seq (formatTime (env_gmtime_r env) im (lt_cache th)) (\<lambda>(im, c).
         seq (CurrentThread_tid (env_gettid env) (lt_locals th)) (\<lambda>(l, _).
         seq (put_T (im_stream im) (t_tidString l) 6) (\<lambda>s.
         seq (put_T s (LogLevelName level) 6) (\<lambda>s.
         seq (if savedErrno \<noteq> 0
              then LogStream_puts (env_fmt_g env) s
                     [L_cstr (env_strerror env savedErrno), L_cstr '' (errno='', L_int savedErrno, L_cstr '') '']
              else Inr s) (\<lambda>s.
           Inr (im\<lparr>im_stream := s\<rparr>, \<lparr>lt_locals = l, lt_cache = c\<rparr>)))))))"

definition Impl_finish :: "log_env \<Rightarrow> Impl \<Rightarrow> Impl outcome" where
  "Impl_finish env im =
     seq (LogStream_put (env_fmt_g env) (im_stream im) (L_cstr '' - '')) (\<lambda>s.
     seq (put_SourceFile s (im_basename im)) (\<lambda>s.
     seq (LogStream_puts (env_fmt_g env) s [L_cstr '':'', L_int (im_line im), L_char (CHR 0x0A)]) (\<lambda>s.
       Inr (im\<lparr>im_stream := s\<rparr>))))"

section \<open>Logger\<close>

text \<open>The four constructors.\<close>

definition Logger_info where
  "Logger_info env junk file line th = Impl_new env junk INFO 0 file line th"

definition Logger_level where
  "Logger_level env junk file line level th = Impl_new env junk level 0 file line th"

definition Logger_func ::
  "log_env \<Rightarrow> string \<Rightarrow> SourceFile \<Rightarrow> 32 word \<Rightarrow> LogLevel \<Rightarrow> string \<Rightarrow> log_thread
   \<Rightarrow> (Impl \<times> log_thread) outcome" where
  "Logger_func env junk file line level func th =
     seq (Impl_new env junk level 0 file line th) (\<lambda>(im, th).
     seq (LogStream_puts (env_fmt_g env) (im_stream im) [L_cstr func, L_char CHR '' '']) (\<lambda>s.
       Inr (im\<lparr>im_stream := s\<rparr>, th)))"

definition Logger_sys where
  "Logger_sys env junk file line toAbort errno th =
     Impl_new env junk (if toAbort then FATAL else ERROR) errno file line th"

text \<open>What the user streams into \<^verbatim>\<open>stream()\<close> between construction and destruction.\<close>

definition Logger_stream :: "log_env \<Rightarrow> Impl \<Rightarrow> log_item list \<Rightarrow> Impl outcome" where
  "Logger_stream env im its =
     seq (LogStream_puts (env_fmt_g env) (im_stream im) its) (\<lambda>s. Inr (im\<lparr>im_stream := s\<rparr>))"

text \<open>
  The output: the global functions \<^verbatim>\<open>g_output\<close> and \<^verbatim>\<open>g_flush\<close> as the list of what they were called
  with.  A fatal message is flushed before the process aborts.
\<close>

datatype log_effect = Output string | Flush | Abort

definition Logger_destroy :: "log_env \<Rightarrow> Impl \<Rightarrow> log_effect list outcome" where
  "Logger_destroy env im =
     seq (Impl_finish env im) (\<lambda>im.
     seq (asString (ls_buffer (im_stream im))) (\<lambda>msg.
       Inr (Output msg # (if im_level im = FATAL then [Flush, Abort] else []))))"

text \<open>The macros: \<^verbatim>\<open>LOG_TRACE\<close>, \<^verbatim>\<open>LOG_DEBUG\<close> and \<^verbatim>\<open>LOG_INFO\<close> test the global level first.\<close>

datatype log_macro = LOG_TRACE | LOG_DEBUG | LOG_INFO | LOG_WARN | LOG_ERROR | LOG_FATAL
  | LOG_SYSERR | LOG_SYSFATAL

fun macro_level :: "log_macro \<Rightarrow> LogLevel" where
  "macro_level LOG_TRACE = TRACE"
| "macro_level LOG_DEBUG = DEBUG"
| "macro_level LOG_INFO = INFO"
| "macro_level LOG_WARN = WARN"
| "macro_level LOG_ERROR = ERROR"
| "macro_level LOG_FATAL = FATAL"
| "macro_level LOG_SYSERR = ERROR"
| "macro_level LOG_SYSFATAL = FATAL"

definition macro_enabled :: "LogLevel \<Rightarrow> log_macro \<Rightarrow> bool" where
  "macro_enabled g m =
     (case m of
        LOG_TRACE \<Rightarrow> level_number g \<le> level_number TRACE
      | LOG_DEBUG \<Rightarrow> level_number g \<le> level_number DEBUG
      | LOG_INFO \<Rightarrow> level_number g \<le> level_number INFO
      | _ \<Rightarrow> True)"

definition macro_construct ::
  "log_env \<Rightarrow> string \<Rightarrow> log_macro \<Rightarrow> string \<Rightarrow> 32 word \<Rightarrow> string \<Rightarrow> 32 word \<Rightarrow> log_thread
   \<Rightarrow> (Impl \<times> log_thread) outcome" where
  "macro_construct env junk m file line func errno th =
     (let sf = SourceFile_array file in
      case m of
        LOG_TRACE \<Rightarrow> Logger_func env junk sf line TRACE func th
      | LOG_DEBUG \<Rightarrow> Logger_func env junk sf line DEBUG func th
      | LOG_INFO \<Rightarrow> Logger_info env junk sf line th
      | LOG_WARN \<Rightarrow> Logger_level env junk sf line WARN th
      | LOG_ERROR \<Rightarrow> Logger_level env junk sf line ERROR th
      | LOG_FATAL \<Rightarrow> Logger_level env junk sf line FATAL th
      | LOG_SYSERR \<Rightarrow> Logger_sys env junk sf line False errno th
      | LOG_SYSFATAL \<Rightarrow> Logger_sys env junk sf line True errno th)"

definition log_statement ::
  "log_env \<Rightarrow> LogLevel \<Rightarrow> string \<Rightarrow> log_macro \<Rightarrow> string \<Rightarrow> 32 word \<Rightarrow> string \<Rightarrow> 32 word \<Rightarrow> log_item list
   \<Rightarrow> log_thread \<Rightarrow> (log_effect list \<times> log_thread) outcome" where
  "log_statement env g junk m file line func errno its th =
     (if macro_enabled g m then
        seq (macro_construct env junk m file line func errno th) (\<lambda>(im, th).
        seq (Logger_stream env im its) (\<lambda>im.
        seq (Logger_destroy env im) (\<lambda>eff. Inr (eff, th))))
      else Inr ([], th))"

subsection \<open>The global settings\<close>

text \<open>
  The level and the two functions that every logger uses, which act on some state \<open>'s\<close>.  At the start they
  write to \<^verbatim>\<open>stdout\<close>: the text written there, and how much of it is known to have left the stream's buffer.
  \<open>fw\<close> says how many characters \<^verbatim>\<open>fwrite\<close> takes.
\<close>

record 's log_globals =
  g_logLevel :: LogLevel
  g_output :: "string \<Rightarrow> 's \<Rightarrow> 's outcome"
  g_flush :: "'s \<Rightarrow> 's outcome"

record std_out =
  out_text :: string
  out_flushed :: nat

definition defaultOutput :: "(nat \<Rightarrow> nat) \<Rightarrow> string \<Rightarrow> std_out \<Rightarrow> std_out outcome" where
  "defaultOutput fw msg out = Inr (out\<lparr>out_text := out_text out @ take (fw (length msg)) msg\<rparr>)"

definition defaultFlush :: "std_out \<Rightarrow> std_out outcome" where
  "defaultFlush out = Inr (out\<lparr>out_flushed := length (out_text out)\<rparr>)"

definition initial_globals :: "(string \<Rightarrow> string option) \<Rightarrow> (nat \<Rightarrow> nat) \<Rightarrow> std_out log_globals" where
  "initial_globals getenv fw =
     \<lparr>g_logLevel = initLogLevel getenv, g_output = defaultOutput fw, g_flush = defaultFlush\<rparr>"

definition Logger_logLevel :: "'s log_globals \<Rightarrow> LogLevel" where
  "Logger_logLevel g = g_logLevel g"

definition setLogLevel :: "LogLevel \<Rightarrow> 's log_globals \<Rightarrow> 's log_globals" where
  "setLogLevel level g = g\<lparr>g_logLevel := level\<rparr>"

definition setOutput :: "(string \<Rightarrow> 's \<Rightarrow> 's outcome) \<Rightarrow> 's log_globals \<Rightarrow> 's log_globals" where
  "setOutput out g = g\<lparr>g_output := out\<rparr>"

definition setFlush :: "('s \<Rightarrow> 's outcome) \<Rightarrow> 's log_globals \<Rightarrow> 's log_globals" where
  "setFlush flush g = g\<lparr>g_flush := flush\<rparr>"

text \<open>The calls of a destructor, done; the flag says that the process aborted.\<close>

fun perform :: "'s log_globals \<Rightarrow> log_effect list \<Rightarrow> 's \<Rightarrow> ('s \<times> bool) outcome" where
  "perform g [] s = Inr (s, False)"
| "perform g (Output msg # es) s = seq (g_output g msg s) (perform g es)"
| "perform g (Flush # es) s = seq (g_flush g s) (perform g es)"
| "perform g (Abort # es) s = Inr (s, True)"

definition CheckNotNull ::
  "log_env \<Rightarrow> string \<Rightarrow> SourceFile \<Rightarrow> 32 word \<Rightarrow> string \<Rightarrow> 'p option \<Rightarrow> log_thread
   \<Rightarrow> (log_effect list \<times> 'p option) outcome" where
  "CheckNotNull env junk sf line names ptr th =
     (if ptr = None then
        seq (Logger_level env junk sf line FATAL th) (\<lambda>(im, th).
        seq (Logger_stream env im [L_cstr names]) (\<lambda>im.
        seq (Logger_destroy env im) (\<lambda>eff. Inr (eff, ptr))))
      else Inr ([], ptr))"

section \<open>The base name\<close>

lemma strrchr_None: "strrchr xs c = None \<longleftrightarrow> c \<notin> set xs"
  by (induction xs) (auto split: option.splits)

lemma strrchr_Some: "strrchr xs c = Some i \<Longrightarrow> i < length xs \<and> xs ! i = c \<and> c \<notin> set (drop (Suc i) xs)"
proof (induction xs arbitrary: i)
  case (Cons x xs)
  then show ?case
    by (cases "strrchr xs c") (auto simp: strrchr_None split: if_splits)
qed simp

text \<open>
  Both constructors of \<^verbatim>\<open>SourceFile\<close> keep exactly the base name of a path: what follows its last
  slash, or the whole path when there is none, with its exact length.
\<close>

theorem source_file_basename:
  "SourceFile_array path = SourceFile_cstr path
   \<and> sf_size (SourceFile_cstr path) = int (length (sf_data (SourceFile_cstr path)))
   \<and> CHR ''/'' \<notin> set (sf_data (SourceFile_cstr path))
   \<and> (\<exists>dir. path = dir @ sf_data (SourceFile_cstr path) \<and> (dir = [] \<or> last dir = CHR ''/''))"
proof (cases "strrchr path CHR ''/''")
  case None
  then show ?thesis
    using strrchr_None [of path "CHR ''/''", THEN iffD1, OF None]
    by (simp add: None SourceFile_array_def SourceFile_cstr_def Let_def)
next
  case (Some i)
  have i: "i < length path" "path ! i = CHR ''/''" "CHR ''/'' \<notin> set (drop (Suc i) path)"
    using strrchr_Some [OF Some] by auto
  then have "path = take (Suc i) path @ drop (Suc i) path" "last (take (Suc i) path) = CHR ''/''"
    using id_take_nth_drop [of i path] by (simp_all add: take_Suc_conv_app_nth)
  then have "\<exists>dir. path = dir @ drop (Suc i) path \<and> (dir = [] \<or> last dir = CHR ''/'')"
    by blast
  with Some i show ?thesis
    by (auto simp: SourceFile_array_def SourceFile_cstr_def Let_def of_nat_diff)
qed

section \<open>The layout of a line\<close>

definition time_text :: "tm \<Rightarrow> string" where
  "time_text t =
     fmt_d 4 (tm_year t + 1900) @ fmt_0d 2 (tm_mon t + 1) @ fmt_0d 2 (tm_mday t) @ '' ''
     @ fmt_0d 2 (tm_hour t) @ '':'' @ fmt_0d 2 (tm_min t) @ '':'' @ fmt_0d 2 (tm_sec t)"

definition tm_ok :: "tm \<Rightarrow> bool" where
  "tm_ok t \<longleftrightarrow> -1900 \<le> tm_year t \<and> tm_year t < 8100 \<and> 0 \<le> tm_mon t \<and> tm_mon t < 12
     \<and> 0 \<le> tm_mday t \<and> tm_mday t < 100 \<and> 0 \<le> tm_hour t \<and> tm_hour t < 100
     \<and> 0 \<le> tm_min t \<and> tm_min t < 100 \<and> 0 \<le> tm_sec t \<and> tm_sec t < 100"

definition env_seconds :: "log_env \<Rightarrow> int" where
  "env_seconds env = (fst (env_now env) * 1000000 + snd (env_now env)) div 1000000"

definition env_micros :: "log_env \<Rightarrow> int" where
  "env_micros env = (fst (env_now env) * 1000000 + snd (env_now env)) mod 1000000"

definition env_ok :: "log_env \<Rightarrow> log_thread \<Rightarrow> bool" where
  "env_ok env th \<longleftrightarrow>
     0 \<le> fst (env_now env) * 1000000 + snd (env_now env)
     \<and> tm_ok (env_gmtime_r env (env_seconds env))
     \<and> (t_lastSecond (lt_cache th) = env_seconds env \<longrightarrow>
          t_time (lt_cache th) = time_text (env_gmtime_r env (env_seconds env)))
     \<and> 0 < env_gettid env \<and> env_gettid env < 100000
     \<and> (t_cachedTid (lt_locals th) \<noteq> 0 \<longrightarrow>
          t_tidString (lt_locals th) = fmt_d 5 (env_gettid env) @ '' '')
     \<and> (\<forall>v. length (env_fmt_g env v) < 32)"

text \<open>What a thread keeps from one statement to the next; it does not depend on the clock.\<close>

definition thread_ok :: "log_env \<Rightarrow> log_thread \<Rightarrow> bool" where
  "thread_ok env th \<longleftrightarrow>
     (0 < t_lastSecond (lt_cache th) \<longrightarrow>
        t_time (lt_cache th) = time_text (env_gmtime_r env (t_lastSecond (lt_cache th))))
     \<and> (t_cachedTid (lt_locals th) \<noteq> 0 \<longrightarrow>
          t_tidString (lt_locals th) = fmt_d 5 (env_gettid env) @ '' '')"

lemma env_ok_thread:
  assumes "thread_ok env th" "0 < env_seconds env" "tm_ok (env_gmtime_r env (env_seconds env))"
    and "0 < env_gettid env" "env_gettid env < 100000" "\<forall>v. length (env_fmt_g env v) < 32"
  shows "env_ok env th"
  using assms by (auto simp: env_ok_def thread_ok_def env_seconds_def)

text \<open>The first 38 characters: time, thread and level, six characters each for the last two.\<close>

definition line_head :: "log_env \<Rightarrow> LogLevel \<Rightarrow> string" where
  "line_head env level =
     time_text (env_gmtime_r env (env_seconds env)) @ ''.'' @ fmt_0d 6 (env_micros env) @ ''Z ''
     @ fmt_d 5 (env_gettid env) @ '' '' @ take 6 (LogLevelName level @ [CHR 0x00])"

lemma length_fmt_d: "0 \<le> v \<Longrightarrow> v < 10 ^ w \<Longrightarrow> 0 < w \<Longrightarrow> length (fmt_d w v) = w"
  using length_dec_nat [of "nat v" w]
  by (simp add: fmt_d_def length_pad_left dec_int_def nat_less_iff max_def)

lemma length_time_text: "tm_ok t \<Longrightarrow> length (time_text t) = 17"
  by (simp add: time_text_def tm_ok_def length_fmt_d length_fmt_0d)

lemma put_T_fits:
  assumes "stream_inv s" "length t = n" "length (stream_text s) + n < kSmallBuffer"
    "\<exists>z. str @ [CHR 0x00] = t @ z"
  shows "\<exists>s'. put_T s str n = Inr s' \<and> stream_inv s' \<and> stream_text s' = stream_text s @ t"
proof -
  obtain z where "str @ [CHR 0x00] = t @ z"
    using assms(4) by blast
  then show ?thesis
    using puts_whole_fits [OF ls_append_text [OF assms(1), of t z]] assms(2,3) by (simp add: put_T_def)
qed

lemmas put_T_exact = put_T_fits [OF _ _ _ exI, OF _ _ _ refl]

lemma level_name_six: "\<exists>z. LogLevelName l @ [CHR 0x00] = take 6 (LogLevelName l @ [CHR 0x00]) @ z"
  "length (take 6 (LogLevelName l @ [CHR 0x00])) = 6"
  by (cases l; simp)+

lemma formatTime_text:
  assumes ok: "env_ok env th" and s: "stream_inv (im_stream im)" "stream_text (im_stream im) = []"
    and t: "im_time im = Timestamp_now (env_now env)"
  shows "\<exists>s' c'. formatTime (env_gmtime_r env) im (lt_cache th) = Inr (im\<lparr>im_stream := s'\<rparr>, c')
    \<and> stream_inv s' \<and> stream_text s'
      = time_text (env_gmtime_r env (env_seconds env)) @ ''.'' @ fmt_0d 6 (env_micros env) @ ''Z ''
    \<and> t_lastSecond c' = env_seconds env \<and> t_time c' = time_text (env_gmtime_r env (env_seconds env))"
proof -
  let ?txt = "time_text (env_gmtime_r env (env_seconds env))"
  let ?us = "''.'' @ fmt_0d 6 (env_micros env) @ ''Z ''"
  have us: "microSecondsSinceEpoch (im_time im) sdiv 1000000 = env_seconds env"
      "int32 (microSecondsSinceEpoch (im_time im) smod 1000000) = env_micros env"
    using ok unfolding t env_ok_def env_seconds_def env_micros_def
    by (simp_all add: Timestamp_now_def Timestamp_of_def kMicroSecondsPerSecond_def trunc_simps
        int32_small pos_mod_bound [THEN less_trans])
  have lt: "length ?txt = 17"
    using ok length_time_text by (simp add: env_ok_def)
  have lu: "length ?us = 9"
    by (simp add: length_fmt_0d env_micros_def)
  define c' where "c' = (if env_seconds env \<noteq> t_lastSecond (lt_cache th)
    then (lt_cache th)\<lparr>t_lastSecond := env_seconds env, t_time := ?txt\<rparr> else lt_cache th)"
  have c': "t_lastSecond c' = env_seconds env" "t_time c' = ?txt"
    using ok by (auto simp: c'_def env_ok_def)
  have cache: "(if env_seconds env \<noteq> t_lastSecond (lt_cache th) then
      cassert (length ?txt = 17) (Inr ((lt_cache th)\<lparr>t_lastSecond := env_seconds env,
        t_time := snprintf_buf 32 ?txt\<rparr>)) else Inr (lt_cache th)) = Inr c'"
    using lt by (simp add: c'_def snprintf_buf_def)
  have fmt: "Fmt_new ?us = Inr \<lparr>fmt_buf = ?us @ [CHR 0x00], fmt_length = 9\<rparr>"
    using lu by (simp add: Fmt_new_def snprintf_buf_def)
  obtain s1 where s1: "put_T (im_stream im) ?txt 17 = Inr s1" "stream_inv s1" "stream_text s1 = ?txt"
    using put_T_exact [OF s(1) lt] s(2) by (auto simp: kSmallBuffer_def)
  obtain s2 where s2: "put_T s1 ?us 9 = Inr s2" "stream_inv s2" "stream_text s2 = ?txt @ ?us"
    using put_T_exact [OF s1(2) lu] s1(3) lt by (auto simp: kSmallBuffer_def)
  have "formatTime (env_gmtime_r env) im (lt_cache th) = Inr (im\<lparr>im_stream := s2\<rparr>, c')"
    unfolding formatTime_def Let_def us time_text_def [symmetric] cache seq_Inr fmt
    using c' s1(1) s2(1) by (simp add: butlast_append)
  then show ?thesis using s2 c' by auto
qed

lemma fresh_stream:
  assumes "length junk = kSmallBuffer"
  shows "stream_inv \<lparr>ls_buffer = FixedBuffer_new junk\<rparr>" "stream_text \<lparr>ls_buffer = FixedBuffer_new junk\<rparr> = []"
  using assms by (simp_all add: stream_inv_def stream_text_def fb_inv_def fb_contents_def
      FixedBuffer_new_def setCookie_def kSmallBuffer_def)

lemma tid_text:
  assumes "env_ok env th"
  shows "\<exists>l v. CurrentThread_tid (env_gettid env) (lt_locals th) = Inr (l, v)
              \<and> t_tidString l = fmt_d 5 (env_gettid env) @ '' ''"
    and "length (fmt_d 5 (env_gettid env) @ '' '') = 6"
proof -
  show len: "length (fmt_d 5 (env_gettid env) @ '' '') = 6"
    using assms by (simp add: env_ok_def length_fmt_d)
  show "\<exists>l v. CurrentThread_tid (env_gettid env) (lt_locals th) = Inr (l, v)
              \<and> t_tidString l = fmt_d 5 (env_gettid env) @ '' ''"
    using assms len by (auto simp: CurrentThread_tid_def cacheTid_def Let_def env_ok_def snprintf_buf_def)
qed

lemma Impl_new_text:
  assumes ok: "env_ok env th" and junk: "length junk = kSmallBuffer"
  shows "\<exists>im th'. Impl_new env junk level 0 file line th = Inr (im, th')
    \<and> stream_inv (im_stream im) \<and> stream_text (im_stream im) = line_head env level
    \<and> im_level im = level \<and> im_line im = line \<and> im_basename im = file \<and> thread_ok env th'"
proof -
  let ?im = "\<lparr>im_time = Timestamp_now (env_now env), im_stream = \<lparr>ls_buffer = FixedBuffer_new junk\<rparr>,
     im_level = level, im_line = line, im_basename = file\<rparr>"
  let ?time = "time_text (env_gmtime_r env (env_seconds env)) @ ''.'' @ fmt_0d 6 (env_micros env) @ ''Z ''"
  obtain s c where f: "formatTime (env_gmtime_r env) ?im (lt_cache th) = Inr (?im\<lparr>im_stream := s\<rparr>, c)"
      "stream_inv s" "stream_text s = ?time" "t_lastSecond c = env_seconds env"
      "t_time c = time_text (env_gmtime_r env (env_seconds env))"
    using formatTime_text [OF ok, of ?im] fresh_stream [OF junk] by auto
  have "tm_ok (env_gmtime_r env (env_seconds env))"
    using ok by (simp add: env_ok_def)
  then have lt: "length (stream_text s) = 26"
    unfolding f(3) by (simp add: length_time_text length_fmt_0d env_micros_def)
  obtain l v where l: "CurrentThread_tid (env_gettid env) (lt_locals th) = Inr (l, v)"
      "t_tidString l = fmt_d 5 (env_gettid env) @ '' ''"
    using tid_text(1) [OF ok] by auto
  obtain s1 where s1: "put_T s (t_tidString l) 6 = Inr s1" "stream_inv s1"
      "stream_text s1 = stream_text s @ fmt_d 5 (env_gettid env) @ '' ''"
    using put_T_exact [OF f(2) tid_text(2) [OF ok]] lt l(2) by (auto simp: kSmallBuffer_def)
  obtain s2 where s2: "put_T s1 (LogLevelName level) 6 = Inr s2" "stream_inv s2"
      "stream_text s2 = stream_text s1 @ take 6 (LogLevelName level @ [CHR 0x00])"
    using put_T_fits [OF s1(2) level_name_six(2) _ level_name_six(1)] lt tid_text(2) [OF ok] s1(3)
    by (auto simp: kSmallBuffer_def)
  have "Impl_new env junk level 0 file line th
        = Inr (?im\<lparr>im_stream := s2\<rparr>, \<lparr>lt_locals = l, lt_cache = c\<rparr>)"
    using f(1) l(1) s1(1) s2(1) by (simp add: Impl_new_def Let_def)
  then show ?thesis
    using s2 s1(3) f(3-5) l(2) by (simp add: line_head_def thread_ok_def)
qed

definition line_tail :: "Impl \<Rightarrow> string" where
  "line_tail im = '' - '' @ sf_data (im_basename im) @ '':'' @ dec_int (sint (im_line im)) @ [CHR 0x0A]"

lemma Impl_finish_text:
  assumes s: "stream_inv (im_stream im)" and g: "\<forall>v. length (env_fmt_g env v) < 32"
    and sf: "sf_size (im_basename im) = int (length (sf_data (im_basename im)))"
    and room: "length (stream_text (im_stream im)) + length (line_tail im) + 32 \<le> kSmallBuffer"
  shows "\<exists>im'. Impl_finish env im = Inr im' \<and> stream_inv (im_stream im')
    \<and> stream_text (im_stream im') = stream_text (im_stream im) @ line_tail im
    \<and> im_level im' = im_level im"
proof -
  let ?g = "env_fmt_g env" and ?base = "sf_data (im_basename im)"
  obtain s1 where s1: "LogStream_puts ?g (im_stream im) [L_cstr '' - ''] = Inr s1" "stream_inv s1"
      "stream_text s1 = stream_text (im_stream im) @ '' - ''"
    using LogStream_puts_fit [OF s _ g, of "[L_cstr '' - '']"] room by (auto simp: line_tail_def)
  have "length ?base < kSmallBuffer"
    using room by (simp add: line_tail_def)
  then have size: "size_of_int (sf_size (im_basename im)) = length ?base"
    unfolding sf by (intro size_of_int_nat) (simp add: kSmallBuffer_def)
  obtain s2 where s2: "put_SourceFile s1 (im_basename im) = Inr s2" "stream_inv s2"
      "stream_text s2 = stream_text s1 @ ?base"
    using puts_whole_fits [OF ls_append_text [OF s1(2), of ?base "[CHR 0x00]"]] room s1(3)
    by (auto simp: put_SourceFile_def size line_tail_def)
  obtain s3 where s3: "LogStream_puts ?g s2 [L_cstr '':'', L_int (im_line im), L_char (CHR 0x0A)] = Inr s3"
      "stream_inv s3" "stream_text s3 = stream_text s2 @ '':'' @ dec_int (sint (im_line im)) @ [CHR 0x0A]"
    using LogStream_puts_fit [OF s2(2) _ g, of "[L_cstr '':'', L_int (im_line im), L_char (CHR 0x0A)]"]
      room s2(3) s1(3) by (auto simp: line_tail_def)
  have "Impl_finish env im = Inr (im\<lparr>im_stream := s3\<rparr>)"
    using s1(1) s2(1) s3(1) by (auto simp: Impl_finish_def seq_eq_Inr)
  then show ?thesis
    using s1(3) s2(3) s3(2,3) by (simp add: line_tail_def)
qed

lemma asString_text: "stream_inv s \<Longrightarrow> asString (ls_buffer s) = Inr (stream_text s)"
proof -
  assume s: "stream_inv s"
  then have c: "fb_cur (ls_buffer s) < 4000" "length (fb_data (ls_buffer s)) = 4000"
    by (auto simp: stream_inv_def fb_inv_def kSmallBuffer_def)
  then have "size_of_int (fb_length (ls_buffer s)) = fb_cur (ls_buffer s)"
    by (simp add: fb_length_def int32_small size_of_int_nat)
  then show ?thesis
    using c by (simp add: asString_def mem_read_def stream_text_def fb_contents_def)
qed

text \<open>The line of a statement.\<close>

definition log_line :: "log_env \<Rightarrow> log_macro \<Rightarrow> string \<Rightarrow> 32 word \<Rightarrow> log_item list \<Rightarrow> string" where
  "log_line env m path lno its =
     line_head env (macro_level m) @ concat (map (item_text (env_fmt_g env)) its)
     @ '' - '' @ sf_data (SourceFile_cstr path) @ '':'' @ dec_int (sint lno) @ [CHR 0x0A]"

lemma log_statement_text:
  assumes ok: "env_ok env th" and junk: "length junk = kSmallBuffer"
    and m: "m \<in> {LOG_INFO, LOG_WARN, LOG_ERROR, LOG_FATAL}"
    and items: "\<forall>it\<in>set its. item_ok it"
    and line: "txt = log_line env m file lno its"
    and room: "length txt + 32 \<le> kSmallBuffer"
  shows "if macro_enabled g m
    then \<exists>th'. log_statement env g junk m file lno func errno its th
               = Inr (Output txt # (if m = LOG_FATAL then [Flush, Abort] else []), th') \<and> thread_ok env th'
    else log_statement env g junk m file lno func errno its th = Inr ([], th)"
proof (cases "macro_enabled g m")
  case True
  let ?g = "env_fmt_g env" and ?sf = "SourceFile_array file" and ?lv = "macro_level m"
  have g: "\<forall>v. length (?g v) < 32"
    using ok by (simp add: env_ok_def)
  have sf: "sf_data ?sf = sf_data (SourceFile_cstr file)" "sf_size ?sf = int (length (sf_data ?sf))"
    by (auto simp: SourceFile_array_def SourceFile_cstr_def Let_def of_nat_diff
        dest: strrchr_Some split: option.split)
  have new: "macro_construct env junk m file lno func errno th = Impl_new env junk ?lv 0 ?sf lno th"
    using m by (auto simp: macro_construct_def Let_def Logger_info_def Logger_level_def)
  obtain im th' where im: "Impl_new env junk ?lv 0 ?sf lno th = Inr (im, th')"
      "stream_inv (im_stream im)" "stream_text (im_stream im) = line_head env ?lv"
      "im_level im = ?lv" "im_line im = lno" "im_basename im = ?sf" "thread_ok env th'"
    using Impl_new_text [OF ok junk] by blast
  obtain s where s: "LogStream_puts ?g (im_stream im) its = Inr s" "stream_inv s"
      "stream_text s = line_head env ?lv @ concat (map (item_text ?g) its)"
    using LogStream_puts_fit [OF im(2) items g] im(3) room by (auto simp: line log_line_def)
  obtain im' where im': "Impl_finish env (im\<lparr>im_stream := s\<rparr>) = Inr im'" "stream_inv (im_stream im')"
      "stream_text (im_stream im') = txt" "im_level im' = ?lv"
    using Impl_finish_text [of "im\<lparr>im_stream := s\<rparr>" env, OF _ g] s im(4-6) sf room
    by (auto simp: line_tail_def line log_line_def)
  have fatal: "?lv = FATAL \<longleftrightarrow> m = LOG_FATAL"
    using m by auto
  show ?thesis
    using True im(1,7) s(1) im' new asString_text [OF im'(2)] fatal
    by (simp add: log_statement_def Logger_stream_def Logger_destroy_def)
qed (simp add: log_statement_def)

text \<open>
  C25: A \<^verbatim>\<open>LOG_INFO\<close>, \<^verbatim>\<open>LOG_WARN\<close>, \<^verbatim>\<open>LOG_ERROR\<close> or \<^verbatim>\<open>LOG_FATAL\<close> statement whose line fits the buffer
  hands exactly one line to the output function: time, thread and level in 38 characters, what the
  statement streams, the base name of the file, the line number and a newline.  A fatal one is
  flushed and aborts, the others do neither; a statement below the global level outputs nothing.
  (A line fits when it leaves 32 of the 4000 characters free, as \<^verbatim>\<open>formatInteger\<close> asks for; the thread id is
  below 100000, the limit of \<open>cacheTid_five_digits\<close>; the clock is not before 1970 and \<^verbatim>\<open>gmtime_r\<close> fills its
  fields with two-digit numbers and a four-digit year; and what the thread has cached of its id and of the
  present second are the texts that earlier statements put there.)
\<close>

theorem log_statement_line:
  assumes ok: "env_ok env th" and junk: "length junk = kSmallBuffer"
    and m: "m \<in> {LOG_INFO, LOG_WARN, LOG_ERROR, LOG_FATAL}"
    and items: "\<forall>it\<in>set its. item_ok it"
    and line: "txt = line_head env (macro_level m) @ concat (map (item_text (env_fmt_g env)) its)
                @ '' - '' @ sf_data (SourceFile_cstr file) @ '':'' @ dec_int (sint lno) @ [CHR 0x0A]"
    and room: "length txt + 32 \<le> kSmallBuffer"
  shows "if macro_enabled g m
    then \<exists>th'. log_statement env g junk m file lno func errno its th
               = Inr (Output txt # (if m = LOG_FATAL then [Flush, Abort] else []), th')
    else log_statement env g junk m file lno func errno its th = Inr ([], th)"
  using log_statement_text [OF ok junk m items line [folded log_line_def] room, of g func errno]
  by (auto split: if_splits)

text \<open>
  With the functions set at the start and a stream that takes everything, the line of a statement is
  appended to \<^verbatim>\<open>stdout\<close>; a fatal one has left the buffer when the process aborts.  The level can be
  changed without touching the functions.
\<close>

lemma statement_on_stdout:
  assumes "env_ok env th" "length junk = kSmallBuffer" "m \<in> {LOG_INFO, LOG_WARN, LOG_ERROR, LOG_FATAL}"
    and "\<forall>it\<in>set its. item_ok it" "length (log_line env m path lno its) + 32 \<le> kSmallBuffer"
    and "\<And>n. fw n = n" "gl = setLogLevel level (initial_globals getenv fw)" "macro_enabled level m"
  shows "\<exists>es th' out'. log_statement env (Logger_logLevel gl) junk m path lno func errno its th = Inr (es, th')
    \<and> perform gl es out = Inr (out', m = LOG_FATAL) \<and> out_text out' = out_text out @ log_line env m path lno its
    \<and> (m = LOG_FATAL \<longrightarrow> out_flushed out' = length (out_text out'))"
proof -
  obtain th' where "log_statement env level junk m path lno func errno its th
      = Inr (Output (log_line env m path lno its) # (if m = LOG_FATAL then [Flush, Abort] else []), th')"
    using log_statement_text [OF assms(1-4) refl assms(5), of level func errno] assms(8) by auto
  then show ?thesis
    using assms(6,7)
    by (auto simp: Logger_logLevel_def setLogLevel_def initial_globals_def defaultOutput_def defaultFlush_def)
qed

text \<open>A concrete environment for the witness.\<close>

definition env0 :: log_env where
  "env0 = \<lparr>env_now = (0, 5),
     env_gmtime_r = (\<lambda>_. \<lparr>tm_sec = 0, tm_min = 0, tm_hour = 0, tm_mday = 1, tm_mon = 0, tm_year = 70,
       tm_wday = 4, tm_yday = 0, tm_isdst = 0, tm_gmtoff = 0, tm_zone = []\<rparr>),
     env_gettid = 1, env_strerror = (\<lambda>_. ''error''), env_fmt_g = (\<lambda>_. ''1'')\<rparr>"

definition thread0 :: log_thread where
  "thread0 = \<lparr>lt_locals = initial_locals, lt_cache = \<lparr>t_time = [], t_lastSecond = -1\<rparr>\<rparr>"

theorem log_statement_line_witness:
  "\<exists>th'. log_statement env0 INFO (replicate kSmallBuffer CHR ''?'') LOG_INFO ''src/a.cpp'' 7 ''f'' 0
           [L_cstr ''hi''] thread0
         = Inr ([Output (''19700101 00:00:00.000005Z     1 INFO '' @ [CHR 0x00] @ ''hi - a.cpp:7'' @ [CHR 0x0A])],
                th')"
proof -
  let ?txt = "''19700101 00:00:00.000005Z     1 INFO '' @ [CHR 0x00] @ ''hi - a.cpp:7'' @ [CHR 0x0A]"
  have secs: "env_seconds env0 = 0" "env_micros env0 = 5"
    by (simp_all add: env_seconds_def env_micros_def env0_def)
  have tid: "env_gettid env0 = 1"
    by (simp add: env0_def)
  have ok: "env_ok env0 thread0"
    by (simp add: env_ok_def secs) (simp add: env0_def thread0_def initial_locals_def tm_ok_def)
  have "time_text (env_gmtime_r env0 0) = ''19700101 00:00:00''"
    unfolding env0_def by code_simp
  moreover have "fmt_0d 6 5 = ''000005''" "fmt_d 5 1 = ''    1''" "dec_int (sint (7 :: 32 word)) = ''7''"
      "sf_data (SourceFile_cstr ''src/a.cpp'') = ''a.cpp''"
    by code_simp+
  ultimately have eq: "?txt = line_head env0 (macro_level LOG_INFO)
      @ concat (map (item_text (env_fmt_g env0)) [L_cstr ''hi''])
      @ '' - '' @ sf_data (SourceFile_cstr ''src/a.cpp'') @ '':'' @ dec_int (sint (7 :: 32 word)) @ [CHR 0x0A]"
    by (simp add: line_head_def secs tid)
  show ?thesis
    using log_statement_line [OF ok _ _ _ eq, of "replicate kSmallBuffer CHR ''?''" INFO "''f''" 0]
    by (simp add: macro_enabled_def kSmallBuffer_def)
qed

end
