(* ===== verification/Log_File.thy ===== *)
theory Log_File
  imports Calendar
begin

text \<open>
  \<^verbatim>\<open>src/src/utils/LogFile.h\<close> and \<^verbatim>\<open>LogFile.cpp\<close>: the file that log lines are appended to and its
  rolling.  \<^verbatim>\<open>fwrite_unlocked\<close> is a parameter: how many of the requested bytes the \<open>k\<close>-th call
  accepts.  The clock, the host name, the process id and the success of \<^verbatim>\<open>fopen\<close> are parameters
  too; the mutex is taken around whole operations and is not part of this state.
\<close>

section \<open>LogFile::File\<close>

text \<open>
  What was written through one \<^verbatim>\<open>FILE\<close> (the stream's own buffering does not change it), the number
  of \<^verbatim>\<open>fwrite\<close> calls made, the flushes, and the counter \<^verbatim>\<open>writtenBytes_\<close>.
\<close>

record File =
  f_name :: string
  f_out :: string
  f_calls :: nat
  f_flushes :: nat
  writtenBytes :: nat

type_synonym fwrite = "nat \<Rightarrow> nat \<Rightarrow> nat"

definition File_new :: "(string \<Rightarrow> bool) \<Rightarrow> string \<Rightarrow> File outcome" where
  "File_new fopen filename =
     cassert (fopen filename)
       (Inr \<lparr>f_name = filename, f_out = [], f_calls = 0, f_flushes = 0, writtenBytes = 0\<rparr>)"

definition file_write :: "fwrite \<Rightarrow> string \<Rightarrow> nat \<Rightarrow> nat \<Rightarrow> File \<Rightarrow> (File \<times> nat) outcome" where
  "file_write fw logline off len f =
     seq (mem_read logline off len) (\<lambda>cs.
       let x = min (fw (f_calls f) len) len
       in Inr (f\<lparr>f_out := f_out f @ take x cs, f_calls := f_calls f + 1\<rparr>, x))"

text \<open>The loop of \<^verbatim>\<open>File::append\<close>: \<^verbatim>\<open>n\<close> advances and \<^verbatim>\<open>remain\<close> does not change.\<close>

function file_append_loop :: "fwrite \<Rightarrow> string \<Rightarrow> nat \<Rightarrow> nat \<Rightarrow> nat \<Rightarrow> File \<Rightarrow> File outcome" where
  "file_append_loop fw logline len n remain f =
     (if remain > 0 then
        (case file_write fw logline n remain f of
           Inl e \<Rightarrow> Inl e
         | Inr (f, x) \<Rightarrow>
             if x = 0 then Inr f
             else file_append_loop fw logline len (n + x) remain
                    (f\<lparr>writtenBytes := size_add (writtenBytes f) len\<rparr>))
      else Inr f)"
  by pat_completeness auto
termination
  by (relation "measure (\<lambda>(fw, logline, len, n, remain, f). length logline + 1 - n)")
    (auto simp: file_write_def mem_read_def seq_eq_Inr Let_def split: if_splits)

declare file_append_loop.simps [simp del]

definition file_append :: "fwrite \<Rightarrow> string \<Rightarrow> nat \<Rightarrow> File \<Rightarrow> File outcome" where
  "file_append fw logline len f =
     seq (file_write fw logline 0 len f) (\<lambda>(f, n).
       let remain = size_sub len n in file_append_loop fw logline len n remain f)"

definition file_flush :: "File \<Rightarrow> File" where
  "file_flush f = f\<lparr>f_flushes := f_flushes f + 1\<rparr>"

section \<open>LogFile\<close>

record LogFile =
  lf_basename :: string
  lf_rollSize :: nat
  lf_flushInterval :: int
  lf_threadSafe :: bool
  lf_count :: int
  lf_startOfPeriod :: int
  lf_lastRoll :: int
  lf_lastFlush :: int
  lf_file :: "File option"
  lf_closed :: "File list"

definition kCheckTimeRoll :: int where
  "kCheckTimeRoll = 1024"

definition kRollPerSeconds :: int where
  "kRollPerSeconds = 60 * 60 * 24"

record file_env =
  fe_fwrite :: fwrite
  fe_fopen :: "string \<Rightarrow> bool"
  fe_gmtime_r :: "int \<Rightarrow> tm"
  fe_hostname :: string
  fe_pid :: int

text \<open>\<^verbatim>\<open>strftime\<close> with the format \<^verbatim>\<open>.%Y%m%d- %H%M%S.\<close>\<close>

definition strftime_log :: "tm \<Rightarrow> string" where
  "strftime_log t =
     ''.'' @ dec_int (tm_year t + 1900) @ fmt_0d 2 (tm_mon t + 1) @ fmt_0d 2 (tm_mday t) @ ''- ''
     @ fmt_0d 2 (tm_hour t) @ fmt_0d 2 (tm_min t) @ fmt_0d 2 (tm_sec t) @ ''.''"

definition getLogFileName :: "file_env \<Rightarrow> int \<Rightarrow> string \<Rightarrow> string" where
  "getLogFileName env now bname =
     bname @ strftime_log (fe_gmtime_r env now) @ fe_hostname env
     @ snprintf_buf 32 (''.'' @ dec_int (fe_pid env)) @ ''.log''"

text \<open>\<^verbatim>\<open>file_.reset\<close> closes the old file.\<close>

definition rollFile :: "file_env \<Rightarrow> int \<Rightarrow> LogFile \<Rightarrow> LogFile outcome" where
  "rollFile env now lf =
     (let filename = getLogFileName env now (lf_basename lf);
          start = now sdiv kRollPerSeconds * kRollPerSeconds
      in if now > lf_lastRoll lf then
           seq (File_new (fe_fopen env) filename) (\<lambda>f.
             Inr (lf\<lparr>lf_lastRoll := now, lf_lastFlush := now, lf_startOfPeriod := start,
                     lf_closed := lf_closed lf @ (case lf_file lf of None \<Rightarrow> [] | Some old \<Rightarrow> [old]),
                     lf_file := Some f\<rparr>))
         else Inr lf)"

definition LogFile_new :: "file_env \<Rightarrow> int \<Rightarrow> string \<Rightarrow> nat \<Rightarrow> bool \<Rightarrow> int \<Rightarrow> LogFile outcome" where
  "LogFile_new env now bname rollSize threadSafe flushInterval =
     cassert (CHR ''/'' \<notin> set bname)
       (rollFile env now
         \<lparr>lf_basename = bname, lf_rollSize = rollSize, lf_flushInterval = flushInterval,
          lf_threadSafe = threadSafe, lf_count = 0, lf_startOfPeriod = 0, lf_lastRoll = 0,
          lf_lastFlush = 0, lf_file = None, lf_closed = []\<rparr>)"

text \<open>
  \<open>now\<close> is what \<^verbatim>\<open>time\<close> returns in \<^verbatim>\<open>append_unlocked\<close>, and \<open>now'\<close> what it returns in \<^verbatim>\<open>rollFile\<close>.
\<close>

definition append_unlocked :: "file_env \<Rightarrow> int \<Rightarrow> int \<Rightarrow> string \<Rightarrow> nat \<Rightarrow> LogFile \<Rightarrow> LogFile outcome" where
  "append_unlocked env now now' logline len lf =
     (case lf_file lf of
        None \<Rightarrow> Inl Null_Dereference
      | Some f \<Rightarrow>
          seq (file_append (fe_fwrite env) logline len f) (\<lambda>f.
            let lf = lf\<lparr>lf_file := Some f\<rparr> in
            if writtenBytes f > lf_rollSize lf then rollFile env now' lf
            else if lf_count lf > kCheckTimeRoll then
              let lf = lf\<lparr>lf_count := 0\<rparr>;
                  thisPeriod = now sdiv kRollPerSeconds * kRollPerSeconds
              in if thisPeriod \<noteq> lf_startOfPeriod lf then rollFile env now' lf
                 else if now - lf_lastFlush lf > lf_flushInterval lf
                 then Inr (lf\<lparr>lf_lastFlush := now, lf_file := Some (file_flush f)\<rparr>)
                 else Inr lf
            else Inr (lf\<lparr>lf_count := lf_count lf + 1\<rparr>)))"

text \<open>Both branches of \<^verbatim>\<open>append\<close> and of \<^verbatim>\<open>flush\<close> do the same, with or without the lock.\<close>

definition LogFile_append :: "file_env \<Rightarrow> int \<Rightarrow> int \<Rightarrow> string \<Rightarrow> int \<Rightarrow> LogFile \<Rightarrow> LogFile outcome" where
  "LogFile_append env now now' logline len lf =
     (if lf_threadSafe lf then append_unlocked env now now' logline (size_of_int len) lf
      else append_unlocked env now now' logline (size_of_int len) lf)"

definition LogFile_flush :: "LogFile \<Rightarrow> LogFile outcome" where
  "LogFile_flush lf =
     (case lf_file lf of
        None \<Rightarrow> Inl Null_Dereference
      | Some f \<Rightarrow> Inr (lf\<lparr>lf_file := Some (file_flush f)\<rparr>))"

section \<open>Properties of File::append\<close>

lemma file_append_full:
  assumes "len \<le> length logline" "len < 2 ^ 64" "len \<le> fw (f_calls f) len"
  shows "file_append fw logline len f
         = Inr (f\<lparr>f_out := f_out f @ take len logline, f_calls := f_calls f + 1\<rparr>)"
  using assms
  by (simp add: file_append_def file_write_def mem_read_def min_absorb2 size_sub_le
      file_append_loop.simps)

text \<open>
  When the stream accepts only a part of a line and the rest on the next try, \<^verbatim>\<open>File::append\<close> does
  not stop there: the number of bytes that remain is never reduced, so it goes on to write bytes
  behind the line, and reads outside it when the line is all there is.
\<close>

theorem short_write_overruns:
  assumes "0 < p" "p < length line" "length line < 2 ^ 64"
    and "fw (f_calls f) (length line) = p" "fw (f_calls f + 1) (length line - p) = length line - p"
  shows "file_append fw line (length line) f = Inl Out_Of_Range"
proof -
  let ?r = "length line - p"
  let ?f1 = "f\<lparr>f_out := f_out f @ take p line, f_calls := f_calls f + 1\<rparr>"
  have w1: "file_write fw line 0 (length line) f = Inr (?f1, p)"
    using assms by (simp add: file_write_def mem_read_def Let_def)
  have sub: "size_sub (length line) p = ?r"
    using assms by (simp add: size_sub_le)
  obtain f2 where w2: "file_write fw line p ?r ?f1 = Inr (f2, ?r)"
    using assms by (auto simp: file_write_def mem_read_def Let_def)
  have w3: "file_write fw line (length line) ?r f3 = Inl Out_Of_Range" for f3
    using assms by (simp add: file_write_def mem_read_def)
  show ?thesis
    using assms(1,2) w1 sub w2 w3
    by (simp add: file_append_def file_append_loop.simps [of _ _ _ p]
        file_append_loop.simps [of _ _ _ "length line"])
qed

theorem short_write_overruns_witness:
  "file_append (\<lambda>k n. if k = 0 then 2 else n) ''hello'' (length ''hello'')
     \<lparr>f_name = ''x'', f_out = [], f_calls = 0, f_flushes = 0, writtenBytes = 0\<rparr> = Inl Out_Of_Range"
  using short_write_overruns [of 2 "''hello''" "\<lambda>k n. if k = 0 then 2 else n"
      "\<lparr>f_name = ''x'', f_out = [], f_calls = 0, f_flushes = 0, writtenBytes = 0\<rparr>"]
  by simp

section \<open>Properties of LogFile\<close>

text \<open>A run of appends, each with its line and the two clock readings.\<close>

fun append_run :: "file_env \<Rightarrow> (string \<times> int \<times> int) list \<Rightarrow> LogFile \<Rightarrow> LogFile outcome" where
  "append_run env [] lf = Inr lf"
| "append_run env ((line, now, now') # ops) lf =
     seq (LogFile_append env now now' line (int (length line)) lf) (append_run env ops)"

definition lf_text :: "LogFile \<Rightarrow> string" where
  "lf_text lf = concat (map f_out (lf_closed lf))
                @ (case lf_file lf of None \<Rightarrow> [] | Some f \<Rightarrow> f_out f)"

text \<open>
  No input/output error: every \<^verbatim>\<open>fopen\<close> succeeds and no \<^verbatim>\<open>fwrite\<close> meets a write error (the C standard lets
  \<^verbatim>\<open>fwrite\<close> return less than it was asked for only on such an error).  What happens on an error is
  \<open>short_write_overruns\<close> above, and the assertion in the constructor of \<^verbatim>\<open>File\<close>.
\<close>

definition no_io_error :: "file_env \<Rightarrow> bool" where
  "no_io_error env \<longleftrightarrow> (\<forall>k n. fe_fwrite env k n = n) \<and> (\<forall>nm. fe_fopen env nm)"

definition lf_inv :: "LogFile \<Rightarrow> bool" where
  "lf_inv lf \<longleftrightarrow> (\<exists>f. lf_file lf = Some f \<and> writtenBytes f = 0)"

lemma rollFile_text:
  assumes "no_io_error env" "lf_inv lf"
  shows "\<exists>lf'. rollFile env now lf = Inr lf' \<and> lf_inv lf' \<and> lf_text lf' = lf_text lf"
  using assms
  by (auto simp: rollFile_def Let_def no_io_error_def File_new_def lf_inv_def lf_text_def)

lemma append_text_mem:
  assumes env: "no_io_error env" and lf: "lf_inv lf" and len: "n \<le> length m" "n < 2 ^ 31"
  shows "\<exists>lf'. LogFile_append env now now' m (int n) lf = Inr lf'
               \<and> lf_inv lf' \<and> lf_text lf' = lf_text lf @ take n m"
proof -
  obtain f where f: "lf_file lf = Some f" "writtenBytes f = 0"
    using lf by (auto simp: lf_inv_def)
  let ?f = "f\<lparr>f_out := f_out f @ take n m, f_calls := f_calls f + 1\<rparr>"
  let ?lf = "\<lambda>c. lf\<lparr>lf_file := Some ?f, lf_count := c\<rparr>"
  have app: "file_append (fe_fwrite env) m n f = Inr ?f"
    using file_append_full [of n m "fe_fwrite env" f] env len
    by (simp add: no_io_error_def)
  have size: "size_of_int (int n) = n"
    using len by (intro size_of_int_nat) simp
  have inv: "lf_inv (?lf c)" "lf_text (?lf c) = lf_text lf @ take n m" for c
    using f by (simp_all add: lf_inv_def lf_text_def)
  have roll: "\<exists>lf'. rollFile env now' (?lf c) = Inr lf' \<and> lf_inv lf' \<and> lf_text lf' = lf_text lf @ take n m"
    for c
    using rollFile_text [OF env inv(1), of now' c] inv(2) [of c] by auto
  show ?thesis
    using app f inv [of "lf_count lf + 1"] inv [of 0] roll [of 0] inv
    unfolding LogFile_append_def size
    by (auto simp: append_unlocked_def Let_def lf_inv_def lf_text_def file_flush_def)
qed

lemma append_text:
  assumes "no_io_error env" "lf_inv lf" "length line < 2 ^ 31"
  shows "\<exists>lf'. LogFile_append env now now' line (int (length line)) lf = Inr lf'
               \<and> lf_inv lf' \<and> lf_text lf' = lf_text lf @ line"
  using append_text_mem [OF assms(1,2), of "length line" line now now'] assms(3) by simp

lemma flush_text:
  "lf_inv lf \<Longrightarrow> \<exists>lf'. LogFile_flush lf = Inr lf' \<and> lf_inv lf' \<and> lf_text lf' = lf_text lf"
  by (auto simp: lf_inv_def LogFile_flush_def file_flush_def lf_text_def)

text \<open>What a writer of log records relies on.\<close>

locale log_sink =
  fixes inv :: "'e \<Rightarrow> 's \<Rightarrow> bool" and sink_text :: "'s \<Rightarrow> string"
    and append :: "'e \<Rightarrow> int \<Rightarrow> string \<Rightarrow> int \<Rightarrow> 's \<Rightarrow> 's outcome" and flush :: "'s \<Rightarrow> 's outcome"
  assumes append_law: "inv env s \<Longrightarrow> n \<le> length m \<Longrightarrow> n < 2 ^ 31 \<Longrightarrow>
      \<exists>s'. append env now m (int n) s = Inr s' \<and> inv env s' \<and> sink_text s' = sink_text s @ take n m"
    and flush_law: "inv env s \<Longrightarrow>
      \<exists>s'. flush s = Inr s' \<and> inv env s' \<and> sink_text s' = sink_text s"
begin

fun write_all :: "'e \<Rightarrow> int \<Rightarrow> (string \<times> int) list \<Rightarrow> 's \<Rightarrow> 's outcome" where
  "write_all env now [] s = Inr s"
| "write_all env now ((m, n) # bs) s = seq (append env now m n s) (write_all env now bs)"

lemma write_all_text:
  assumes "inv env s" "\<forall>(m, n)\<in>set bs. 0 \<le> n \<and> n \<le> int (length m) \<and> n < 2 ^ 31"
  shows "\<exists>s'. write_all env now bs s = Inr s' \<and> inv env s'
              \<and> sink_text s' = sink_text s @ concat (map (\<lambda>(m, n). take (nat n) m) bs)"
  using assms
proof (induction bs arbitrary: s)
  case (Cons b bs)
  obtain m n where b: "b = (m, n)" "0 \<le> n" "nat n \<le> length m" "nat n < 2 ^ 31"
    using Cons.prems(2) by (cases b) auto
  obtain s1 where s1: "append env now m n s = Inr s1" "inv env s1" "sink_text s1 = sink_text s @ take (nat n) m"
    using append_law [OF Cons.prems(1) b(3,4), of now] b(2) by auto
  obtain s2 where "write_all env now bs s1 = Inr s2" "inv env s2"
      "sink_text s2 = sink_text s1 @ concat (map (\<lambda>(m, n). take (nat n) m) bs)"
    using Cons.IH [OF s1(2)] Cons.prems(2) by auto
  then show ?case using s1 b by simp
qed simp

end

interpretation file_sink: log_sink "\<lambda>env lf. no_io_error env \<and> lf_inv lf" lf_text
  "\<lambda>env now. LogFile_append env now now" LogFile_flush
  by unfold_locales (use append_text_mem flush_text in auto)

lemma append_run_text:
  assumes env: "no_io_error env" and lf: "lf_inv lf" and len: "\<forall>op\<in>set ops. length (fst op) < 2 ^ 31"
  shows "\<exists>lf'. append_run env ops lf = Inr lf' \<and> lf_inv lf'
               \<and> lf_text lf' = lf_text lf @ concat (map fst ops)"
  using lf len
proof (induction ops arbitrary: lf)
  case (Cons op ops)
  obtain line now now' where op: "op = (line, now, now')"
    by (cases op) auto
  obtain lf1 where lf1: "LogFile_append env now now' line (int (length line)) lf = Inr lf1"
      "lf_inv lf1" "lf_text lf1 = lf_text lf @ line"
    using append_text [OF env Cons.prems(1), of line now now'] Cons.prems(2) op by auto
  obtain lf2 where "append_run env ops lf1 = Inr lf2" "lf_inv lf2"
      "lf_text lf2 = lf_text lf1 @ concat (map fst ops)"
    using Cons.IH [OF lf1(2)] Cons.prems(2) by auto
  then show ?case
    using lf1 op by simp
qed simp

lemma LogFile_new_opens:
  assumes "no_io_error env" "CHR ''/'' \<notin> set bname" "0 < now"
  shows "\<exists>lf. LogFile_new env now bname rollSize ts fi = Inr lf \<and> lf_inv lf \<and> lf_text lf = []
    \<and> lf_closed lf = [] \<and> lf_startOfPeriod lf = now sdiv kRollPerSeconds * kRollPerSeconds"
  using assms
  by (simp add: LogFile_new_def rollFile_def Let_def no_io_error_def File_new_def lf_inv_def lf_text_def)

text \<open>The texts of the files in the order in which they were opened.\<close>

definition lf_files :: "LogFile \<Rightarrow> string list" where
  "lf_files lf = map f_out (lf_closed lf) @ (case lf_file lf of None \<Rightarrow> [] | Some f \<Rightarrow> [f_out f])"

text \<open>An append adds its line to the last file, and then there may be a new, empty one.\<close>

lemma append_files:
  assumes env: "no_io_error env" and lf: "lf_inv lf" and len: "length line < 2 ^ 31"
  shows "\<exists>lf' fs cur. LogFile_append env now now' line (int (length line)) lf = Inr lf' \<and> lf_inv lf'
    \<and> lf_files lf = fs @ [cur] \<and> (lf_files lf' = fs @ [cur @ line] \<or> lf_files lf' = fs @ [cur @ line, []])"
proof -
  obtain f where f: "lf_file lf = Some f" "writtenBytes f = 0"
    using lf by (auto simp: lf_inv_def)
  have app: "file_append (fe_fwrite env) line (length line) f
        = Inr (f\<lparr>f_out := f_out f @ line, f_calls := f_calls f + 1\<rparr>)"
    using file_append_full [of "length line" line "fe_fwrite env" f] env len
    by (simp add: no_io_error_def)
  have size: "size_of_int (int (length line)) = length line"
    using len by (intro size_of_int_nat) simp
  have "lf_files lf = map f_out (lf_closed lf) @ [f_out f]"
    using f by (simp add: lf_files_def)
  moreover have "\<exists>lf'. LogFile_append env now now' line (int (length line)) lf = Inr lf' \<and> lf_inv lf'
      \<and> (lf_files lf' = map f_out (lf_closed lf) @ [f_out f @ line]
         \<or> lf_files lf' = map f_out (lf_closed lf) @ [f_out f @ line, []])"
    using app f env unfolding LogFile_append_def size
    by (auto simp: append_unlocked_def Let_def rollFile_def no_io_error_def File_new_def lf_inv_def
        lf_files_def file_flush_def)
  ultimately show ?thesis by blast
qed

text \<open>The lines, divided among the files.\<close>

definition divided :: "string list \<Rightarrow> string list \<Rightarrow> bool" where
  "divided lines files \<longleftrightarrow> (\<exists>groups. concat groups = lines \<and> map concat groups = files)"

lemma divided_append:
  assumes "divided lines (fs @ [cur])" "files = fs @ [cur @ line] \<or> files = fs @ [cur @ line, []]"
  shows "divided (lines @ [line]) files"
proof -
  obtain groups where g: "concat groups = lines" "map concat groups = fs @ [cur]"
    using assms(1) by (auto simp: divided_def)
  obtain gs g1 where gs: "groups = gs @ [g1]" "map concat gs = fs" "concat g1 = cur"
    using g(2) by (auto simp: map_eq_append_conv)
  have "concat (gs @ [g1 @ [line]]) = lines @ [line]" "concat (gs @ [g1 @ [line], []]) = lines @ [line]"
    "map concat (gs @ [g1 @ [line]]) = fs @ [cur @ line]"
    "map concat (gs @ [g1 @ [line], []]) = fs @ [cur @ line, []]"
    using g gs by auto
  then show ?thesis
    using assms(2) unfolding divided_def by metis
qed

lemma append_run_divided:
  assumes env: "no_io_error env" and lf: "lf_inv lf" "divided lines (lf_files lf)"
    and len: "\<forall>op\<in>set ops. length (fst op) < 2 ^ 31"
  shows "\<exists>lf'. append_run env ops lf = Inr lf' \<and> lf_inv lf' \<and> divided (lines @ map fst ops) (lf_files lf')"
  using lf len
proof (induction ops arbitrary: lf lines)
  case (Cons op ops)
  obtain line now now' where op: "op = (line, now, now')"
    by (cases op) auto
  obtain lf1 fs cur where lf1: "LogFile_append env now now' line (int (length line)) lf = Inr lf1" "lf_inv lf1"
      "lf_files lf = fs @ [cur]" "lf_files lf1 = fs @ [cur @ line] \<or> lf_files lf1 = fs @ [cur @ line, []]"
    using append_files [OF env Cons.prems(1), of line now now'] Cons.prems(3) op by auto
  have d: "divided (lines @ [line]) (lf_files lf1)"
    using divided_append [OF _ lf1(4)] Cons.prems(2) lf1(3) by simp
  obtain lf2 where "append_run env ops lf1 = Inr lf2" "lf_inv lf2"
      "divided ((lines @ [line]) @ map fst ops) (lf_files lf2)"
    using Cons.IH [OF lf1(2) d] Cons.prems(3) by auto
  then show ?case using op lf1(1) by simp
qed simp

text \<open>
  C26: No line is lost or torn when the log rolls.  As long as no \<^verbatim>\<open>fopen\<close> and no \<^verbatim>\<open>fwrite\<close> fails, after any
  run of appends (of lines shorter than \<open>2 ^ 31\<close>, at any times) no assertion has failed, and the files
  written so far, in the order in which they were opened, hold the lines one after the other, each
  line whole within one file.  If the first \<^verbatim>\<open>fopen\<close> fails, the constructor aborts.
\<close>

theorem log_lines_kept_over_rolls:
  assumes "CHR ''/'' \<notin> set bname" "0 < now0" "\<forall>op\<in>set ops. length (fst op) < 2 ^ 31"
  shows "(no_io_error env \<longrightarrow> (\<exists>lf lf' groups. LogFile_new env now0 bname rollSize ts fi = Inr lf
        \<and> append_run env ops lf = Inr lf'
        \<and> map concat groups = lf_files lf' \<and> concat groups = map fst ops))
    \<and> (\<not> fe_fopen env (getLogFileName env now0 bname) \<longrightarrow>
        LogFile_new env now0 bname rollSize ts fi = Inl Assertion_Failed)"
proof -
  have "\<exists>lf lf' groups. LogFile_new env now0 bname rollSize ts fi = Inr lf \<and> append_run env ops lf = Inr lf'
      \<and> map concat groups = lf_files lf' \<and> concat groups = map fst ops" if env: "no_io_error env"
  proof -
    obtain lf where lf: "LogFile_new env now0 bname rollSize ts fi = Inr lf" "lf_inv lf" "lf_text lf = []"
        "lf_closed lf = []"
      using LogFile_new_opens [OF env assms(1,2)] by blast
    have "divided [] (lf_files lf)"
      using lf by (auto simp: divided_def lf_files_def lf_text_def lf_inv_def intro: exI [of _ "[[]]"])
    then show ?thesis
      using append_run_divided [OF env lf(2) _ assms(3)] lf(1) by (fastforce simp: divided_def)
  qed
  then show ?thesis
    using assms by (auto simp: LogFile_new_def rollFile_def Let_def File_new_def)
qed

text \<open>An environment for the witnesses.\<close>

definition file_env0 :: file_env where
  "file_env0 = \<lparr>fe_fwrite = (\<lambda>k n. n), fe_fopen = (\<lambda>nm. True),
     fe_gmtime_r = (\<lambda>s. \<lparr>tm_sec = 0, tm_min = 0, tm_hour = 0, tm_mday = 1, tm_mon = 0, tm_year = 70,
       tm_wday = 4, tm_yday = 0, tm_isdst = 0, tm_gmtoff = 0, tm_zone = []\<rparr>),
     fe_hostname = ''host'', fe_pid = 1\<rparr>"

text \<open>The clock is looked at when 1025 appends have been counted; in another period the log then rolls.\<close>

lemma append_counts:
  assumes env: "no_io_error env" and lf: "lf_inv lf" "lf_count lf \<le> kCheckTimeRoll"
    and len: "length line < 2 ^ 31"
  shows "\<exists>lf'. LogFile_append env now now' line (int (length line)) lf = Inr lf' \<and> lf_inv lf'
    \<and> lf_count lf' = lf_count lf + 1 \<and> lf_closed lf' = lf_closed lf \<and> lf_lastRoll lf' = lf_lastRoll lf
    \<and> lf_startOfPeriod lf' = lf_startOfPeriod lf"
proof -
  obtain f where f: "lf_file lf = Some f" "writtenBytes f = 0"
    using lf by (auto simp: lf_inv_def)
  have "file_append (fe_fwrite env) line (length line) f
        = Inr (f\<lparr>f_out := f_out f @ line, f_calls := f_calls f + 1\<rparr>)"
    using file_append_full [of "length line" line "fe_fwrite env" f] env len
    by (simp add: no_io_error_def)
  moreover have "size_of_int (int (length line)) = length line"
    using len by (intro size_of_int_nat) simp
  ultimately show ?thesis
    using f lf(2) by (auto simp: LogFile_append_def append_unlocked_def Let_def lf_inv_def)
qed

lemma append_run_append:
  "append_run env (ops @ ops') lf = seq (append_run env ops lf) (append_run env ops')"
proof (induction ops arbitrary: lf)
  case (Cons op ops)
  obtain line now now' where "op = (line, now, now')" by (cases op) auto
  with Cons show ?case by (cases "LogFile_append env now now' line (int (length line)) lf") simp_all
qed simp

lemma append_run_counts:
  assumes env: "no_io_error env" and lf: "lf_inv lf" "lf_count lf + int n \<le> kCheckTimeRoll + 1"
    and len: "length line < 2 ^ 31"
  shows "\<exists>lf'. append_run env (replicate n (line, now, now')) lf = Inr lf' \<and> lf_inv lf'
    \<and> lf_count lf' = lf_count lf + int n \<and> lf_closed lf' = lf_closed lf \<and> lf_lastRoll lf' = lf_lastRoll lf
    \<and> lf_startOfPeriod lf' = lf_startOfPeriod lf"
  using lf
proof (induction n arbitrary: lf)
  case (Suc n)
  obtain lf1 where lf1: "LogFile_append env now now' line (int (length line)) lf = Inr lf1" "lf_inv lf1"
      "lf_count lf1 = lf_count lf + 1" "lf_closed lf1 = lf_closed lf" "lf_lastRoll lf1 = lf_lastRoll lf"
      "lf_startOfPeriod lf1 = lf_startOfPeriod lf"
    using append_counts [OF env Suc.prems(1) _ len, of now now'] Suc.prems(2) by auto
  then show ?case
    using Suc.IH [OF lf1(2)] Suc.prems(2) by auto
qed simp

lemma append_rolls:
  assumes env: "no_io_error env" and lf: "lf_inv lf" "kCheckTimeRoll < lf_count lf" "lf_lastRoll lf < now'"
    and p: "now sdiv kRollPerSeconds * kRollPerSeconds \<noteq> lf_startOfPeriod lf" and len: "length line < 2 ^ 31"
  shows "\<exists>lf'. LogFile_append env now now' line (int (length line)) lf = Inr lf' \<and> lf_closed lf' \<noteq> []"
proof -
  obtain f where f: "lf_file lf = Some f" "writtenBytes f = 0"
    using lf by (auto simp: lf_inv_def)
  have "file_append (fe_fwrite env) line (length line) f
        = Inr (f\<lparr>f_out := f_out f @ line, f_calls := f_calls f + 1\<rparr>)"
    using file_append_full [of "length line" line "fe_fwrite env" f] env len
    by (simp add: no_io_error_def)
  moreover have "size_of_int (int (length line)) = length line"
    using len by (intro size_of_int_nat) simp
  ultimately show ?thesis
    using f lf p env
    by (auto simp: LogFile_append_def append_unlocked_def Let_def rollFile_def File_new_def no_io_error_def)
qed

definition rolling_ops :: "(string \<times> int \<times> int) list" where
  "rolling_ops = replicate 1025 (''a'', 6, 6) @ [(''b'', 90000, 90000)]"

lemma rolling_ops_roll:
  assumes env: "no_io_error env" and l: "LogFile_new env 5 bname rollSize ts fi = Inr lf"
    and n: "CHR ''/'' \<notin> set bname"
  shows "\<exists>lf'. append_run env rolling_ops lf = Inr lf' \<and> lf_closed lf' \<noteq> []"
proof -
  have lf: "lf_inv lf" "lf_count lf = 0" "lf_lastRoll lf = 5" "lf_startOfPeriod lf = 0"
    using l n env by (auto simp: LogFile_new_def rollFile_def File_new_def no_io_error_def Let_def
        kRollPerSeconds_def lf_inv_def trunc_simps)
  obtain lf1 where lf1: "append_run env (replicate 1025 (''a'', 6, 6)) lf = Inr lf1" "lf_inv lf1"
      "lf_count lf1 = 1025" "lf_lastRoll lf1 = 5" "lf_startOfPeriod lf1 = 0"
    using append_run_counts [OF env lf(1), of 1025 "''a''" 6 6] lf by (auto simp: kCheckTimeRoll_def)
  obtain lf2 where "LogFile_append env 90000 90000 ''b'' (int (length ''b'')) lf1 = Inr lf2" "lf_closed lf2 \<noteq> []"
    using append_rolls [OF env lf1(2), of 90000 90000 "''b''"] lf1
    by (auto simp: kCheckTimeRoll_def kRollPerSeconds_def trunc_simps)
  then show ?thesis
    using lf1(1) by (simp add: rolling_ops_def append_run_append)
qed

theorem log_lines_kept_over_rolls_witness:
  "(\<exists>lf lf' groups. LogFile_new file_env0 5 ''ggc'' 0 False 3 = Inr lf \<and> append_run file_env0 rolling_ops lf = Inr lf'
     \<and> lf_closed lf' \<noteq> [] \<and> map concat groups = lf_files lf'
     \<and> concat groups = replicate 1025 ''a'' @ [''b''])
   \<and> LogFile_new (file_env0\<lparr>fe_fopen := (\<lambda>nm. False)\<rparr>) 5 ''ggc'' 0 False 3 = Inl Assertion_Failed"
proof -
  have env: "no_io_error file_env0" by (simp add: no_io_error_def file_env0_def)
  have ops: "\<forall>op\<in>set rolling_ops. length (fst op) < 2 ^ 31"
    "map fst rolling_ops = replicate 1025 ''a'' @ [''b'']"
    by (simp_all add: rolling_ops_def)
  obtain lf lf' groups where run: "LogFile_new file_env0 5 ''ggc'' 0 False 3 = Inr lf"
      "append_run file_env0 rolling_ops lf = Inr lf'" "map concat groups = lf_files lf'"
      "concat groups = map fst rolling_ops"
    using log_lines_kept_over_rolls [of "''ggc''" 5 rolling_ops file_env0 0 False 3] env ops(1) by auto
  moreover have "lf_closed lf' \<noteq> []"
    using rolling_ops_roll [OF env run(1)] run(2) by simp
  moreover have "LogFile_new (file_env0\<lparr>fe_fopen := (\<lambda>nm. False)\<rparr>) 5 ''ggc'' 0 False 3 = Inl Assertion_Failed"
    using log_lines_kept_over_rolls [of "''ggc''" 5 "[]" "file_env0\<lparr>fe_fopen := (\<lambda>nm. False)\<rparr>" 0 False 3] by simp
  ultimately show ?thesis using ops(2) by auto
qed

lemma append_same_period:
  assumes env: "no_io_error env" and lf: "lf_inv lf" and len: "length line < 2 ^ 31"
    and p: "now sdiv kRollPerSeconds * kRollPerSeconds = lf_startOfPeriod lf"
    and app: "LogFile_append env now now' line (int (length line)) lf = Inr lf'"
  shows "lf_closed lf' = lf_closed lf" "lf_startOfPeriod lf' = lf_startOfPeriod lf"
proof -
  obtain f where f: "lf_file lf = Some f" "writtenBytes f = 0"
    using lf by (auto simp: lf_inv_def)
  have "file_append (fe_fwrite env) line (length line) f
        = Inr (f\<lparr>f_out := f_out f @ line, f_calls := f_calls f + 1\<rparr>)"
    using file_append_full [of "length line" line "fe_fwrite env" f] env len
    by (simp add: no_io_error_def)
  moreover have "size_of_int (int (length line)) = length line"
    using len by (intro size_of_int_nat) simp
  ultimately show "lf_closed lf' = lf_closed lf" "lf_startOfPeriod lf' = lf_startOfPeriod lf"
    using app f p by (auto simp: LogFile_append_def append_unlocked_def Let_def split: if_splits)
qed

lemma append_run_same_period:
  assumes "no_io_error env" "lf_inv lf" "\<forall>(line, now, now')\<in>set ops. length line < 2 ^ 31
      \<and> now sdiv kRollPerSeconds * kRollPerSeconds = lf_startOfPeriod lf"
    and "append_run env ops lf = Inr lf'"
  shows "lf_closed lf' = lf_closed lf"
  using assms(2-4)
proof (induction ops arbitrary: lf)
  case (Cons op ops)
  obtain line now now' where op: "op = (line, now, now')"
    by (cases op) auto
  have len: "length line < 2 ^ 31" and p: "now sdiv kRollPerSeconds * kRollPerSeconds = lf_startOfPeriod lf"
    using Cons.prems(2) op by auto
  obtain lf1 where lf1: "LogFile_append env now now' line (int (length line)) lf = Inr lf1" "lf_inv lf1"
    using append_text [OF assms(1) Cons.prems(1) len, of now now'] by auto
  note same = append_same_period [OF assms(1) Cons.prems(1) len p lf1(1)]
  have "lf_closed lf' = lf_closed lf1"
    using Cons.IH [OF lf1(2)] Cons.prems(2,3) same(2) op lf1(1) by auto
  then show ?case using same(1) by simp
qed simp

text \<open>
  The log never rolls by size.  However small \<^verbatim>\<open>rollSize\<close> is and however much is written, no new file
  is opened as long as the clock stays in one period: \<^verbatim>\<open>writtenBytes_\<close> is only advanced when a write
  had to be repeated.
\<close>

theorem log_never_rolls_by_size:
  assumes "no_io_error env" "CHR ''/'' \<notin> set bname" "0 < now0"
    and "\<forall>(line, now, now')\<in>set ops. length line < 2 ^ 31
      \<and> now sdiv kRollPerSeconds = now0 sdiv kRollPerSeconds"
  shows "\<exists>lf lf'. LogFile_new env now0 bname rollSize ts fi = Inr lf \<and> append_run env ops lf = Inr lf'
    \<and> lf_closed lf' = []"
proof -
  obtain lf where lf: "LogFile_new env now0 bname rollSize ts fi = Inr lf" "lf_inv lf" "lf_closed lf = []"
      "lf_startOfPeriod lf = now0 sdiv kRollPerSeconds * kRollPerSeconds"
    using LogFile_new_opens [OF assms(1-3)] by blast
  obtain lf' where lf': "append_run env ops lf = Inr lf'"
    using append_run_text [OF assms(1) lf(2), of ops] assms(4) by fastforce
  have "\<forall>(line, now, now')\<in>set ops. length line < 2 ^ 31
      \<and> now sdiv kRollPerSeconds * kRollPerSeconds = lf_startOfPeriod lf"
    using assms(4) lf(4) by fastforce
  then show ?thesis
    using append_run_same_period [OF assms(1) lf(2) _ lf'] lf lf' by auto
qed

theorem log_never_rolls_by_size_witness:
  "\<exists>lf lf'. LogFile_new file_env0 5 ''ggc'' 1 False 3 = Inr lf
     \<and> append_run file_env0 (replicate 1000 (''a long line'', 6, 6)) lf = Inr lf' \<and> lf_closed lf' = []"
  using log_never_rolls_by_size [of file_env0 "''ggc''" 5 "replicate 1000 (''a long line'', 6, 6)" 1 False 3]
  by (simp add: no_io_error_def file_env0_def kRollPerSeconds_def trunc_simps)

end
