(* ===== verification/Async_Logging.thy ===== *)
theory Async_Logging
  imports Log_Stream Log_File Time_Stamp
begin

text \<open>
  \<^verbatim>\<open>src/src/utils/AsyncLogging.h\<close> and \<^verbatim>\<open>AsyncLogging.cpp\<close>: the asynchronous logger.  Front-end
  threads append to the current buffer under a mutex, the back-end thread swaps the full buffers
  out under the same mutex and writes them to a log file.  The critical sections are the steps of
  a transition system, interleaved in any order.
\<close>

section \<open>Front end\<close>

record async_front =
  al_running :: bool
  al_current :: FixedBuffer
  al_next :: "FixedBuffer option"
  al_buffers :: "FixedBuffer list"

definition AsyncLogging_new :: "string \<Rightarrow> string \<Rightarrow> async_front" where
  "AsyncLogging_new junk1 junk2 =
     \<lparr>al_running = False, al_current = fb_bzero (FixedBuffer_new junk1),
      al_next = Some (fb_bzero (FixedBuffer_new junk2)), al_buffers = []\<rparr>"

definition AsyncLogging_start :: "async_front \<Rightarrow> async_front" where
  "AsyncLogging_start a = a\<lparr>al_running := True\<rparr>"

definition AsyncLogging_stop :: "async_front \<Rightarrow> async_front" where
  "AsyncLogging_stop a = a\<lparr>al_running := False\<rparr>"

definition AsyncLogging_destroy :: "async_front \<Rightarrow> async_front" where
  "AsyncLogging_destroy a = (if al_running a then AsyncLogging_stop a else a)"

text \<open>\<open>junk\<close> is the content of a buffer allocated when the spare one is used up.\<close>

definition AsyncLogging_append :: "string \<Rightarrow> string \<Rightarrow> async_front \<Rightarrow> async_front outcome" where
  "AsyncLogging_append junk logline a =
     (let len = length logline in
      if fb_avail (al_current a) > int len then
        seq (fb_append (al_current a) logline len) (\<lambda>b. Inr (a\<lparr>al_current := b\<rparr>))
      else
        let full = al_buffers a @ [al_current a];
            (cur, next) = (case al_next a of
                             Some b \<Rightarrow> (b, None) | None \<Rightarrow> (FixedBuffer_new junk, None))
        in seq (fb_append cur logline len) (\<lambda>b.
             Inr (a\<lparr>al_buffers := full, al_current := b, al_next := next\<rparr>)))"

section \<open>Back end\<close>

text \<open>The locals of \<^verbatim>\<open>threadFunc\<close>, its log file, and where it is in its loop.\<close>

datatype back_pc = At_Loop | Swapped | Stopped

record async_back =
  ab_pc :: back_pc
  ab_newBuffer1 :: "FixedBuffer option"
  ab_newBuffer2 :: "FixedBuffer option"
  ab_toWrite :: "FixedBuffer list"
  ab_output :: LogFile

definition threadFunc_init :: "string \<Rightarrow> string \<Rightarrow> LogFile \<Rightarrow> async_front \<Rightarrow> async_back outcome" where
  "threadFunc_init junk1 junk2 output a =
     cassert (al_running a)
       (Inr \<lparr>ab_pc = At_Loop, ab_newBuffer1 = Some (fb_bzero (FixedBuffer_new junk1)),
             ab_newBuffer2 = Some (fb_bzero (FixedBuffer_new junk2)), ab_toWrite = [],
             ab_output = output\<rparr>)"

definition empty_buffer :: "FixedBuffer option \<Rightarrow> bool" where
  "empty_buffer b = (case b of None \<Rightarrow> False | Some b \<Rightarrow> fb_length b = 0)"

text \<open>
  From the head of the loop to the end of the critical section.  The wait on the condition only
  delays the swap: it releases the mutex, and what is swapped is what is there afterwards.
\<close>

definition threadFunc_swap :: "async_front \<Rightarrow> async_back \<Rightarrow> (async_front \<times> async_back) outcome" where
  "threadFunc_swap a b =
     cassert (empty_buffer (ab_newBuffer1 b)) (
     cassert (empty_buffer (ab_newBuffer2 b)) (
     cassert (ab_toWrite b = []) (
     case ab_newBuffer1 b of
       None \<Rightarrow> Inl Null_Dereference
     | Some new1 \<Rightarrow>
         let full = al_buffers a @ [al_current a];
             (next, new2) = (case al_next a of
                               None \<Rightarrow> (ab_newBuffer2 b, None)
                             | Some n \<Rightarrow> (Some n, ab_newBuffer2 b))
         in Inr (a\<lparr>al_current := new1, al_buffers := [], al_next := next\<rparr>,
                 b\<lparr>ab_pc := Swapped, ab_newBuffer1 := None, ab_newBuffer2 := new2,
                   ab_toWrite := full\<rparr>))))"

definition drop_message :: "(int \<Rightarrow> tm) \<Rightarrow> Timestamp \<Rightarrow> nat \<Rightarrow> string" where
  "drop_message gmtime_r now n =
     snprintf_buf 256 (''Dropped log messages at '' @ toFormattedString gmtime_r now @ '', ''
       @ dec_nat (n - 2) @ '' larger buffers'' @ [CHR 0x0A])"

fun write_buffers :: "file_env \<Rightarrow> int \<Rightarrow> FixedBuffer list \<Rightarrow> LogFile \<Rightarrow> LogFile outcome" where
  "write_buffers env now [] out = Inr out"
| "write_buffers env now (b # bs) out =
     seq (LogFile_append env now now (fb_data b) (fb_length b) out) (write_buffers env now bs)"

text \<open>\<^verbatim>\<open>newBuffer = buffersToWrite.pop_back(); newBuffer->reset();\<close> when the pointer is null.\<close>

definition refill ::
  "FixedBuffer option \<Rightarrow> FixedBuffer list \<Rightarrow> (FixedBuffer option \<times> FixedBuffer list) outcome" where
  "refill nb bs =
     (case nb of
        Some b \<Rightarrow> Inr (Some b, bs)
      | None \<Rightarrow> cassert (bs \<noteq> []) (Inr (Some (fb_reset (last bs)), butlast bs)))"

text \<open>The rest of the loop body, which touches nothing that the front end uses.\<close>

definition threadFunc_write :: "file_env \<Rightarrow> Timestamp \<Rightarrow> async_back \<Rightarrow> async_back outcome" where
  "threadFunc_write env now b =
     cassert (ab_toWrite b \<noteq> []) (
       let t = secondsSinceEpoch now; bs = ab_toWrite b; n = length bs in
       seq (if n > 25
            then let buf = drop_message (fe_gmtime_r env) now n
                 in seq (LogFile_append env t t buf (int (length buf)) (ab_output b)) (\<lambda>out. Inr (out, take 2 bs))
            else Inr (ab_output b, bs)) (\<lambda>(out, bs).
       seq (write_buffers env t bs out) (\<lambda>out.
       let bs = (if length bs > 2 then take 2 bs else bs) in
       seq (refill (ab_newBuffer1 b) bs) (\<lambda>(new1, bs).
       seq (refill (ab_newBuffer2 b) bs) (\<lambda>(new2, bs).
       seq (LogFile_flush out) (\<lambda>out.
         Inr (b\<lparr>ab_pc := At_Loop, ab_newBuffer1 := new1, ab_newBuffer2 := new2, ab_toWrite := [],
                ab_output := out\<rparr>)))))))"

text \<open>The loop ends when \<^verbatim>\<open>running_\<close> is found false at its head.\<close>

definition threadFunc_exit :: "async_back \<Rightarrow> async_back outcome" where
  "threadFunc_exit b = seq (LogFile_flush (ab_output b)) (\<lambda>out. Inr (b\<lparr>ab_pc := Stopped, ab_output := out\<rparr>))"

section \<open>The transition system\<close>

text \<open>
  The logged lines and whether buffers were dropped are kept beside the state.  \<open>Fault\<close> is the state
  after an assertion failure or any other fault.
\<close>

datatype async_state =
    Running async_front async_back "string list" bool
  | Fault cfault

fun after_append :: "async_front outcome \<Rightarrow> async_back \<Rightarrow> string list \<Rightarrow> bool \<Rightarrow> async_state" where
  "after_append (Inl e) b ls d = Fault e"
| "after_append (Inr a) b ls d = Running a b ls d"

fun after_swap :: "(async_front \<times> async_back) outcome \<Rightarrow> string list \<Rightarrow> bool \<Rightarrow> async_state" where
  "after_swap (Inl e) ls d = Fault e"
| "after_swap (Inr (a, b)) ls d = Running a b ls d"

fun after_back :: "async_front \<Rightarrow> async_back outcome \<Rightarrow> string list \<Rightarrow> bool \<Rightarrow> async_state" where
  "after_back a (Inl e) ls d = Fault e"
| "after_back a (Inr b) ls d = Running a b ls d"

inductive async_step :: "file_env \<Rightarrow> async_state \<Rightarrow> async_state \<Rightarrow> bool" for env where
  step_append: "length line < kLargeBuffer \<Longrightarrow> length junk = kLargeBuffer \<Longrightarrow>
    async_step env (Running a b ls d) (after_append (AsyncLogging_append junk line a) b (ls @ [line]) d)"
| step_stop: "async_step env (Running a b ls d) (Running (AsyncLogging_stop a) b ls d)"
| step_swap: "ab_pc b = At_Loop \<Longrightarrow> al_running a \<Longrightarrow>
    async_step env (Running a b ls d) (after_swap (threadFunc_swap a b) ls d)"
| step_write: "ab_pc b = Swapped \<Longrightarrow>
    async_step env (Running a b ls d)
      (after_back a (threadFunc_write env now b) ls (d \<or> length (ab_toWrite b) > 25))"
| step_exit: "ab_pc b = At_Loop \<Longrightarrow> \<not> al_running a \<Longrightarrow>
    async_step env (Running a b ls d) (after_back a (threadFunc_exit b) ls d)"

inductive async_reachable :: "file_env \<Rightarrow> async_state \<Rightarrow> async_state \<Rightarrow> bool" for env s0 where
  reach_start: "async_reachable env s0 s0"
| reach_step: "async_reachable env s0 s \<Longrightarrow> async_step env s s' \<Longrightarrow> async_reachable env s0 s'"

section \<open>Invariant\<close>

definition buf_ok :: "FixedBuffer \<Rightarrow> bool" where
  "buf_ok b \<longleftrightarrow> fb_inv b \<and> length (fb_data b) = kLargeBuffer"

definition buf_fresh :: "FixedBuffer \<Rightarrow> bool" where
  "buf_fresh b \<longleftrightarrow> buf_ok b \<and> fb_cur b = 0"

definition front_inv :: "async_front \<Rightarrow> bool" where
  "front_inv a \<longleftrightarrow> buf_ok (al_current a) \<and> (\<forall>b\<in>set (al_buffers a). buf_ok b)
     \<and> (case al_next a of None \<Rightarrow> al_buffers a \<noteq> [] | Some n \<Rightarrow> buf_fresh n)"

definition back_inv :: "file_env \<Rightarrow> async_back \<Rightarrow> bool" where
  "back_inv env b \<longleftrightarrow> no_io_error env \<and> lf_inv (ab_output b) \<and> (\<forall>x\<in>set (ab_toWrite b). buf_ok x)
     \<and> (case ab_pc b of
          At_Loop \<Rightarrow> ab_toWrite b = [] \<and> (\<exists>x y. ab_newBuffer1 b = Some x \<and> buf_fresh x
                       \<and> ab_newBuffer2 b = Some y \<and> buf_fresh y)
        | Swapped \<Rightarrow> ab_newBuffer1 b = None \<and> ab_toWrite b \<noteq> []
            \<and> (case ab_newBuffer2 b of None \<Rightarrow> 2 \<le> length (ab_toWrite b) | Some y \<Rightarrow> buf_fresh y)
        | Stopped \<Rightarrow> ab_toWrite b = [])"

text \<open>What is logged and not yet written, in order.\<close>

definition front_text :: "async_front \<Rightarrow> string" where
  "front_text a = concat (map fb_contents (al_buffers a)) @ fb_contents (al_current a)"

definition back_text :: "async_back \<Rightarrow> string" where
  "back_text b = lf_text (ab_output b) @ concat (map fb_contents (ab_toWrite b))"

fun async_inv :: "file_env \<Rightarrow> async_state \<Rightarrow> bool" where
  "async_inv env (Fault e) = False"
| "async_inv env (Running a b ls d) \<longleftrightarrow>
     front_inv a \<and> back_inv env b \<and> (\<not> d \<longrightarrow> back_text b @ front_text a = concat ls)"

lemma buf_fresh_new: "length junk = kLargeBuffer \<Longrightarrow> buf_fresh (FixedBuffer_new junk)"
  by (simp add: buf_fresh_def buf_ok_def fb_inv_def FixedBuffer_new_def setCookie_def kLargeBuffer_def)

lemma buf_fresh_bzero: "buf_fresh b \<Longrightarrow> buf_fresh (fb_bzero b)"
  by (simp add: buf_fresh_def buf_ok_def fb_inv_def fb_bzero_def)

lemma buf_fresh_reset: "buf_ok b \<Longrightarrow> buf_fresh (fb_reset b)"
  by (auto simp: buf_fresh_def buf_ok_def fb_inv_def fb_reset_def kLargeBuffer_def)

lemma buf_fresh_empty: "buf_fresh b \<Longrightarrow> fb_contents b = []"
  "buf_fresh b \<Longrightarrow> fb_length b = 0" "buf_fresh b \<Longrightarrow> buf_ok b"
  by (simp_all add: buf_fresh_def fb_contents_def fb_length_def int32_small)

lemma buf_room: "buf_ok b \<Longrightarrow> fb_avail b = int (fb_room b)"
  by (simp add: buf_ok_def fb_avail_room)

lemma buf_append:
  assumes "buf_ok b" "length line < fb_room b"
  shows "\<exists>b'. fb_append b line (length line) = Inr b' \<and> buf_ok b' \<and> fb_contents b' = fb_contents b @ line"
proof -
  obtain b' where b': "fb_append b line (length line) = Inr b'" "fb_inv b'"
      "fb_contents b' = fb_contents b @ line" "fb_room b' = fb_room b - length line"
    using fixed.append_fits [of b line] assms by (auto simp: buf_ok_def)
  then have "length (fb_data b') = length (fb_data b)"
    using fb_room_contents [of b'] fb_room_contents [of b] assms by (simp add: buf_ok_def)
  then show ?thesis using b' assms(1) by (auto simp: buf_ok_def)
qed

lemma buf_fresh_append:
  assumes "buf_fresh b" "length line < kLargeBuffer"
  shows "\<exists>b'. fb_append b line (length line) = Inr b' \<and> buf_ok b' \<and> fb_contents b' = line"
  using buf_append [of b line] assms buf_fresh_empty [of b]
  by (simp add: buf_fresh_def buf_ok_def fb_room_def)

lemma append_keeps:
  assumes a: "front_inv a" and line: "length line < kLargeBuffer" and junk: "length junk = kLargeBuffer"
  shows "\<exists>a'. AsyncLogging_append junk line a = Inr a' \<and> front_inv a' \<and> front_text a' = front_text a @ line"
proof (cases "fb_avail (al_current a) > int (length line)")
  case True
  have "buf_ok (al_current a)" using a by (simp add: front_inv_def)
  then show ?thesis
    using True a buf_append [of "al_current a" line]
    by (auto simp: AsyncLogging_append_def buf_room front_inv_def front_text_def split: option.splits)
next
  case False
  define cur where "cur = (case al_next a of Some b \<Rightarrow> b | None \<Rightarrow> FixedBuffer_new junk)"
  have "buf_fresh cur"
    using a buf_fresh_new [OF junk] by (auto simp: cur_def front_inv_def split: option.splits)
  then obtain b' where b': "fb_append cur line (length line) = Inr b'" "buf_ok b'" "fb_contents b' = line"
    using buf_fresh_append [OF _ line] by blast
  have "AsyncLogging_append junk line a
        = Inr (a\<lparr>al_buffers := al_buffers a @ [al_current a], al_current := b', al_next := None\<rparr>)"
    using False b'(1) by (auto simp: AsyncLogging_append_def Let_def cur_def split: option.splits)
  then show ?thesis
    using a b' by (auto simp: front_inv_def front_text_def)
qed

lemma swap_keeps:
  assumes a: "front_inv a" and b: "back_inv env b" and pc: "ab_pc b = At_Loop"
  shows "\<exists>a' b'. threadFunc_swap a b = Inr (a', b') \<and> front_inv a' \<and> back_inv env b'
                 \<and> back_text b' @ front_text a' = back_text b @ front_text a"
proof -
  obtain x y where new: "ab_newBuffer1 b = Some x" "buf_fresh x" "ab_newBuffer2 b = Some y" "buf_fresh y"
      "ab_toWrite b = []"
    using b pc by (auto simp: back_inv_def)
  have e: "empty_buffer (Some x)" "empty_buffer (Some y)"
    using new by (simp_all add: empty_buffer_def buf_fresh_empty)
  show ?thesis
  proof (cases "al_next a")
    case None
    then have "al_buffers a \<noteq> []" using a by (simp add: front_inv_def)
    then have "2 \<le> length (al_buffers a @ [al_current a])" by (cases "al_buffers a") auto
    then show ?thesis
      using None new e a b pc
      by (auto simp: threadFunc_swap_def front_inv_def back_inv_def back_text_def front_text_def
          buf_fresh_empty)
  next
    case (Some n)
    then show ?thesis
      using new e a b pc
      by (auto simp: threadFunc_swap_def front_inv_def back_inv_def back_text_def front_text_def
          buf_fresh_empty)
  qed
qed

lemma write_buffers_sink:
  "write_buffers env now bs out
   = file_sink.write_all env now (map (\<lambda>b. (fb_data b, fb_length b)) bs) out"
proof (induction bs arbitrary: out)
  case (Cons b bs)
  then have "write_buffers env now bs
      = file_sink.write_all env now (map (\<lambda>b. (fb_data b, fb_length b)) bs)"
    by blast
  then show ?case by simp
qed simp

lemma buf_length: "buf_ok b \<Longrightarrow> fb_length b = int (fb_cur b)" "buf_ok b \<Longrightarrow> fb_cur b < 4000000"
  by (auto simp: buf_ok_def fb_inv_def fb_length_def kLargeBuffer_def int32_small)

lemma write_buffers_text:
  assumes "no_io_error env" "lf_inv out" "\<forall>b\<in>set bs. buf_ok b"
  shows "\<exists>out'. write_buffers env now bs out = Inr out' \<and> lf_inv out'
                \<and> lf_text out' = lf_text out @ concat (map fb_contents bs)"
proof -
  let ?recs = "map (\<lambda>b. (fb_data b, fb_length b)) bs"
  have len: "fb_length b = int (fb_cur b) \<and> fb_cur b \<le> length (fb_data b) \<and> fb_cur b < 2 ^ 31"
    if "b \<in> set bs" for b
    using assms(3) that buf_length [of b] by (auto simp: buf_ok_def fb_inv_def)
  have recs: "concat (map (\<lambda>(m, n). take (nat n) m) ?recs) = concat (map fb_contents bs)"
    unfolding map_map by (intro arg_cong [of _ _ concat] map_cong) (simp_all add: fb_contents_def len)
  have "\<forall>(m, n)\<in>set ?recs. 0 \<le> n \<and> n \<le> int (length m) \<and> n < 2 ^ 31"
    using len by auto
  then show ?thesis
    using file_sink.write_all_text [of env out ?recs now] assms(1,2)
    unfolding write_buffers_sink recs by blast
qed

lemma refill_fresh:
  assumes "\<forall>x\<in>set bs. buf_ok x" "nb = None \<Longrightarrow> bs \<noteq> []" "\<And>y. nb = Some y \<Longrightarrow> buf_fresh y"
  shows "\<exists>x bs'. refill nb bs = Inr (Some x, bs') \<and> buf_fresh x \<and> set bs' \<subseteq> set bs
                 \<and> (nb = None \<longrightarrow> length bs' = length bs - 1) \<and> (nb \<noteq> None \<longrightarrow> bs' = bs)"
  using assms
  by (cases nb) (auto simp: refill_def buf_fresh_reset dest: in_set_butlastD)

lemma length_drop_message: "length (drop_message g now n) < 2 ^ 31"
  by (simp add: drop_message_def snprintf_buf_def)

text \<open>
  The first part of the write step: the buffers that are written, and the text they leave in the
  file.
\<close>

definition write_source :: "file_env \<Rightarrow> Timestamp \<Rightarrow> async_back \<Rightarrow> (LogFile \<times> FixedBuffer list) outcome" where
  "write_source env now b =
     (let t = secondsSinceEpoch now; bs = ab_toWrite b; n = length bs in
      if n > 25
      then let buf = drop_message (fe_gmtime_r env) now n
           in seq (LogFile_append env t t buf (int (length buf)) (ab_output b)) (\<lambda>out. Inr (out, take 2 bs))
      else Inr (ab_output b, bs))"

lemma write_source_text:
  assumes "back_inv env b" "ab_pc b = Swapped"
  shows "\<exists>out bs. write_source env now b = Inr (out, bs) \<and> lf_inv out \<and> (\<forall>x\<in>set bs. buf_ok x)
    \<and> bs \<noteq> [] \<and> (ab_newBuffer2 b = None \<longrightarrow> 2 \<le> length bs)
    \<and> (length (ab_toWrite b) \<le> 25 \<longrightarrow> out = ab_output b \<and> bs = ab_toWrite b)"
proof -
  have b: "no_io_error env" "lf_inv (ab_output b)" "\<forall>x\<in>set (ab_toWrite b). buf_ok x" "ab_toWrite b \<noteq> []"
      "ab_newBuffer2 b = None \<Longrightarrow> 2 \<le> length (ab_toWrite b)"
    using assms by (auto simp: back_inv_def split: option.splits)
  show ?thesis
  proof (cases "length (ab_toWrite b) > 25")
    case True
    have "\<forall>x\<in>set (take 2 (ab_toWrite b)). buf_ok x"
      using b(3) by (meson in_set_takeD)
    then show ?thesis
      using True append_text [OF b(1,2) length_drop_message [of "fe_gmtime_r env" now "length (ab_toWrite b)"],
          of "secondsSinceEpoch now" "secondsSinceEpoch now"] b(3,4)
      by (auto simp: write_source_def Let_def)
  next
    case False
    then show ?thesis
      using b by (auto simp: write_source_def Let_def)
  qed
qed

lemma write_keeps:
  assumes b: "back_inv env b" and pc: "ab_pc b = Swapped"
  shows "\<exists>b'. threadFunc_write env now b = Inr b' \<and> back_inv env b'
    \<and> (length (ab_toWrite b) \<le> 25 \<longrightarrow> back_text b' = back_text b)"
proof -
  obtain out bs where src: "write_source env now b = Inr (out, bs)" "lf_inv out" "\<forall>x\<in>set bs. buf_ok x"
      "bs \<noteq> []" "ab_newBuffer2 b = None \<longrightarrow> 2 \<le> length bs"
      "length (ab_toWrite b) \<le> 25 \<longrightarrow> out = ab_output b \<and> bs = ab_toWrite b"
    using write_source_text [OF b pc] by blast
  have bi: "no_io_error env" "ab_newBuffer1 b = None" "\<And>y. ab_newBuffer2 b = Some y \<Longrightarrow> buf_fresh y"
      "ab_toWrite b \<noteq> []"
    using b pc by (auto simp: back_inv_def split: option.splits)
  obtain out1 where out1: "write_buffers env (secondsSinceEpoch now) bs out = Inr out1" "lf_inv out1"
      "lf_text out1 = lf_text out @ concat (map fb_contents bs)"
    using write_buffers_text [OF bi(1) src(2,3)] by blast
  define bs2 where "bs2 = (if length bs > 2 then take 2 bs else bs)"
  have bs2: "\<forall>x\<in>set bs2. buf_ok x" "bs2 \<noteq> []" "ab_newBuffer2 b = None \<longrightarrow> length bs2 = 2"
    using src(3-5) by (auto simp: bs2_def dest: in_set_takeD)
  obtain x bs3 where r1: "refill None bs2 = Inr (Some x, bs3)" "buf_fresh x" "set bs3 \<subseteq> set bs2"
      "length bs3 = length bs2 - 1"
    using refill_fresh [OF bs2(1), of None] bs2(2) by auto
  have bs3: "\<forall>z\<in>set bs3. buf_ok z" "ab_newBuffer2 b = None \<Longrightarrow> bs3 \<noteq> []"
    using r1(3,4) bs2(1,3) by auto
  obtain y bs4 where r2: "refill (ab_newBuffer2 b) bs3 = Inr (Some y, bs4)" "buf_fresh y"
    using refill_fresh [OF bs3 bi(3)] by blast
  obtain out2 where out2: "LogFile_flush out1 = Inr out2" "lf_inv out2" "lf_text out2 = lf_text out1"
    using flush_text [OF out1(2)] by blast
  have "threadFunc_write env now b
        = Inr (b\<lparr>ab_pc := At_Loop, ab_newBuffer1 := Some x, ab_newBuffer2 := Some y, ab_toWrite := [],
                 ab_output := out2\<rparr>)"
    using bi(2,4) src(1) out1(1) r1(1) r2(1) out2(1)
    unfolding threadFunc_write_def write_source_def Let_def bs2_def by simp
  then show ?thesis
    using bi(1) out2 out1(3) r1(2) r2(2) src(6) by (auto simp: back_inv_def back_text_def)
qed

lemma async_step_inv:
  assumes "async_step env s s'" "async_inv env s"
  shows "async_inv env s'"
  using assms
proof cases
  case (step_append line junk a b ls d)
  then show ?thesis
    using append_keeps [of a line junk] assms(2) by auto
next
  case (step_stop a b ls d)
  then show ?thesis
    using assms(2) by (simp add: AsyncLogging_stop_def front_inv_def front_text_def split: option.splits)
next
  case (step_swap b a ls d)
  then show ?thesis
    using swap_keeps [of a env b] assms(2) by auto
next
  case (step_write b a ls d now)
  then show ?thesis
    using write_keeps [of env b now] assms(2) by auto
next
  case (step_exit b a ls d)
  then show ?thesis
    using flush_text [of "ab_output b"] assms(2)
    by (auto simp: threadFunc_exit_def back_inv_def back_text_def)
qed

lemma async_reachable_inv:
  "async_reachable env s0 s \<Longrightarrow> async_inv env s0 \<Longrightarrow> async_inv env s"
  by (induction rule: async_reachable.induct) (auto intro: async_step_inv)

section \<open>No line is lost\<close>

text \<open>A logger that was constructed and started, with its thread at the head of its loop.\<close>

definition async_started :: "file_env \<Rightarrow> string \<Rightarrow> LogFile \<Rightarrow> async_state" where
  "async_started env junk output =
     (let a = AsyncLogging_start (AsyncLogging_new junk junk) in
      after_back a (threadFunc_init junk junk output a) [] False)"

lemma async_started_inv:
  assumes "no_io_error env" "lf_inv output" "lf_text output = []" "length junk = kLargeBuffer"
  shows "async_inv env (async_started env junk output)"
  using assms buf_fresh_bzero [OF buf_fresh_new [OF assms(4)]]
  by (auto simp: async_started_def Let_def AsyncLogging_new_def AsyncLogging_start_def
      threadFunc_init_def front_inv_def back_inv_def back_text_def front_text_def buf_fresh_empty)

text \<open>
  C4: As long as no \<^verbatim>\<open>fopen\<close> and no \<^verbatim>\<open>fwrite\<close> of the log file fails: whatever the interleaving of threads that
  append (lines that fit a buffer) and of the writing thread, no assertion of the asynchronous logger
  fails and no null buffer is used; and as long as at most 25 buffers were ever waiting at once (beyond
  that the code drops buffers), the log file followed by the buffers holds exactly the appended lines,
  in the order in which the appends took the mutex.
\<close>

theorem async_no_line_lost:
  assumes "no_io_error env" "lf_inv output" "lf_text output = []" "length junk = kLargeBuffer"
    and "async_reachable env (async_started env junk output) s"
  shows "\<exists>a b ls d. s = Running a b ls d
    \<and> (\<not> d \<longrightarrow> lf_text (ab_output b) @ concat (map fb_contents (ab_toWrite b))
               @ concat (map fb_contents (al_buffers a)) @ fb_contents (al_current a) = concat ls)"
proof -
  have "async_inv env s"
    using async_reachable_inv [OF assms(5) async_started_inv [OF assms(1-4)]] .
  then show ?thesis
    by (cases s) (auto simp: back_text_def front_text_def)
qed

text \<open>A log file for the witness, and one appended line.\<close>

theorem async_no_line_lost_witness:
  "\<exists>output a b d. LogFile_new file_env0 5 ''ggc'' 0 False 3 = Inr output
     \<and> async_reachable file_env0 (async_started file_env0 (replicate kLargeBuffer CHR ''?'') output)
         (Running a b [''hi''] d)
     \<and> (\<not> d \<longrightarrow> lf_text (ab_output b) @ concat (map fb_contents (ab_toWrite b))
               @ concat (map fb_contents (al_buffers a)) @ fb_contents (al_current a) = ''hi'')"
proof -
  let ?junk = "replicate kLargeBuffer CHR ''?''"
  have env: "no_io_error file_env0"
    by (simp add: no_io_error_def file_env0_def)
  obtain lf where out: "LogFile_new file_env0 5 ''ggc'' 0 False 3 = Inr lf" "lf_inv lf"
      "lf_text lf = []"
    using LogFile_new_opens [OF env, of "''ggc''" 5 0 False 3] by auto
  let ?s0 = "async_started file_env0 ?junk lf"
  obtain a b where s0: "?s0 = Running a b [] False" "front_inv a"
    using async_started_inv [OF env out(2,3), of ?junk]
    by (auto simp: async_started_def Let_def threadFunc_init_def AsyncLogging_start_def)
  obtain a' where a': "AsyncLogging_append ?junk ''hi'' a = Inr a'"
    using append_keeps [OF s0(2), of "''hi''" ?junk] by (auto simp: kLargeBuffer_def)
  have "async_step file_env0 ?s0 (after_append (AsyncLogging_append ?junk ''hi'' a) b ([] @ [''hi'']) False)"
    unfolding s0(1) by (rule step_append) (simp_all add: kLargeBuffer_def)
  then have r: "async_reachable file_env0 ?s0 (Running a' b [''hi''] False)"
    using reach_step [OF reach_start, of file_env0 ?s0] a' by simp
  show ?thesis
    using async_no_line_lost [OF env out(2,3) _ r] out(1) r by fastforce
qed

end
