(* ===== verification/Channels.thy ===== *)
theory Channels
  imports Time_Stamp
begin

text \<open>
  \<^verbatim>\<open>src/src/port/Channel.h\<close> and \<^verbatim>\<open>Channel.cpp\<close>: a descriptor with the events it waits for and its
  callbacks.  Channels are objects in a heap; whatever a callback does is a function on a state
  that contains this heap.
\<close>

unbundle bit_operations_syntax

section \<open>Poll events\<close>

type_synonym events = "32 word"

definition POLLIN :: events where "POLLIN = 0x1"
definition POLLPRI :: events where "POLLPRI = 0x2"
definition POLLOUT :: events where "POLLOUT = 0x4"
definition POLLERR :: events where "POLLERR = 0x8"
definition POLLHUP :: events where "POLLHUP = 0x10"
definition POLLNVAL :: events where "POLLNVAL = 0x20"
definition POLLRDHUP :: events where "POLLRDHUP = 0x2000"

lemmas poll_bits = POLLIN_def POLLPRI_def POLLOUT_def POLLERR_def POLLHUP_def POLLNVAL_def POLLRDHUP_def

definition kNoneEvent :: events where
  "kNoneEvent = 0"

definition kReadEvent :: events where
  "kReadEvent = POLLIN OR POLLPRI"

definition kWriteEvent :: events where
  "kWriteEvent = POLLOUT"

text \<open>A mask used as a condition.\<close>

definition has :: "events \<Rightarrow> events \<Rightarrow> bool" where
  "has r bits \<longleftrightarrow> r AND bits \<noteq> 0"

lemma has_or: "has r (a OR b) \<longleftrightarrow> has r a \<or> has r b"
  by (simp add: has_def bit.conj_disj_distrib or_eq_0_iff)

section \<open>Channels in a heap\<close>

type_synonym chan_addr = nat

text \<open>
  \<^verbatim>\<open>tie_\<close> is a weak pointer: the object it was tied to, and whether that still exists is read from
  the heap of owners.
\<close>

record 'cb Channel =
  ch_loop :: nat
  ch_fd :: int
  ch_events :: events
  ch_revents :: events
  ch_index :: int
  ch_logHup :: bool
  ch_tie :: "nat option"
  ch_tied :: bool
  ch_eventHandling :: bool
  ch_readCallback :: "'cb option"
  ch_writeCallback :: "'cb option"
  ch_closeCallback :: "'cb option"
  ch_errorCallback :: "'cb option"

record 'cb chan_heap =
  chans :: "chan_addr \<Rightarrow> 'cb Channel option"
  owners :: "nat set"

definition Channel_new :: "nat \<Rightarrow> int \<Rightarrow> 'cb Channel" where
  "Channel_new loop fd =
     \<lparr>ch_loop = loop, ch_fd = fd, ch_events = 0, ch_revents = 0, ch_index = -1, ch_logHup = True,
      ch_tie = None, ch_tied = False, ch_eventHandling = False, ch_readCallback = None,
      ch_writeCallback = None, ch_closeCallback = None, ch_errorCallback = None\<rparr>"

definition with_chan ::
  "chan_addr \<Rightarrow> ('cb, 'm) chan_heap_scheme \<Rightarrow> ('cb Channel \<Rightarrow> 'r outcome) \<Rightarrow> 'r outcome" where
  "with_chan p w k = (case chans w p of None \<Rightarrow> Inl Dangling_Pointer | Some c \<Rightarrow> k c)"

definition put_chan :: "chan_addr \<Rightarrow> 'cb Channel \<Rightarrow> ('cb, 'm) chan_heap_scheme \<Rightarrow> ('cb, 'm) chan_heap_scheme" where
  "put_chan p c w = w\<lparr>chans := (chans w)(p \<mapsto> c)\<rparr>"

definition Channel_destroy ::
  "chan_addr \<Rightarrow> ('cb, 'm) chan_heap_scheme \<Rightarrow> ('cb, 'm) chan_heap_scheme outcome" where
  "Channel_destroy p w =
     with_chan p w (\<lambda>c. cassert (\<not> ch_eventHandling c) (Inr (w\<lparr>chans := (chans w)(p := None)\<rparr>)))"

definition ch_do_tie :: "nat \<Rightarrow> 'cb Channel \<Rightarrow> 'cb Channel" where
  "ch_do_tie obj c = c\<lparr>ch_tie := Some obj, ch_tied := True\<rparr>"

text \<open>The setters of the callbacks, of the received events and of the poller's index.\<close>

definition setReadCallback :: "'cb option \<Rightarrow> 'cb Channel \<Rightarrow> 'cb Channel" where
  "setReadCallback cb c = c\<lparr>ch_readCallback := cb\<rparr>"

definition setWriteCallback :: "'cb option \<Rightarrow> 'cb Channel \<Rightarrow> 'cb Channel" where
  "setWriteCallback cb c = c\<lparr>ch_writeCallback := cb\<rparr>"

definition setCloseCallback :: "'cb option \<Rightarrow> 'cb Channel \<Rightarrow> 'cb Channel" where
  "setCloseCallback cb c = c\<lparr>ch_closeCallback := cb\<rparr>"

definition setErrorCallback :: "'cb option \<Rightarrow> 'cb Channel \<Rightarrow> 'cb Channel" where
  "setErrorCallback cb c = c\<lparr>ch_errorCallback := cb\<rparr>"

definition set_revents :: "events \<Rightarrow> 'cb Channel \<Rightarrow> 'cb Channel" where
  "set_revents revt c = c\<lparr>ch_revents := revt\<rparr>"

definition set_index :: "int \<Rightarrow> 'cb Channel \<Rightarrow> 'cb Channel" where
  "set_index idx c = c\<lparr>ch_index := idx\<rparr>"

definition doNotLogHup :: "'cb Channel \<Rightarrow> 'cb Channel" where
  "doNotLogHup c = c\<lparr>ch_logHup := False\<rparr>"

lemmas channel_setters [simp] = setReadCallback_def setWriteCallback_def setCloseCallback_def setErrorCallback_def
  set_revents_def set_index_def doNotLogHup_def

definition isNoneEvent :: "'cb Channel \<Rightarrow> bool" where
  "isNoneEvent c \<longleftrightarrow> ch_events c = kNoneEvent"

definition isWriting :: "'cb Channel \<Rightarrow> bool" where
  "isWriting c \<longleftrightarrow> has (ch_events c) kWriteEvent"

text \<open>
  The four operations that change the events and then call \<^verbatim>\<open>update\<close>; \<open>upd\<close> is the loop's
  \<^verbatim>\<open>updateChannel\<close>.
\<close>

definition set_events ::
  "(chan_addr \<Rightarrow> ('cb, 'm) chan_heap_scheme \<Rightarrow> ('cb, 'm) chan_heap_scheme outcome) \<Rightarrow> (events \<Rightarrow> events)
   \<Rightarrow> chan_addr \<Rightarrow> ('cb, 'm) chan_heap_scheme \<Rightarrow> ('cb, 'm) chan_heap_scheme outcome" where
  "set_events upd f p w =
     with_chan p w (\<lambda>c. upd p (put_chan p (c\<lparr>ch_events := f (ch_events c)\<rparr>) w))"

definition enableReading where
  "enableReading upd = set_events upd (\<lambda>e. e OR kReadEvent)"

definition enableWriting where
  "enableWriting upd = set_events upd (\<lambda>e. e OR kWriteEvent)"

definition disableWriting where
  "disableWriting upd = set_events upd (\<lambda>e. e AND NOT kWriteEvent)"

definition disableAll where
  "disableAll upd = set_events upd (\<lambda>e. kNoneEvent)"

definition ch_remove ::
  "(chan_addr \<Rightarrow> ('cb, 'm) chan_heap_scheme \<Rightarrow> ('cb, 'm) chan_heap_scheme outcome)
   \<Rightarrow> chan_addr \<Rightarrow> ('cb, 'm) chan_heap_scheme \<Rightarrow> ('cb, 'm) chan_heap_scheme outcome" where
  "ch_remove rem p w = with_chan p w (\<lambda>c. cassert (isNoneEvent c) (rem p w))"

section \<open>Dispatching events\<close>

text \<open>
  \<open>exec cb t\<close> runs the callback \<open>cb\<close>; \<open>t\<close> is the receive time that a read callback gets.  The received
  events and the callbacks are read again before each call, as the code does.
\<close>

definition call_if ::
  "('cb \<Rightarrow> Timestamp option \<Rightarrow> ('cb, 'm) chan_heap_scheme \<Rightarrow> ('cb, 'm) chan_heap_scheme outcome)
   \<Rightarrow> chan_addr \<Rightarrow> (events \<Rightarrow> bool) \<Rightarrow> ('cb Channel \<Rightarrow> 'cb option) \<Rightarrow> Timestamp option
   \<Rightarrow> ('cb, 'm) chan_heap_scheme \<Rightarrow> ('cb, 'm) chan_heap_scheme outcome" where
  "call_if exec p cond cb t w =
     with_chan p w (\<lambda>c.
       if cond (ch_revents c) then (case cb c of Some f \<Rightarrow> exec f t w | None \<Rightarrow> Inr w) else Inr w)"

definition set_handling ::
  "bool \<Rightarrow> chan_addr \<Rightarrow> ('cb, 'm) chan_heap_scheme \<Rightarrow> ('cb, 'm) chan_heap_scheme outcome" where
  "set_handling b p w = with_chan p w (\<lambda>c. Inr (put_chan p (c\<lparr>ch_eventHandling := b\<rparr>) w))"

definition handleEventWithGuard ::
  "('cb \<Rightarrow> Timestamp option \<Rightarrow> ('cb, 'm) chan_heap_scheme \<Rightarrow> ('cb, 'm) chan_heap_scheme outcome)
   \<Rightarrow> Timestamp \<Rightarrow> chan_addr \<Rightarrow> ('cb, 'm) chan_heap_scheme \<Rightarrow> ('cb, 'm) chan_heap_scheme outcome" where
  "handleEventWithGuard exec receiveTime p w =
     seq (set_handling True p w) (\<lambda>w.
     seq (call_if exec p (\<lambda>r. has r POLLHUP \<and> \<not> has r POLLIN) ch_closeCallback None w) (\<lambda>w.
     seq (call_if exec p (\<lambda>r. has r (POLLERR OR POLLNVAL)) ch_errorCallback None w) (\<lambda>w.
     seq (call_if exec p (\<lambda>r. has r (POLLIN OR POLLPRI OR POLLRDHUP)) ch_readCallback (Some receiveTime) w) (\<lambda>w.
     seq (call_if exec p (\<lambda>r. has r POLLOUT) ch_writeCallback None w) (\<lambda>w.
       set_handling False p w)))))"

definition handleEvent ::
  "('cb \<Rightarrow> Timestamp option \<Rightarrow> ('cb, 'm) chan_heap_scheme \<Rightarrow> ('cb, 'm) chan_heap_scheme outcome)
   \<Rightarrow> Timestamp \<Rightarrow> chan_addr \<Rightarrow> ('cb, 'm) chan_heap_scheme \<Rightarrow> ('cb, 'm) chan_heap_scheme outcome" where
  "handleEvent exec receiveTime p w =
     with_chan p w (\<lambda>c.
       if ch_tied c then
         (case ch_tie c of
            Some obj \<Rightarrow> if obj \<in> owners w then handleEventWithGuard exec receiveTime p w else Inr w
          | None \<Rightarrow> Inr w)
       else handleEventWithGuard exec receiveTime p w)"

definition reventsToString :: "'cb Channel \<Rightarrow> string" where
  "reventsToString c =
     dec_int (ch_fd c) @ '': ''
     @ (if has (ch_revents c) POLLIN then ''IN '' else [])
     @ (if has (ch_revents c) POLLPRI then ''PRI '' else [])
     @ (if has (ch_revents c) POLLOUT then ''OUT '' else [])
     @ (if has (ch_revents c) POLLHUP then ''HUP '' else [])
     @ (if has (ch_revents c) POLLRDHUP then ''RDHUP '' else [])
     @ (if has (ch_revents c) POLLNVAL then ''NVAL '' else [])"

section \<open>Order of the callbacks\<close>

text \<open>The calls that the received events ask for.\<close>

definition dispatch :: "Timestamp \<Rightarrow> 'cb Channel \<Rightarrow> ('cb \<times> Timestamp option) list" where
  "dispatch t c =
     (let r = ch_revents c;
          call = (\<lambda>b cb t. if b then (case cb of Some f \<Rightarrow> [(f, t)] | None \<Rightarrow> []) else [])
      in call (has r POLLHUP \<and> \<not> has r POLLIN) (ch_closeCallback c) None
         @ call (has r (POLLERR OR POLLNVAL)) (ch_errorCallback c) None
         @ call (has r (POLLIN OR POLLPRI OR POLLRDHUP)) (ch_readCallback c) (Some t)
         @ call (has r POLLOUT) (ch_writeCallback c) None)"

fun run_calls ::
  "('cb \<Rightarrow> Timestamp option \<Rightarrow> 'w \<Rightarrow> 'w outcome) \<Rightarrow> ('cb \<times> Timestamp option) list \<Rightarrow> 'w \<Rightarrow> 'w outcome" where
  "run_calls exec [] w = Inr w"
| "run_calls exec ((f, t) # cs) w = seq (exec f t w) (run_calls exec cs)"

lemma run_calls_append: "run_calls exec (as @ bs) w = seq (run_calls exec as w) (run_calls exec bs)"
proof (induction as arbitrary: w)
  case (Cons a as)
  obtain f t where a: "a = (f, t)" by (cases a) auto
  show ?case
  proof (cases "exec f t w")
    case (Inl e)
    then show ?thesis using a by simp
  next
    case (Inr w')
    then show ?thesis using a Cons by simp
  qed
qed simp

text \<open>
  A callback that does not replace the callbacks of channel \<open>p\<close>, does not delete it, and leaves its
  received events, which only the poller sets.
\<close>

definition same_dispatch :: "'cb Channel \<Rightarrow> 'cb Channel \<Rightarrow> bool" where
  "same_dispatch c d \<longleftrightarrow>
     ch_revents d = ch_revents c \<and> ch_readCallback d = ch_readCallback c
     \<and> ch_writeCallback d = ch_writeCallback c \<and> ch_closeCallback d = ch_closeCallback c
     \<and> ch_errorCallback d = ch_errorCallback c \<and> ch_eventHandling d = ch_eventHandling c"

definition leaves_channel ::
  "('cb \<Rightarrow> Timestamp option \<Rightarrow> ('cb, 'm) chan_heap_scheme \<Rightarrow> ('cb, 'm) chan_heap_scheme outcome)
   \<Rightarrow> chan_addr \<Rightarrow> bool" where
  "leaves_channel exec p \<longleftrightarrow>
     (\<forall>f t w w' c. exec f t w = Inr w' \<longrightarrow> chans w p = Some c \<longrightarrow>
        (\<exists>d. chans w' p = Some d \<and> same_dispatch c d))"

lemma call_if_runs:
  assumes r: "leaves_channel exec p" and c: "chans w p = Some d" "same_dispatch c d" and cb: "cb d = cb c"
  shows "call_if exec p cond cb t w
      = run_calls exec (if cond (ch_revents c) then (case cb c of Some f \<Rightarrow> [(f, t)] | None \<Rightarrow> []) else []) w"
    and "call_if exec p cond cb t w = Inr w' \<Longrightarrow> \<exists>d'. chans w' p = Some d' \<and> same_dispatch c d'"
proof -
  have rev: "ch_revents d = ch_revents c"
    using c(2) by (simp add: same_dispatch_def)
  have seq_id: "seq x (run_calls exec []) = x" for x
    by (cases x) simp_all
  show "call_if exec p cond cb t w
      = run_calls exec (if cond (ch_revents c) then (case cb c of Some f \<Rightarrow> [(f, t)] | None \<Rightarrow> []) else []) w"
    using c(1) cb rev
    by (auto simp: call_if_def with_chan_def fun_eq_iff seq_id split: option.splits)
  show "\<exists>d'. chans w' p = Some d' \<and> same_dispatch c d'" if "call_if exec p cond cb t w = Inr w'"
  proof (cases "\<exists>f. exec f t w = Inr w'")
    case True
    then obtain d' where "chans w' p = Some d'" "same_dispatch d d'"
      using r c(1) unfolding leaves_channel_def by blast
    then show ?thesis using c(2) by (auto simp: same_dispatch_def)
  next
    case False
    then have "w' = w"
      using that c(1) by (auto simp: call_if_def with_chan_def split: if_splits option.splits)
    then show ?thesis using c by auto
  qed
qed

text \<open>The guarded calls of \<^verbatim>\<open>handleEventWithGuard\<close>, as a list.\<close>

type_synonym 'cb guarded = "(events \<Rightarrow> bool) \<times> ('cb Channel \<Rightarrow> 'cb option) \<times> Timestamp option"

fun guarded_calls ::
  "('cb \<Rightarrow> Timestamp option \<Rightarrow> ('cb, 'm) chan_heap_scheme \<Rightarrow> ('cb, 'm) chan_heap_scheme outcome)
   \<Rightarrow> chan_addr \<Rightarrow> 'cb guarded list \<Rightarrow> ('cb, 'm) chan_heap_scheme \<Rightarrow> ('cb, 'm) chan_heap_scheme outcome" where
  "guarded_calls exec p [] w = Inr w"
| "guarded_calls exec p ((cond, cb, t) # gs) w = seq (call_if exec p cond cb t w) (guarded_calls exec p gs)"

definition wanted :: "'cb Channel \<Rightarrow> 'cb guarded \<Rightarrow> ('cb \<times> Timestamp option) list" where
  "wanted c g = (case g of (cond, cb, t) \<Rightarrow>
     if cond (ch_revents c) then (case cb c of Some f \<Rightarrow> [(f, t)] | None \<Rightarrow> []) else [])"

definition event_guards :: "Timestamp \<Rightarrow> 'cb guarded list" where
  "event_guards t =
     [(\<lambda>r. has r POLLHUP \<and> \<not> has r POLLIN, ch_closeCallback, None),
      (\<lambda>r. has r (POLLERR OR POLLNVAL), ch_errorCallback, None),
      (\<lambda>r. has r (POLLIN OR POLLPRI OR POLLRDHUP), ch_readCallback, Some t),
      (\<lambda>r. has r POLLOUT, ch_writeCallback, None)]"

lemma dispatch_wanted: "dispatch t c = concat (map (wanted c) (event_guards t))"
  by (simp add: dispatch_def event_guards_def wanted_def Let_def)

lemma seq_assoc: "seq (seq r f) g = seq r (\<lambda>x. seq (f x) g)"
  by (cases r) simp_all

lemma seq_return: "seq r Inr = r"
  by (cases r) simp_all

lemma handleEventWithGuard_guards:
  "handleEventWithGuard exec t p w
   = seq (set_handling True p w) (\<lambda>w. seq (guarded_calls exec p (event_guards t) w) (set_handling False p))"
  by (simp add: handleEventWithGuard_def event_guards_def seq_assoc seq_return fun_eq_iff)

lemma guarded_calls_run:
  assumes r: "leaves_channel exec p" and gs: "set (map (fst \<circ> snd) gs)
      \<subseteq> {ch_readCallback, ch_writeCallback, ch_closeCallback, ch_errorCallback}"
    and c: "chans w p = Some d" "same_dispatch c d"
  shows "guarded_calls exec p gs w = run_calls exec (concat (map (wanted c) gs)) w"
  using gs c
proof (induction gs arbitrary: w d)
  case (Cons g gs)
  obtain cond cb t where g: "g = (cond, cb, t)" by (cases g) auto
  have cb: "cb d = cb c"
    using Cons.prems(1,3) g by (auto simp: same_dispatch_def)
  have head: "call_if exec p cond cb t w = run_calls exec (wanted c g) w"
    using call_if_runs(1) [OF r Cons.prems(2,3) cb] g by (simp add: wanted_def)
  show ?case
  proof (cases "call_if exec p cond cb t w")
    case (Inl e)
    then show ?thesis using g head by (simp add: run_calls_append)
  next
    case (Inr w')
    then obtain d' where "chans w' p = Some d'" "same_dispatch c d'"
      using call_if_runs(2) [OF r Cons.prems(2,3) cb] by blast
    then have "guarded_calls exec p gs w' = run_calls exec (concat (map (wanted c) gs)) w'"
      using Cons.IH Cons.prems(1) by simp
    moreover have "run_calls exec (wanted c g) w = Inr w'" using head Inr by simp
    ultimately show ?thesis using g Inr by (simp add: run_calls_append)
  qed
qed simp

text \<open>Handling an event is calling what the received events ask for.\<close>

lemma handleEvent_dispatch:
  assumes "leaves_channel exec p" "chans w p = Some c" "ch_tied c \<longrightarrow> ch_tie c \<noteq> None"
  shows "handleEvent exec t p w =
    (if ch_tied c \<and> the (ch_tie c) \<notin> owners w then Inr w
     else seq (run_calls exec (dispatch t c) (put_chan p (c\<lparr>ch_eventHandling := True\<rparr>) w))
            (set_handling False p))"
proof -
  let ?c = "c\<lparr>ch_eventHandling := True\<rparr>"
  have "guarded_calls exec p (event_guards t) (put_chan p ?c w)
      = run_calls exec (concat (map (wanted ?c) (event_guards t))) (put_chan p ?c w)"
    by (rule guarded_calls_run [OF assms(1), where d = ?c])
      (auto simp: event_guards_def put_chan_def same_dispatch_def)
  moreover have "map (wanted ?c) (event_guards t) = map (wanted c) (event_guards t)"
    by (simp add: event_guards_def wanted_def)
  ultimately have "handleEventWithGuard exec t p w
      = seq (run_calls exec (dispatch t c) (put_chan p ?c w)) (set_handling False p)"
    using assms(2) by (simp add: handleEventWithGuard_guards dispatch_wanted set_handling_def with_chan_def)
  then show ?thesis
    using assms(2,3) by (auto simp: handleEvent_def with_chan_def)
qed

text \<open>
  C29: A channel whose owner is alive, or that is not tied to one, handles the received events by
  calling, in this order and each at most once, the close callback (hang-up with nothing left to
  read), the error callback, the read callback with the receive time, and the write callback;
  while they run it is marked as handling events, and the mark is taken back at the end.  A
  channel whose owner is gone calls nothing.  (The callbacks may do
  anything but delete this channel or change its callbacks, its received events and its
  mark: \<open>leaves_channel\<close>.)
\<close>

theorem handleEvent_order:
  assumes "leaves_channel exec p" "chans w p = Some c" "ch_tied c \<longrightarrow> ch_tie c \<noteq> None"
  shows "handleEvent exec t p w =
    (if ch_tied c \<and> the (ch_tie c) \<notin> owners w then Inr w
     else seq (run_calls exec (dispatch t c) (put_chan p (c\<lparr>ch_eventHandling := True\<rparr>) w))
            (set_handling False p))"
  using assms by (rule handleEvent_dispatch)

text \<open>A state that also records the calls, for the witness.\<close>

record call_log = "string chan_heap" +
  calls :: "string list"

theorem handleEvent_order_witness:
  "\<exists>w'. handleEvent (\<lambda>f t w. Inr (w\<lparr>calls := calls w @ [f]\<rparr>)) (Timestamp_of 5) 1
     \<lparr>chans = [1 \<mapsto> (Channel_new 0 3)\<lparr>ch_revents := POLLIN OR POLLOUT,
        ch_readCallback := Some ''read'', ch_writeCallback := Some ''write''\<rparr>],
      owners = {}, calls = []\<rparr> = Inr w' \<and> calls w' = [''read'', ''write'']"
proof -
  let ?exec = "\<lambda>f t w. Inr (w\<lparr>calls := calls w @ [f]\<rparr>) :: call_log outcome"
  let ?c = "(Channel_new 0 3 :: string Channel)\<lparr>ch_revents := POLLIN OR POLLOUT,
        ch_readCallback := Some ''read'', ch_writeCallback := Some ''write''\<rparr>"
  let ?w = "\<lparr>chans = [1 \<mapsto> ?c], owners = {}, calls = []\<rparr>"
  have l: "leaves_channel ?exec 1"
    by (auto simp: leaves_channel_def same_dispatch_def)
  have d: "dispatch (Timestamp_of 5) ?c = [(''read'', Some (Timestamp_of 5)), (''write'', None)]"
    by (simp add: dispatch_def Let_def has_def poll_bits Channel_new_def)
  show ?thesis
    using handleEvent_order [OF l, of ?w ?c "Timestamp_of 5"] d
    by (simp add: Channel_new_def set_handling_def with_chan_def put_chan_def)
qed

end
