(* ===== verification/Pollers.thy ===== *)
theory Pollers
  imports Channels
begin

text \<open>
  \<^verbatim>\<open>src/src/port/Poller.h\<close>, \<^verbatim>\<open>DefaultPoller.cpp\<close>, \<^verbatim>\<open>PollPoller.cpp\<close> and \<^verbatim>\<open>EPollPoller.cpp\<close>: the
  registration of channels with the two system calls.  What \<^verbatim>\<open>poll\<close>, \<^verbatim>\<open>epoll_wait\<close> and
  \<^verbatim>\<open>epoll_ctl\<close> report are parameters.
\<close>

section \<open>PollPoller\<close>

record pollfd =
  pfd_fd :: int
  pfd_events :: "16 word"
  pfd_revents :: "16 word"

record PollPoller =
  pp_pollfds :: "pollfd list"
  pp_channels :: "int \<Rightarrow> chan_addr option"

definition PollPoller_new :: PollPoller where
  "PollPoller_new = \<lparr>pp_pollfds = [], pp_channels = (\<lambda>_. None)\<rparr>"

text \<open>\<^verbatim>\<open>static_cast<short>\<close> of the events, and the sign extension back.\<close>

definition short_of :: "events \<Rightarrow> 16 word" where
  "short_of e = ucast e"

definition pp_update ::
  "chan_addr \<Rightarrow> ('cb, 'm) chan_heap_scheme \<times> PollPoller \<Rightarrow> (('cb, 'm) chan_heap_scheme \<times> PollPoller) outcome"
where
  "pp_update p wp =
     (case wp of (w, pp) \<Rightarrow> with_chan p w (\<lambda>c.
       if ch_index c < 0 then
         cassert (pp_channels pp (ch_fd c) = None)
           (let pfd = \<lparr>pfd_fd = ch_fd c, pfd_events = short_of (ch_events c), pfd_revents = 0\<rparr>;
                fds = pp_pollfds pp @ [pfd];
                idx = int (length fds) - 1
            in Inr (put_chan p (set_index idx c) w,
                    pp\<lparr>pp_pollfds := fds, pp_channels := (pp_channels pp)(pfd_fd pfd \<mapsto> p)\<rparr>))
       else
         cassert (pp_channels pp (ch_fd c) \<noteq> None) (
         cassert (pp_channels pp (ch_fd c) = Some p) (
         let idx = ch_index c in
         cassert (0 \<le> idx \<and> idx < int (length (pp_pollfds pp))) (
         let pfd = pp_pollfds pp ! nat idx in
         cassert (pfd_fd pfd = ch_fd c \<or> pfd_fd pfd = - ch_fd c - 1) (
         let pfd = pfd\<lparr>pfd_events := short_of (ch_events c), pfd_revents := 0\<rparr>;
             pfd = (if isNoneEvent c then pfd\<lparr>pfd_fd := - ch_fd c - 1\<rparr> else pfd)
         in Inr (w, pp\<lparr>pp_pollfds := (pp_pollfds pp)[nat idx := pfd]\<rparr>)))))))"

definition pp_remove ::
  "chan_addr \<Rightarrow> ('cb, 'm) chan_heap_scheme \<times> PollPoller \<Rightarrow> (('cb, 'm) chan_heap_scheme \<times> PollPoller) outcome"
where
  "pp_remove p wp =
     (case wp of (w, pp) \<Rightarrow> with_chan p w (\<lambda>c.
       cassert (pp_channels pp (ch_fd c) \<noteq> None) (
       cassert (pp_channels pp (ch_fd c) = Some p) (
       cassert (isNoneEvent c) (
       let idx = ch_index c; fds = pp_pollfds pp in
       cassert (0 \<le> idx \<and> idx < int (length fds)) (
       let pfd = fds ! nat idx in
       cassert (pfd_fd pfd = - ch_fd c - 1 \<and> sint (pfd_events pfd) = sint (ch_events c)) (
       let chs = (pp_channels pp)(ch_fd c := None) in
       if nat idx = length fds - 1
       then Inr (w, pp\<lparr>pp_pollfds := butlast fds, pp_channels := chs\<rparr>)
       else
         let atEnd = pfd_fd (last fds);
             fds = butlast (fds[nat idx := last fds, length fds - 1 := fds ! nat idx]);
             atEnd = (if atEnd < 0 then - atEnd - 1 else atEnd)
         in (case chs atEnd of
               None \<Rightarrow> Inl Null_Dereference
             | Some q \<Rightarrow> with_chan q w (\<lambda>d.
                 Inr (put_chan q (set_index idx d) w,
                      pp\<lparr>pp_pollfds := fds, pp_channels := chs\<rparr>))))))))))"

fun pp_fillActive ::
  "pollfd list \<Rightarrow> PollPoller \<Rightarrow> ('cb, 'm) chan_heap_scheme \<times> chan_addr list
   \<Rightarrow> (('cb, 'm) chan_heap_scheme \<times> chan_addr list) outcome"
where
  "pp_fillActive [] pp wa = Inr wa"
| "pp_fillActive (pfd # pfds) pp (w, active) =
     (if sint (pfd_events pfd) > 0 then
        (case pp_channels pp (pfd_fd pfd) of
           None \<Rightarrow> Inl Assertion_Failed
         | Some p \<Rightarrow> with_chan p w (\<lambda>c.
             cassert (ch_fd c = pfd_fd pfd)
               (pp_fillActive pfds pp
                 (put_chan p (set_revents (scast (pfd_revents pfd)) c) w, active @ [p]))))
      else pp_fillActive pfds pp (w, active))"

text \<open>\<open>poll_result\<close> is what \<^verbatim>\<open>poll\<close> returned and the received events it stored in each entry.\<close>

definition pp_poll ::
  "int \<times> (nat \<Rightarrow> 16 word) \<Rightarrow> ('cb, 'm) chan_heap_scheme \<times> PollPoller
   \<Rightarrow> (('cb, 'm) chan_heap_scheme \<times> PollPoller \<times> chan_addr list) outcome" where
  "pp_poll poll_result wp =
     (case wp of (w, pp) \<Rightarrow>
       let fds = map (\<lambda>(i, pfd). pfd\<lparr>pfd_revents := snd poll_result i\<rparr>) (enumerate 0 (pp_pollfds pp));
           pp = pp\<lparr>pp_pollfds := fds\<rparr>
       in if fst poll_result > 0
          then seq (pp_fillActive fds pp (w, [])) (\<lambda>(w, active). Inr (w, pp, active))
          else Inr (w, pp, []))"

section \<open>EPollPoller\<close>

definition kNew :: int where "kNew = -1"
definition kAdded :: int where "kAdded = 1"
definition kDeleted :: int where "kDeleted = 2"

datatype epoll_op = EPOLL_CTL_ADD | EPOLL_CTL_DEL | EPOLL_CTL_MOD

text \<open>
  A slot of \<^verbatim>\<open>channels_\<close> may hold a null pointer.  \<open>ep_kernel\<close> is the kernel's interest list: the
  events and the pointer registered for a descriptor.
\<close>

record EPollPoller =
  ep_epollfd :: int
  ep_eventsSize :: nat
  ep_channels :: "int \<Rightarrow> chan_addr option option"
  ep_kernel :: "int \<Rightarrow> (events \<times> chan_addr) option"

definition kInitEventListSize :: nat where
  "kInitEventListSize = 16"

definition EPollPoller_new :: "int \<Rightarrow> EPollPoller outcome" where
  "EPollPoller_new epoll_create =
     (if epoll_create < 0 then Inl Fatal_Abort
      else Inr \<lparr>ep_epollfd = epoll_create, ep_eventsSize = kInitEventListSize,
                ep_channels = (\<lambda>_. None), ep_kernel = (\<lambda>_. None)\<rparr>)"

definition ep_ctl ::
  "(epoll_op \<Rightarrow> int \<Rightarrow> bool) \<Rightarrow> epoll_op \<Rightarrow> chan_addr \<Rightarrow> 'cb Channel \<Rightarrow> EPollPoller \<Rightarrow> EPollPoller outcome" where
  "ep_ctl epoll_ctl operation p c ep =
     (if epoll_ctl operation (ch_fd c)
      then Inr (ep\<lparr>ep_kernel := (ep_kernel ep)(ch_fd c :=
                     (if operation = EPOLL_CTL_DEL then None else Some (ch_events c, p)))\<rparr>)
      else if operation = EPOLL_CTL_DEL then Inr ep else Inl Fatal_Abort)"

text \<open>
  For a new channel the code writes \<^verbatim>\<open>channels_[fd] == channel;\<close>, a comparison: it only creates the
  slot, with a null pointer in it.
\<close>

definition ep_update ::
  "(epoll_op \<Rightarrow> int \<Rightarrow> bool) \<Rightarrow> chan_addr \<Rightarrow> ('cb, 'm) chan_heap_scheme \<times> EPollPoller
   \<Rightarrow> (('cb, 'm) chan_heap_scheme \<times> EPollPoller) outcome"
where
  "ep_update epoll_ctl p we =
     (case we of (w, ep) \<Rightarrow> with_chan p w (\<lambda>c.
       let index = ch_index c; fd = ch_fd c in
       if index = kNew \<or> index = kDeleted then
         seq (if index = kNew
              then cassert (ep_channels ep fd = None)
                     (Inr (ep\<lparr>ep_channels := (ep_channels ep)(fd \<mapsto> None)\<rparr>))
              else cassert (ep_channels ep fd \<noteq> None) (
                   cassert (ep_channels ep fd = Some (Some p)) (Inr ep))) (\<lambda>ep.
         let c = set_index kAdded c in
         seq (ep_ctl epoll_ctl EPOLL_CTL_ADD p c ep) (\<lambda>ep. Inr (put_chan p c w, ep)))
       else
         cassert (ep_channels ep fd \<noteq> None) (
         cassert (ep_channels ep fd = Some (Some p)) (
         cassert (index = kAdded) (
         if isNoneEvent c
         then seq (ep_ctl epoll_ctl EPOLL_CTL_DEL p c ep) (\<lambda>ep.
                Inr (put_chan p (set_index kDeleted c) w, ep))
         else seq (ep_ctl epoll_ctl EPOLL_CTL_MOD p c ep) (\<lambda>ep. Inr (w, ep)))))))"

definition ep_remove ::
  "(epoll_op \<Rightarrow> int \<Rightarrow> bool) \<Rightarrow> chan_addr \<Rightarrow> ('cb, 'm) chan_heap_scheme \<times> EPollPoller
   \<Rightarrow> (('cb, 'm) chan_heap_scheme \<times> EPollPoller) outcome"
where
  "ep_remove epoll_ctl p we =
     (case we of (w, ep) \<Rightarrow> with_chan p w (\<lambda>c.
       let fd = ch_fd c; index = ch_index c in
       cassert (ep_channels ep fd \<noteq> None) (
       cassert (ep_channels ep fd = Some (Some p)) (
       cassert (isNoneEvent c) (
       cassert (index = kAdded \<or> index = kDeleted) (
       let ep = ep\<lparr>ep_channels := (ep_channels ep)(fd := None)\<rparr> in
       seq (if index = kAdded then ep_ctl epoll_ctl EPOLL_CTL_DEL p c ep else Inr ep) (\<lambda>ep.
         Inr (put_chan p (set_index kNew c) w, ep))))))))"

fun ep_fillActive ::
  "(events \<times> chan_addr) list \<Rightarrow> EPollPoller \<Rightarrow> ('cb, 'm) chan_heap_scheme \<times> chan_addr list
   \<Rightarrow> (('cb, 'm) chan_heap_scheme \<times> chan_addr list) outcome"
where
  "ep_fillActive [] ep wa = Inr wa"
| "ep_fillActive ((e, p) # evs) ep (w, active) =
     with_chan p w (\<lambda>c.
       cassert (ep_channels ep (ch_fd c) \<noteq> None)
         (ep_fillActive evs ep (put_chan p (set_revents e c) w, active @ [p])))"

text \<open>\<open>evs\<close> is what \<^verbatim>\<open>epoll_wait\<close> stored, or \<open>None\<close> when it failed.\<close>

definition ep_poll ::
  "(events \<times> chan_addr) list option \<Rightarrow> ('cb, 'm) chan_heap_scheme \<times> EPollPoller
   \<Rightarrow> (('cb, 'm) chan_heap_scheme \<times> EPollPoller \<times> chan_addr list) outcome" where
  "ep_poll epoll_wait we =
     (case we of (w, ep) \<Rightarrow>
       (case epoll_wait of
          None \<Rightarrow> Inr (w, ep, [])
        | Some evs \<Rightarrow>
            if evs \<noteq> [] then
              cassert (length evs \<le> ep_eventsSize ep)
                (seq (ep_fillActive evs ep (w, [])) (\<lambda>(w, active).
                   let ep = (if length evs = ep_eventsSize ep
                             then ep\<lparr>ep_eventsSize := ep_eventsSize ep * 2\<rparr> else ep)
                   in Inr (w, ep, active)))
            else Inr (w, ep, [])))"

section \<open>newDefaultPoller\<close>

datatype Poller = Poll PollPoller | EPoll EPollPoller

definition newDefaultPoller :: "(string \<Rightarrow> string option) \<Rightarrow> int \<Rightarrow> Poller outcome" where
  "newDefaultPoller getenv epoll_create =
     (if getenv ''DBDKY_USE_POLL'' \<noteq> None then Inr (Poll PollPoller_new)
      else seq (EPollPoller_new epoll_create) (\<lambda>ep. Inr (EPoll ep)))"

text \<open>The destructors: a \<^verbatim>\<open>PollPoller\<close> holds no descriptor of its own.  \<open>fds\<close> are the open descriptors.\<close>

definition Poller_destroy :: "Poller \<Rightarrow> int set \<Rightarrow> int set" where
  "Poller_destroy po fds = (case po of Poll pp \<Rightarrow> fds | EPoll ep \<Rightarrow> fds - {ep_epollfd ep})"

section \<open>The default poller loses its channels\<close>

text \<open>
  C36: With the default poller a channel can be registered once and then neither changed nor removed.
  The first update of a new channel succeeds and the kernel watches it, but any later update of
  it, whatever its events, and any removal fails an assertion.
\<close>

theorem epoll_second_update_fails:
  assumes "chans w p = Some c" "ch_index c = kNew" "ep_channels ep (ch_fd c) = None"
    and "epoll_ctl EPOLL_CTL_ADD (ch_fd c)"
  shows "\<exists>w' ep' c'. ep_update epoll_ctl p (w, ep) = Inr (w', ep') \<and> chans w' p = Some c'
    \<and> ep_kernel ep' (ch_fd c) = Some (ch_events c, p)
    \<and> (\<forall>e. ep_update epoll_ctl p (put_chan p (c'\<lparr>ch_events := e\<rparr>) w', ep') = Inl Assertion_Failed
           \<and> ep_remove epoll_ctl p (put_chan p (c'\<lparr>ch_events := e\<rparr>) w', ep') = Inl Assertion_Failed)"
  using assms
  by (simp add: ep_update_def ep_remove_def with_chan_def put_chan_def ep_ctl_def kNew_def kAdded_def
      kDeleted_def Let_def)

theorem epoll_second_update_fails_witness:
  "\<exists>w' ep' c'. ep_update (\<lambda>op fd. True) 1
       (\<lparr>chans = [1 \<mapsto> (Channel_new 0 3 :: string Channel)\<lparr>ch_events := kReadEvent\<rparr>], owners = {}\<rparr>,
        \<lparr>ep_epollfd = 4, ep_eventsSize = 16, ep_channels = (\<lambda>_. None), ep_kernel = (\<lambda>_. None)\<rparr>)
       = Inr (w', ep') \<and> chans w' 1 = Some c'
     \<and> (\<forall>e. ep_update (\<lambda>op fd. True) 1 (put_chan 1 (c'\<lparr>ch_events := e\<rparr>) w', ep') = Inl Assertion_Failed)"
  using epoll_second_update_fails
    [of "\<lparr>chans = [1 \<mapsto> (Channel_new 0 3 :: string Channel)\<lparr>ch_events := kReadEvent\<rparr>], owners = {}\<rparr>" 1
      "(Channel_new 0 3 :: string Channel)\<lparr>ch_events := kReadEvent\<rparr>"
      "\<lparr>ep_epollfd = 4, ep_eventsSize = 16, ep_channels = (\<lambda>_. None), ep_kernel = (\<lambda>_. None)\<rparr>"
      "\<lambda>op fd. True"]
  by (auto simp: Channel_new_def kNew_def)

section \<open>The poll-based poller keeps a map\<close>

text \<open>
  A disabled entry has its descriptor stored as a negative number.  The array and the indices kept in
  the channels implement a map from descriptors to entries.
\<close>

definition norm_fd :: "int \<Rightarrow> int" where
  "norm_fd f = (if f < 0 then - f - 1 else f)"

definition pp_inv :: "('cb, 'm) chan_heap_scheme \<Rightarrow> PollPoller \<Rightarrow> bool" where
  "pp_inv w pp \<longleftrightarrow>
     (\<forall>fd p. pp_channels pp fd = Some p \<longrightarrow> 0 \<le> fd \<and>
        (\<exists>c i. chans w p = Some c \<and> ch_fd c = fd \<and> ch_index c = int i \<and> i < length (pp_pollfds pp)
               \<and> norm_fd (pfd_fd (pp_pollfds pp ! i)) = fd))
     \<and> (\<forall>i<length (pp_pollfds pp). \<exists>p c. pp_channels pp (norm_fd (pfd_fd (pp_pollfds pp ! i))) = Some p
          \<and> chans w p = Some c \<and> ch_index c = int i)"

definition watched :: "('cb, 'm) chan_heap_scheme \<times> PollPoller \<Rightarrow> int \<Rightarrow> pollfd option" where
  "watched wp fd =
     (case wp of (w, pp) \<Rightarrow>
       (case pp_channels pp fd of
          None \<Rightarrow> None
        | Some p \<Rightarrow> (case chans w p of
                      None \<Rightarrow> None
                    | Some c \<Rightarrow> Some (pp_pollfds pp ! nat (ch_index c)))))"

definition entry_of :: "'cb Channel \<Rightarrow> pollfd" where
  "entry_of c = \<lparr>pfd_fd = ch_fd c, pfd_events = short_of (ch_events c), pfd_revents = 0\<rparr>"

definition entry_update :: "'cb Channel \<Rightarrow> pollfd \<Rightarrow> pollfd" where
  "entry_update c e =
     e\<lparr>pfd_events := short_of (ch_events c), pfd_revents := 0,
       pfd_fd := (if isNoneEvent c then - ch_fd c - 1 else pfd_fd e)\<rparr>"

lemma norm_fd_eq: "0 \<le> fd \<Longrightarrow> norm_fd f = fd \<longleftrightarrow> f = fd \<or> f = - fd - 1"
  by (auto simp: norm_fd_def)

lemma norm_fd_id: "0 \<le> fd \<Longrightarrow> norm_fd fd = fd" "0 \<le> fd \<Longrightarrow> norm_fd (- fd - 1) = fd"
  by (auto simp: norm_fd_def)

lemma pp_registered:
  assumes "pp_inv w pp" "pp_channels pp fd = Some p"
  obtains c i where "0 \<le> fd" "chans w p = Some c" "ch_fd c = fd" "ch_index c = int i"
    "i < length (pp_pollfds pp)" "norm_fd (pfd_fd (pp_pollfds pp ! i)) = fd"
  using assms unfolding pp_inv_def by blast

lemma pp_entry_owner:
  assumes "pp_inv w pp" "i < length (pp_pollfds pp)"
  obtains p c where "pp_channels pp (norm_fd (pfd_fd (pp_pollfds pp ! i))) = Some p"
    "chans w p = Some c" "ch_index c = int i"
  using assms unfolding pp_inv_def by blast

lemma pp_invI:
  assumes "\<And>fd p. pp_channels pp fd = Some p \<Longrightarrow>
      \<exists>c i. 0 \<le> fd \<and> chans w p = Some c \<and> ch_fd c = fd \<and> ch_index c = int i
            \<and> i < length (pp_pollfds pp) \<and> norm_fd (pfd_fd (pp_pollfds pp ! i)) = fd"
    and "\<And>i. i < length (pp_pollfds pp) \<Longrightarrow>
      \<exists>p c. pp_channels pp (norm_fd (pfd_fd (pp_pollfds pp ! i))) = Some p
            \<and> chans w p = Some c \<and> ch_index c = int i"
  shows "pp_inv w pp"
  using assms unfolding pp_inv_def by blast

text \<open>Two registered channels with the same index are the same.\<close>

lemma pp_index_unique:
  assumes "pp_inv w pp" "pp_channels pp fd = Some p" "pp_channels pp fd' = Some p'"
    "chans w p = Some c" "chans w p' = Some c'" "ch_index c = ch_index c'"
  shows "fd = fd'"
proof -
  obtain i where i: "ch_index c = int i" "norm_fd (pfd_fd (pp_pollfds pp ! i)) = fd"
    using pp_registered [OF assms(1,2)] assms(4) by auto
  obtain j where j: "ch_index c' = int j" "norm_fd (pfd_fd (pp_pollfds pp ! j)) = fd'"
    using pp_registered [OF assms(1,3)] assms(5) by auto
  show ?thesis using i j assms(6) by simp
qed

lemma pp_add:
  assumes inv: "pp_inv w pp" and c: "chans w p = Some c" "ch_index c < 0" "0 \<le> ch_fd c"
    and free: "pp_channels pp (ch_fd c) = None"
  shows "\<exists>k pp'. pp_update p (w, pp) = Inr (put_chan p (c\<lparr>ch_index := k\<rparr>) w, pp') \<and> 0 \<le> k
    \<and> pp_inv (put_chan p (c\<lparr>ch_index := k\<rparr>) w) pp'
    \<and> pp_channels pp' = (pp_channels pp)(ch_fd c \<mapsto> p)
    \<and> watched (put_chan p (c\<lparr>ch_index := k\<rparr>) w, pp') = (watched (w, pp))(ch_fd c \<mapsto> entry_of c)"
proof -
  let ?n = "length (pp_pollfds pp)"
  let ?w = "put_chan p (c\<lparr>ch_index := int ?n\<rparr>) w"
  let ?pp = "pp\<lparr>pp_pollfds := pp_pollfds pp @ [entry_of c], pp_channels := (pp_channels pp)(ch_fd c \<mapsto> p)\<rparr>"
  have other: "q \<noteq> p" if "pp_channels pp fd = Some q" for fd q
    using pp_registered [OF inv that] c(1,2) by fastforce
  have upd: "pp_update p (w, pp) = Inr (?w, ?pp)"
    using c free by (simp add: pp_update_def with_chan_def Let_def entry_of_def)
  have "pp_inv ?w ?pp"
  proof (rule pp_invI)
    fix fd q assume q: "pp_channels ?pp fd = Some q"
    show "\<exists>d i. 0 \<le> fd \<and> chans ?w q = Some d \<and> ch_fd d = fd \<and> ch_index d = int i
        \<and> i < length (pp_pollfds ?pp) \<and> norm_fd (pfd_fd (pp_pollfds ?pp ! i)) = fd"
    proof (cases "fd = ch_fd c")
      case True
      then show ?thesis
        using q c(3) by (intro exI [of _ "c\<lparr>ch_index := int ?n\<rparr>"] exI [of _ ?n])
          (simp add: put_chan_def entry_of_def norm_fd_id)
    next
      case False
      then have old: "pp_channels pp fd = Some q" using q by simp
      obtain d i where "0 \<le> fd" "chans w q = Some d" "ch_fd d = fd" "ch_index d = int i"
          "i < ?n" "norm_fd (pfd_fd (pp_pollfds pp ! i)) = fd"
        using pp_registered [OF inv old] .
      then show ?thesis
        using other [OF old] by (intro exI [of _ d] exI [of _ i]) (simp add: put_chan_def nth_append)
    qed
  next
    fix i assume i: "i < length (pp_pollfds ?pp)"
    show "\<exists>q d. pp_channels ?pp (norm_fd (pfd_fd (pp_pollfds ?pp ! i))) = Some q \<and> chans ?w q = Some d
        \<and> ch_index d = int i"
    proof (cases "i = ?n")
      case True
      then show ?thesis using c(3) by (simp add: entry_of_def norm_fd_id put_chan_def)
    next
      case False
      then have "i < ?n" using i by simp
      then obtain q d where "pp_channels pp (norm_fd (pfd_fd (pp_pollfds pp ! i))) = Some q"
          "chans w q = Some d" "ch_index d = int i"
        using pp_entry_owner [OF inv] by blast
      then show ?thesis
        using \<open>i < ?n\<close> free other by (auto simp: nth_append put_chan_def)
    qed
  qed
  moreover have "watched (?w, ?pp) = (watched (w, pp))(ch_fd c \<mapsto> entry_of c)"
  proof
    fix fd
    show "watched (?w, ?pp) fd = ((watched (w, pp))(ch_fd c \<mapsto> entry_of c)) fd"
    proof (cases "pp_channels pp fd")
      case None
      then show ?thesis by (simp add: watched_def put_chan_def)
    next
      case (Some q)
      obtain d i where "chans w q = Some d" "ch_index d = int i" "i < ?n"
        using pp_registered [OF inv Some] .
      moreover have "fd \<noteq> ch_fd c" using Some free by auto
      ultimately show ?thesis
        using Some other [OF Some] by (simp add: watched_def put_chan_def nth_append)
    qed
  qed
  ultimately show ?thesis using upd by auto
qed

lemma pp_mod:
  assumes inv: "pp_inv w pp" and reg: "pp_channels pp (ch_fd c) = Some p" and c: "chans w p = Some c"
  shows "\<exists>pp' e. pp_update p (w, pp) = Inr (w, pp') \<and> pp_inv w pp' \<and> pp_channels pp' = pp_channels pp
    \<and> watched (w, pp) (ch_fd c) = Some e
    \<and> watched (w, pp') = (watched (w, pp))(ch_fd c \<mapsto> entry_update c e)"
proof -
  obtain i where i: "0 \<le> ch_fd c" "ch_index c = int i" "i < length (pp_pollfds pp)"
      "norm_fd (pfd_fd (pp_pollfds pp ! i)) = ch_fd c"
    using pp_registered [OF inv reg] c by auto
  let ?e = "pp_pollfds pp ! i"
  let ?pp = "pp\<lparr>pp_pollfds := (pp_pollfds pp)[i := entry_update c ?e]\<rparr>"
  have norm: "norm_fd (pfd_fd (pp_pollfds ?pp ! j)) = norm_fd (pfd_fd (pp_pollfds pp ! j))"
    if "j < length (pp_pollfds pp)" for j
    using that i by (cases "j = i") (auto simp: entry_update_def norm_fd_id)
  have "pfd_fd ?e = ch_fd c \<or> pfd_fd ?e = - ch_fd c - 1"
    using i(1,4) norm_fd_eq by blast
  then have upd: "pp_update p (w, pp) = Inr (w, ?pp)"
    using c reg i(2,3) by (auto simp: pp_update_def with_chan_def Let_def entry_update_def)
  have "pp_inv w ?pp"
  proof (rule pp_invI)
    fix fd q assume "pp_channels ?pp fd = Some q"
    then have q: "pp_channels pp fd = Some q" by simp
    obtain d j where j: "0 \<le> fd" "chans w q = Some d" "ch_fd d = fd" "ch_index d = int j"
        "j < length (pp_pollfds pp)" "norm_fd (pfd_fd (pp_pollfds pp ! j)) = fd"
      using pp_registered [OF inv q] .
    then show "\<exists>d i. 0 \<le> fd \<and> chans w q = Some d \<and> ch_fd d = fd \<and> ch_index d = int i
        \<and> i < length (pp_pollfds ?pp) \<and> norm_fd (pfd_fd (pp_pollfds ?pp ! i)) = fd"
      using norm [OF j(5)] by (intro exI [of _ d] exI [of _ j]) simp
  next
    fix j assume "j < length (pp_pollfds ?pp)"
    then have j: "j < length (pp_pollfds pp)" by simp
    show "\<exists>q d. pp_channels ?pp (norm_fd (pfd_fd (pp_pollfds ?pp ! j))) = Some q \<and> chans w q = Some d
        \<and> ch_index d = int j"
    proof -
      obtain q d where "pp_channels pp (norm_fd (pfd_fd (pp_pollfds pp ! j))) = Some q"
          "chans w q = Some d" "ch_index d = int j"
        using pp_entry_owner [OF inv j] .
      then show ?thesis unfolding norm [OF j] by auto
    qed
  qed
  moreover have "watched (w, ?pp) = (watched (w, pp))(ch_fd c \<mapsto> entry_update c ?e)"
  proof
    fix fd
    show "watched (w, ?pp) fd = ((watched (w, pp))(ch_fd c \<mapsto> entry_update c ?e)) fd"
    proof (cases "pp_channels pp fd")
      case None
      then show ?thesis using reg by (auto simp: watched_def)
    next
      case (Some q)
      obtain d j where j: "chans w q = Some d" "ch_index d = int j" "j < length (pp_pollfds pp)"
        using pp_registered [OF inv Some] .
      have "j \<noteq> i" if "fd \<noteq> ch_fd c"
        using pp_index_unique [OF inv Some reg j(1) c] that j(2) i(2) by auto
      then show ?thesis
        using Some reg c i j by (cases "fd = ch_fd c") (auto simp: watched_def)
    qed
  qed
  moreover have "watched (w, pp) (ch_fd c) = Some ?e"
    using reg c i by (simp add: watched_def)
  ultimately show ?thesis using upd by auto
qed

text \<open>
  Removing entry \<open>i\<close> moves the last entry, number \<open>n\<close>, into its place; this is also true when \<open>i\<close> is
  the last entry itself.
\<close>

lemma pp_inv_removed:
  assumes inv: "pp_inv w pp" and reg: "pp_channels pp (ch_fd c) = Some p" and c: "chans w p = Some c"
    and i: "ch_index c = int i" "i < length (pp_pollfds pp)"
  defines "n \<equiv> length (pp_pollfds pp) - 1" and "chs \<equiv> (pp_channels pp)(ch_fd c := None)"
  assumes fds: "length fds = n" "\<And>j. j < n \<Longrightarrow> fds ! j = pp_pollfds pp ! (if j = i then n else j)"
    and idx: "\<And>fd q d j. chs fd = Some q \<Longrightarrow> chans w q = Some d \<Longrightarrow> ch_index d = int j \<Longrightarrow>
        \<exists>d'. chans w' q = Some d' \<and> ch_fd d' = ch_fd d \<and> ch_index d' = int (if j = n then i else j)"
  shows "pp_inv w' (pp\<lparr>pp_pollfds := fds, pp_channels := chs\<rparr>)"
    and "watched (w', pp\<lparr>pp_pollfds := fds, pp_channels := chs\<rparr>) = (watched (w, pp))(ch_fd c := None)"
proof -
  have i': "ch_index c = int i" using i(1) .
  have moved: "\<exists>d'. chans w' q = Some d' \<and> ch_fd d' = fd \<and> ch_index d' = int (if j = n then i else j)
      \<and> (if j = n then i else j) < n \<and> fds ! (if j = n then i else j) = pp_pollfds pp ! j"
    if q: "chs fd = Some q" "chans w q = Some d" "ch_fd d = fd" "ch_index d = int j"
      "j < length (pp_pollfds pp)" for fd q d j
  proof -
    have "fd \<noteq> ch_fd c" "pp_channels pp fd = Some q"
      using q(1) by (auto simp: chs_def split: if_splits)
    then have "j \<noteq> i"
      using pp_index_unique [OF inv _ reg q(2) c] q(4) i(1) by auto
    then show ?thesis
      using idx [OF q(1,2,4)] q(3,5) i(2) fds(2) by (auto simp: n_def)
  qed
  show "pp_inv w' (pp\<lparr>pp_pollfds := fds, pp_channels := chs\<rparr>)"
  proof (rule pp_invI)
    fix fd q assume "pp_channels (pp\<lparr>pp_pollfds := fds, pp_channels := chs\<rparr>) fd = Some q"
    then have q: "chs fd = Some q" "pp_channels pp fd = Some q"
      by (auto simp: chs_def split: if_splits)
    obtain d j where j: "0 \<le> fd" "chans w q = Some d" "ch_fd d = fd" "ch_index d = int j"
        "j < length (pp_pollfds pp)" "norm_fd (pfd_fd (pp_pollfds pp ! j)) = fd"
      using pp_registered [OF inv q(2)] .
    obtain d' where d': "chans w' q = Some d'" "ch_fd d' = fd" "ch_index d' = int (if j = n then i else j)"
        "(if j = n then i else j) < n" "fds ! (if j = n then i else j) = pp_pollfds pp ! j"
      using moved [OF q(1) j(2-5)] by blast
    then show "\<exists>d i. 0 \<le> fd \<and> chans w' q = Some d \<and> ch_fd d = fd \<and> ch_index d = int i
        \<and> i < length (pp_pollfds (pp\<lparr>pp_pollfds := fds, pp_channels := chs\<rparr>))
        \<and> norm_fd (pfd_fd (pp_pollfds (pp\<lparr>pp_pollfds := fds, pp_channels := chs\<rparr>) ! i)) = fd"
      using j(1,6) fds(1) by (intro exI [of _ d'] exI [of _ "if j = n then i else j"]) simp
  next
    fix j assume "j < length (pp_pollfds (pp\<lparr>pp_pollfds := fds, pp_channels := chs\<rparr>))"
    then have j: "j < n" using fds(1) by simp
    define k where "k = (if j = i then n else j)"
    have k: "k < length (pp_pollfds pp)" "k \<noteq> i" "(if k = n then i else k) = j"
      using j i(2) by (auto simp: k_def n_def)
    obtain q d where q: "pp_channels pp (norm_fd (pfd_fd (pp_pollfds pp ! k))) = Some q"
        "chans w q = Some d" "ch_index d = int k"
      using pp_entry_owner [OF inv k(1)] .
    have "norm_fd (pfd_fd (pp_pollfds pp ! k)) \<noteq> ch_fd c"
      using q reg c i(1) k(2) by auto
    then have chs: "chs (norm_fd (pfd_fd (pp_pollfds pp ! k))) = Some q"
      using q(1) by (simp add: chs_def)
    then show "\<exists>q d. pp_channels (pp\<lparr>pp_pollfds := fds, pp_channels := chs\<rparr>)
          (norm_fd (pfd_fd (pp_pollfds (pp\<lparr>pp_pollfds := fds, pp_channels := chs\<rparr>) ! j))) = Some q
        \<and> chans w' q = Some d \<and> ch_index d = int j"
      using idx [OF chs q(2,3)] fds(2) [OF j] k(3) by (auto simp: k_def [symmetric])
  qed
  show "watched (w', pp\<lparr>pp_pollfds := fds, pp_channels := chs\<rparr>) = (watched (w, pp))(ch_fd c := None)"
  proof
    fix fd
    show "watched (w', pp\<lparr>pp_pollfds := fds, pp_channels := chs\<rparr>) fd = ((watched (w, pp))(ch_fd c := None)) fd"
    proof (cases "chs fd")
      case None
      then show ?thesis by (auto simp: watched_def chs_def split: if_splits)
    next
      case (Some q)
      then have old: "pp_channels pp fd = Some q" "fd \<noteq> ch_fd c"
        by (auto simp: chs_def split: if_splits)
      obtain d j where j: "chans w q = Some d" "ch_fd d = fd" "ch_index d = int j"
          "j < length (pp_pollfds pp)"
        using pp_registered [OF inv old(1)] .
      show ?thesis
        using moved [OF Some j] Some old j by (auto simp: watched_def split: if_splits)
    qed
  qed
qed

lemma pp_rem:
  assumes inv: "pp_inv w pp" and reg: "pp_channels pp (ch_fd c) = Some p" and c: "chans w p = Some c"
    and off: "isNoneEvent c" "watched (w, pp) (ch_fd c) = Some e" "pfd_fd e = - ch_fd c - 1"
      "pfd_events e = 0"
  shows "\<exists>w' pp'. pp_remove p (w, pp) = Inr (w', pp') \<and> pp_inv w' pp'
    \<and> pp_channels pp' = (pp_channels pp)(ch_fd c := None)
    \<and> watched (w', pp') = (watched (w, pp))(ch_fd c := None)"
proof -
  let ?fds = "pp_pollfds pp" and ?chs = "(pp_channels pp)(ch_fd c := None)"
  define n where "n = length ?fds - 1"
  obtain i where i: "0 \<le> ch_fd c" "ch_index c = int i" "i < length ?fds"
      "norm_fd (pfd_fd (?fds ! i)) = ch_fd c"
    using pp_registered [OF inv reg] c by auto
  have len: "length ?fds = Suc n" using i(3) by (simp add: n_def)
  then have last: "last ?fds = ?fds ! n" by (cases "?fds = []") (auto simp: last_conv_nth n_def)
  have e: "e = ?fds ! i"
    using off(2) reg c i by (simp add: watched_def)
  note pre = c reg i(2,3) off(1,3,4) e
  show ?thesis
  proof (cases "i = n")
    case True
    have "pp_remove p (w, pp) = Inr (w, pp\<lparr>pp_pollfds := butlast ?fds, pp_channels := ?chs\<rparr>)"
      using True pre len by (simp add: pp_remove_def with_chan_def isNoneEvent_def kNoneEvent_def)
    moreover have "\<exists>d'. chans w q = Some d' \<and> ch_fd d' = ch_fd d
        \<and> ch_index d' = int (if j = length ?fds - 1 then i else j)"
      if "?chs fd = Some q" "chans w q = Some d" "ch_index d = int j" for fd q d j
      using that True len by simp
    ultimately show ?thesis
      using pp_inv_removed [OF inv reg c i(2,3), of "butlast ?fds" w] len True
      by (simp add: nth_butlast)
  next
    case False
    then have n: "n < length ?fds" "i < n" using len i(3) by simp_all
    obtain q d where q: "pp_channels pp (norm_fd (pfd_fd (?fds ! n))) = Some q" "chans w q = Some d"
        "ch_index d = int n"
      using pp_entry_owner [OF inv n(1)] .
    have "norm_fd (pfd_fd (?fds ! n)) \<noteq> ch_fd c"
      using q reg c i(2) False by auto
    then have chs: "?chs (norm_fd (pfd_fd (?fds ! n))) = Some q"
      using q(1) by simp
    let ?w = "put_chan q (d\<lparr>ch_index := int i\<rparr>) w"
    let ?l = "butlast (?fds[i := ?fds ! n, n := ?fds ! i])"
    have rem: "pp_remove p (w, pp) = Inr (?w, pp\<lparr>pp_pollfds := ?l, pp_channels := ?chs\<rparr>)"
      using False pre len chs q(2) last
      by (simp add: pp_remove_def with_chan_def isNoneEvent_def kNoneEvent_def Let_def norm_fd_def)
    have idx: "\<exists>d'. chans ?w q2 = Some d' \<and> ch_fd d' = ch_fd d2
        \<and> ch_index d' = int (if j = length ?fds - 1 then i else j)"
      if "?chs fd = Some q2" "chans w q2 = Some d2" "ch_index d2 = int j" for fd q2 d2 j
    proof (cases "q2 = q")
      case True
      then show ?thesis using that q len by (simp add: put_chan_def)
    next
      case False
      have old: "pp_channels pp fd = Some q2" using that(1) by (simp split: if_splits)
      have "j \<noteq> n"
      proof
        assume "j = n"
        then have "fd = norm_fd (pfd_fd (?fds ! n))"
          using pp_index_unique [OF inv old q(1) that(2) q(2)] that(3) q(3) by simp
        then show False using old q(1) False by simp
      qed
      then show ?thesis using that False len by (simp add: put_chan_def)
    qed
    have l: "length ?l = length ?fds - 1"
      "j < length ?fds - 1 \<Longrightarrow> ?l ! j = ?fds ! (if j = i then length ?fds - 1 else j)" for j
      using len n by (auto simp: nth_butlast nth_list_update)
    note removed = pp_inv_removed [OF inv reg c i(2,3) l idx]
    have "pp_inv ?w (pp\<lparr>pp_pollfds := ?l, pp_channels := ?chs\<rparr>)"
      by (rule removed(1))
    moreover have "watched (?w, pp\<lparr>pp_pollfds := ?l, pp_channels := ?chs\<rparr>)
        = (watched (w, pp))(ch_fd c := None)"
      by (rule removed(2))
    ultimately show ?thesis
      using rem by (intro exI conjI) simp_all
  qed
qed

text \<open>Changing the events of a channel in the heap does not touch the poller.\<close>

lemma pp_set_events:
  assumes "pp_inv w pp" "chans w p = Some c"
  shows "pp_inv (put_chan p (c\<lparr>ch_events := ev\<rparr>) w) pp"
    and "watched (put_chan p (c\<lparr>ch_events := ev\<rparr>) w, pp) = watched (w, pp)"
proof -
  let ?w = "put_chan p (c\<lparr>ch_events := ev\<rparr>) w"
  have same: "\<exists>d'. chans ?w q = Some d' \<and> ch_fd d' = ch_fd d \<and> ch_index d' = ch_index d"
    if "chans w q = Some d" for q d
    using that assms(2) by (auto simp: put_chan_def)
  show "pp_inv ?w pp"
  proof (rule pp_invI)
    fix fd q assume "pp_channels pp fd = Some q"
    then obtain d i where d: "0 \<le> fd" "chans w q = Some d" "ch_fd d = fd" "ch_index d = int i"
        "i < length (pp_pollfds pp)" "norm_fd (pfd_fd (pp_pollfds pp ! i)) = fd"
      using pp_registered [OF assms(1)] by blast
    then show "\<exists>d i. 0 \<le> fd \<and> chans ?w q = Some d \<and> ch_fd d = fd \<and> ch_index d = int i
        \<and> i < length (pp_pollfds pp) \<and> norm_fd (pfd_fd (pp_pollfds pp ! i)) = fd"
      using same [OF d(2)] by auto
  next
    fix i assume "i < length (pp_pollfds pp)"
    then obtain q d where "pp_channels pp (norm_fd (pfd_fd (pp_pollfds pp ! i))) = Some q"
        "chans w q = Some d" "ch_index d = int i"
      using pp_entry_owner [OF assms(1)] by blast
    then show "\<exists>q d. pp_channels pp (norm_fd (pfd_fd (pp_pollfds pp ! i))) = Some q \<and> chans ?w q = Some d
        \<and> ch_index d = int i"
      using same by fastforce
  qed
  show "watched (?w, pp) = watched (w, pp)"
    using assms(2) by (auto simp: watched_def put_chan_def fun_eq_iff split: option.split)
qed

text \<open>
  C5: The poll-based poller implements a map from descriptors to watched entries, although it
  keeps an array that removal reorders.  Under its invariant, updating a channel that is not
  registered adds exactly the entry for it, updating a registered channel changes exactly its
  entry, and removing a disabled channel deletes exactly its entry; no assertion fails, and the
  invariant is kept.
\<close>

theorem pollpoller_refines_map:
  assumes "pp_inv w pp" "chans w p = Some c"
  shows "(ch_index c < 0 \<and> 0 \<le> ch_fd c \<and> pp_channels pp (ch_fd c) = None \<longrightarrow>
      (\<exists>w' pp'. pp_update p (w, pp) = Inr (w', pp') \<and> pp_inv w' pp'
        \<and> watched (w', pp') = (watched (w, pp))(ch_fd c \<mapsto> entry_of c)))
    \<and> (pp_channels pp (ch_fd c) = Some p \<longrightarrow>
      (\<exists>pp' e. pp_update p (w, pp) = Inr (w, pp') \<and> pp_inv w pp' \<and> watched (w, pp) (ch_fd c) = Some e
        \<and> watched (w, pp') = (watched (w, pp))(ch_fd c \<mapsto> entry_update c e)))
    \<and> (\<forall>e. pp_channels pp (ch_fd c) = Some p \<and> isNoneEvent c \<and> watched (w, pp) (ch_fd c) = Some e
        \<and> pfd_fd e = - ch_fd c - 1 \<and> pfd_events e = 0 \<longrightarrow>
      (\<exists>w' pp'. pp_remove p (w, pp) = Inr (w', pp') \<and> pp_inv w' pp'
        \<and> watched (w', pp') = (watched (w, pp))(ch_fd c := None)))"
proof (intro conjI impI allI)
  assume "ch_index c < 0 \<and> 0 \<le> ch_fd c \<and> pp_channels pp (ch_fd c) = None"
  then show "\<exists>w' pp'. pp_update p (w, pp) = Inr (w', pp') \<and> pp_inv w' pp'
        \<and> watched (w', pp') = (watched (w, pp))(ch_fd c \<mapsto> entry_of c)"
    using pp_add [OF assms] by blast
next
  assume "pp_channels pp (ch_fd c) = Some p"
  then show "\<exists>pp' e. pp_update p (w, pp) = Inr (w, pp') \<and> pp_inv w pp' \<and> watched (w, pp) (ch_fd c) = Some e
        \<and> watched (w, pp') = (watched (w, pp))(ch_fd c \<mapsto> entry_update c e)"
    using pp_mod [OF assms(1) _ assms(2)] by blast
next
  fix e
  assume "pp_channels pp (ch_fd c) = Some p \<and> isNoneEvent c \<and> watched (w, pp) (ch_fd c) = Some e
        \<and> pfd_fd e = - ch_fd c - 1 \<and> pfd_events e = 0"
  then show "\<exists>w' pp'. pp_remove p (w, pp) = Inr (w', pp') \<and> pp_inv w' pp'
        \<and> watched (w', pp') = (watched (w, pp))(ch_fd c := None)"
    using pp_rem [OF assms(1) _ assms(2)] by blast
qed

lemma pp_inv_new: "pp_inv w PollPoller_new"
  by (simp add: pp_inv_def PollPoller_new_def)

theorem pollpoller_refines_map_witness:
  "\<exists>w' pp'. pp_update 1 (\<lparr>chans = [1 \<mapsto> (Channel_new 0 3 :: string Channel)], owners = {}\<rparr>, PollPoller_new)
     = Inr (w', pp') \<and> pp_inv w' pp'"
  using pollpoller_refines_map [OF pp_inv_new, of
      "\<lparr>chans = [1 \<mapsto> (Channel_new 0 3 :: string Channel)], owners = {}\<rparr>" 1 "Channel_new 0 3"]
  by (auto simp: Channel_new_def PollPoller_new_def)

section \<open>A channel that is enabled again\<close>

text \<open>
  Disabling stores the descriptor as a negative number, and enabling again does not restore it.  The
  next time anything is reported, the search for the negative descriptor fails its assertion.
\<close>

lemma pp_fillActive_bad:
  assumes "e \<in> set fds" "sint (pfd_events e) > 0" "pp_channels pp (pfd_fd e) = None"
    and "\<And>fd q. pp_channels pp fd = Some q \<Longrightarrow> \<exists>d. chans w q = Some d \<and> ch_fd d = fd"
  shows "pp_fillActive fds pp (w, active) = Inl Assertion_Failed"
  using assms(1,4)
proof (induction fds arbitrary: w active)
  case (Cons x xs)
  show ?case
  proof (cases "sint (pfd_events x) > 0 \<and> pp_channels pp (pfd_fd x) \<noteq> None")
    case True
    then obtain q where q: "pp_channels pp (pfd_fd x) = Some q" by auto
    then obtain d where d: "chans w q = Some d" "ch_fd d = pfd_fd x" using Cons.prems(2) by blast
    let ?w = "put_chan q (d\<lparr>ch_revents := scast (pfd_revents x)\<rparr>) w"
    have live: "\<exists>d. chans ?w r = Some d \<and> ch_fd d = fd" if "pp_channels pp fd = Some r" for fd r
      using Cons.prems(2) [OF that] d by (auto simp: put_chan_def)
    have "e \<in> set xs" using Cons.prems(1) True assms(3) by auto
    then show ?thesis
      using Cons.IH [OF _ live] True q d by (simp add: with_chan_def)
  next
    case False
    then show ?thesis
      using Cons assms(2,3) by (cases "sint (pfd_events x) > 0") (auto split: option.splits)
  qed
qed simp

text \<open>
  With the poll-based poller a channel that was disabled and is enabled again breaks the loop.  The
  update itself succeeds, but it leaves the negated descriptor in the entry; the channel is no
  longer watched, and as soon as any descriptor is reported ready the poller fails an assertion.
\<close>

theorem poll_enabled_again_fails:
  assumes "pp_inv w pp" "pp_channels pp (ch_fd c) = Some p" "chans w p = Some c"
    and "watched (w, pp) (ch_fd c) = Some e" "pfd_fd e = - ch_fd c - 1"
    and "0 < sint (short_of (ch_events c))" "\<not> isNoneEvent c" "0 < fst ready"
  shows "\<exists>pp'. pp_update p (w, pp) = Inr (w, pp') \<and> pp_poll ready (w, pp') = Inl Assertion_Failed"
proof -
  obtain pp' where pp': "pp_update p (w, pp) = Inr (w, pp')" "pp_inv w pp'"
      "pp_channels pp' = pp_channels pp" "watched (w, pp') (ch_fd c) = Some (entry_update c e)"
    using pp_mod [OF assms(1-3)] assms(4) by auto
  have reg: "pp_channels pp' (ch_fd c) = Some p" using assms(2) pp'(3) by simp
  obtain i where i: "0 \<le> ch_fd c" "ch_index c = int i" "i < length (pp_pollfds pp')"
    using pp_registered [OF pp'(2) reg] assms(3) by auto
  have e: "pp_pollfds pp' ! i = entry_update c e"
    using pp'(4) reg assms(3) i by (simp add: watched_def)
  let ?fds = "map (\<lambda>(i, pfd). pfd\<lparr>pfd_revents := snd ready i\<rparr>) (enumerate 0 (pp_pollfds pp'))"
  let ?e = "(entry_update c e)\<lparr>pfd_revents := snd ready i\<rparr>"
  have "?fds ! i = ?e" "i < length ?fds"
    using i(3) e by (simp_all add: nth_enumerate_eq)
  then have "?e \<in> set ?fds" by (metis nth_mem)
  moreover have "pp_channels pp' (pfd_fd ?e) = None"
  proof (cases "pp_channels pp' (pfd_fd ?e)")
    case (Some q)
    then have "0 \<le> pfd_fd ?e" using pp_registered [OF pp'(2)] by metis
    then show ?thesis using i(1) assms(5,7) by (simp add: entry_update_def)
  qed simp
  moreover have "\<exists>d. chans w q = Some d \<and> ch_fd d = fd" if "pp_channels pp' fd = Some q" for fd q
    using pp_registered [OF pp'(2) that] by metis
  ultimately have "pp_fillActive ?fds (pp'\<lparr>pp_pollfds := ?fds\<rparr>) (w, []) = Inl Assertion_Failed"
    using assms(6) by (intro pp_fillActive_bad [of ?e]) (auto simp: entry_update_def)
  then show ?thesis
    using pp'(1) assms(8) by (simp add: pp_poll_def Let_def)
qed

definition disabled_channel :: "string Channel" where
  "disabled_channel = (Channel_new 0 3)\<lparr>ch_events := kReadEvent, ch_index := 0\<rparr>"

definition disabled_poller :: PollPoller where
  "disabled_poller = \<lparr>pp_pollfds = [\<lparr>pfd_fd = - 4, pfd_events = 0, pfd_revents = 0\<rparr>], pp_channels = [3 \<mapsto> 1]\<rparr>"

theorem poll_enabled_again_fails_witness:
  "\<exists>pp'. pp_update 1 (\<lparr>chans = [1 \<mapsto> disabled_channel], owners = {}\<rparr>, disabled_poller)
       = Inr (\<lparr>chans = [1 \<mapsto> disabled_channel], owners = {}\<rparr>, pp')
     \<and> pp_poll (1, \<lambda>_. 0) (\<lparr>chans = [1 \<mapsto> disabled_channel], owners = {}\<rparr>, pp') = Inl Assertion_Failed"
proof (rule poll_enabled_again_fails [where c = disabled_channel
      and e = "\<lparr>pfd_fd = - 4, pfd_events = 0, pfd_revents = 0\<rparr>"])
  show "pp_inv \<lparr>chans = [1 \<mapsto> disabled_channel], owners = {}\<rparr> disabled_poller"
    by (simp add: pp_inv_def disabled_poller_def disabled_channel_def Channel_new_def norm_fd_def)
  show "0 < sint (short_of (ch_events disabled_channel))"
    by (simp add: disabled_channel_def short_of_def kReadEvent_def poll_bits)
qed (simp_all add: disabled_poller_def disabled_channel_def Channel_new_def watched_def isNoneEvent_def
    kReadEvent_def kNoneEvent_def poll_bits)

end
