(* ===== verification/Timers.thy ===== *)
theory Timers
  imports Time_Stamp Threads "HOL-Library.Product_Lexorder"
begin

text \<open>
  \<^verbatim>\<open>src/src/port/Timer.h\<close>, \<^verbatim>\<open>TimerId.h\<close>, \<^verbatim>\<open>TimerQueue.h\<close> and \<^verbatim>\<open>TimerQueue.cpp\<close>: timers in a
  heap of objects, kept in a set ordered by expiration and address.  The clock, the floating-point
  rounding, the allocator and the result of \<^verbatim>\<open>timerfd_create\<close> are parameters.  A callback is what it
  does to the queue: a list of timers that it adds and cancels.
\<close>

section \<open>Timer\<close>

type_synonym address = nat

record 'cb Timer =
  tr_callback :: 'cb
  tr_expiration :: Timestamp
  tr_interval :: real
  tr_repeat :: bool
  tr_sequence :: "64 word"

text \<open>The constructor takes its number from the atomic counter \<^verbatim>\<open>s_numCreated_\<close>.\<close>

definition Timer_new ::
  "'cb \<Rightarrow> Timestamp \<Rightarrow> real \<Rightarrow> 64 word AtomicIntegerT \<Rightarrow> 'cb Timer \<times> 64 word AtomicIntegerT" where
  "Timer_new cb when interval counter =
     (let (counter, seq) = incrementAndGet counter
      in (\<lparr>tr_callback = cb, tr_expiration = when, tr_interval = interval,
           tr_repeat = (interval > 0), tr_sequence = seq\<rparr>, counter))"

definition Timer_restart :: "(real \<Rightarrow> real) \<Rightarrow> Timestamp \<Rightarrow> 'cb Timer \<Rightarrow> 'cb Timer" where
  "Timer_restart rnd now t =
     (if tr_repeat t then t\<lparr>tr_expiration := addTime rnd now (tr_interval t)\<rparr>
      else t\<lparr>tr_expiration := Timestamp_invalid\<rparr>)"

record TimerId =
  tid_timer :: "address option"
  tid_sequence :: "64 word"

definition TimerId_default :: TimerId where
  "TimerId_default = \<lparr>tid_timer = None, tid_sequence = 0\<rparr>"

definition TimerId_of :: "address \<Rightarrow> 64 word \<Rightarrow> TimerId" where
  "TimerId_of timer sq = \<lparr>tid_timer = Some timer, tid_sequence = sq\<rparr>"

section \<open>TimerQueue\<close>

text \<open>
  An entry is the pair of expiration (in microseconds) and address; \<^verbatim>\<open>std::set\<close> keeps them sorted
  lexicographically.  \<open>tq_settime\<close> is the last value given to \<^verbatim>\<open>timerfd_settime\<close> and the expiration
  it was computed from.
\<close>

type_synonym entry = "int \<times> address"

record 'cb TimerQueue =
  tq_timerfd :: int
  tq_timers :: "entry list"
  tq_activeTimers :: "(address \<times> 64 word) set"
  tq_callingExpired :: bool
  tq_cancelingTimers :: "(address \<times> 64 word) set"
  tq_heap :: "address \<Rightarrow> 'cb Timer option"
  tq_counter :: "64 word AtomicIntegerT"
  tq_settime :: "(int \<times> int) option"
  tq_armed :: "int option"

definition createTimerfd :: "int \<Rightarrow> int outcome" where
  "createTimerfd timerfd_create = (if timerfd_create < 0 then Inl Fatal_Abort else Inr timerfd_create)"

definition TimerQueue_new :: "int \<Rightarrow> 64 word AtomicIntegerT \<Rightarrow> 'cb TimerQueue outcome" where
  "TimerQueue_new timerfd_create counter =
     seq (createTimerfd timerfd_create) (\<lambda>fd.
       Inr \<lparr>tq_timerfd = fd, tq_timers = [], tq_activeTimers = {}, tq_callingExpired = False,
            tq_cancelingTimers = {}, tq_heap = (\<lambda>_. None), tq_counter = counter,
            tq_settime = None, tq_armed = None\<rparr>)"

text \<open>The destructor deletes every timer in the set.\<close>

definition TimerQueue_destroy :: "'cb TimerQueue \<Rightarrow> 'cb TimerQueue" where
  "TimerQueue_destroy q = q\<lparr>tq_heap := (tq_heap q) |` (- snd ` set (tq_timers q))\<rparr>"

definition howMuchTimeFromNow :: "Timestamp \<Rightarrow> Timestamp \<Rightarrow> int \<times> int" where
  "howMuchTimeFromNow now when =
     (let microseconds = microSecondsSinceEpoch when - microSecondsSinceEpoch now;
          microseconds = (if microseconds < 100 then 100 else microseconds)
      in (microseconds sdiv kMicroSecondsPerSecond,
          (microseconds smod kMicroSecondsPerSecond) * 1000))"

text \<open>A failing \<^verbatim>\<open>timerfd_settime\<close> is only logged.\<close>

definition resetTimerfd :: "Timestamp \<Rightarrow> Timestamp \<Rightarrow> 'cb TimerQueue \<Rightarrow> 'cb TimerQueue" where
  "resetTimerfd now expiration q =
     q\<lparr>tq_settime := Some (howMuchTimeFromNow now expiration),
       tq_armed := Some (microSecondsSinceEpoch expiration)\<rparr>"

definition deref :: "'cb TimerQueue \<Rightarrow> address \<Rightarrow> 'cb Timer outcome" where
  "deref q p = (case tq_heap q p of Some t \<Rightarrow> Inr t | None \<Rightarrow> Inl Dangling_Pointer)"

definition tq_insert :: "address \<Rightarrow> 'cb TimerQueue \<Rightarrow> ('cb TimerQueue \<times> bool) outcome" where
  "tq_insert timer q =
     seq (deref q timer) (\<lambda>t.
       let when = microSecondsSinceEpoch (tr_expiration t);
           earliestChanged = (case tq_timers q of [] \<Rightarrow> True | it # _ \<Rightarrow> when < fst it)
       in cassert ((when, timer) \<notin> set (tq_timers q))
            (Inr (q\<lparr>tq_timers := insort (when, timer) (tq_timers q)\<rparr>, earliestChanged)))"

definition addTimerInLoop :: "Timestamp \<Rightarrow> address \<Rightarrow> 'cb TimerQueue \<Rightarrow> 'cb TimerQueue outcome" where
  "addTimerInLoop now timer q =
     seq (tq_insert timer q) (\<lambda>(q, earliestChanged).
       if earliestChanged
       then seq (deref q timer) (\<lambda>t. Inr (resetTimerfd now (tr_expiration t) q))
       else Inr q)"

text \<open>
  \<^verbatim>\<open>addTimer\<close> in the loop's own thread, where \<^verbatim>\<open>runInLoop\<close> calls at once.  \<open>alloc\<close> is where \<^verbatim>\<open>new\<close>
  puts the timer.
\<close>

definition addTimer ::
  "Timestamp \<Rightarrow> address \<Rightarrow> 'cb \<Rightarrow> Timestamp \<Rightarrow> real \<Rightarrow> 'cb TimerQueue \<Rightarrow> ('cb TimerQueue \<times> TimerId) outcome"
where
  "addTimer now alloc cb when interval q =
     (let (timer, counter) = Timer_new cb when interval (tq_counter q);
          q = q\<lparr>tq_heap := (tq_heap q)(alloc \<mapsto> timer), tq_counter := counter\<rparr>
      in seq (addTimerInLoop now alloc q) (\<lambda>q. Inr (q, TimerId_of alloc (tr_sequence timer))))"

definition cancelInLoop :: "TimerId \<Rightarrow> 'cb TimerQueue \<Rightarrow> 'cb TimerQueue outcome" where
  "cancelInLoop timerId q =
     (let timer = (case tid_timer timerId of Some p \<Rightarrow> p | None \<Rightarrow> 0, tid_sequence timerId)
      in if timer \<in> tq_activeTimers q then
           seq (deref q (fst timer)) (\<lambda>t.
             let e = (microSecondsSinceEpoch (tr_expiration t), fst timer) in
             cassert (e \<in> set (tq_timers q))
               (Inr (q\<lparr>tq_timers := remove1 e (tq_timers q),
                       tq_heap := (tq_heap q)(fst timer := None),
                       tq_activeTimers := tq_activeTimers q - {timer}\<rparr>)))
         else if tq_callingExpired q
         then Inr (q\<lparr>tq_cancelingTimers := insert timer (tq_cancelingTimers q)\<rparr>)
         else Inr q)"

definition tq_cancel :: "TimerId \<Rightarrow> 'cb TimerQueue \<Rightarrow> 'cb TimerQueue outcome" where
  "tq_cancel timerId q = cancelInLoop timerId q"

text \<open>The sentry pairs the time with \<^verbatim>\<open>UINT32_MAX\<close> as an address.\<close>

definition UINT32_MAX :: nat where
  "UINT32_MAX = 2 ^ 32 - 1"

fun erase_active :: "entry list \<Rightarrow> 'cb TimerQueue \<Rightarrow> 'cb TimerQueue outcome" where
  "erase_active [] q = Inr q"
| "erase_active (e # es) q =
     seq (deref q (snd e)) (\<lambda>t.
       erase_active es (q\<lparr>tq_activeTimers := tq_activeTimers q - {(snd e, tr_sequence t)}\<rparr>))"

definition getExpired :: "Timestamp \<Rightarrow> 'cb TimerQueue \<Rightarrow> ('cb TimerQueue \<times> entry list) outcome" where
  "getExpired now q =
     (let sentry = (microSecondsSinceEpoch now, UINT32_MAX);
          expired = takeWhile (\<lambda>e. e < sentry) (tq_timers q);
          rest = dropWhile (\<lambda>e. e < sentry) (tq_timers q)
      in cassert (rest = [] \<or> microSecondsSinceEpoch now < fst (hd rest))
           (seq (erase_active expired (q\<lparr>tq_timers := rest\<rparr>)) (\<lambda>q. Inr (q, expired))))"

fun reset_expired :: "(real \<Rightarrow> real) \<Rightarrow> Timestamp \<Rightarrow> entry list \<Rightarrow> 'cb TimerQueue \<Rightarrow> 'cb TimerQueue outcome"
where
  "reset_expired rnd now [] q = Inr q"
| "reset_expired rnd now (e # es) q =
     seq (deref q (snd e)) (\<lambda>t.
       if tr_repeat t \<and> (snd e, tr_sequence t) \<notin> tq_cancelingTimers q
       then seq (tq_insert (snd e) (q\<lparr>tq_heap := (tq_heap q)(snd e \<mapsto> Timer_restart rnd now t)\<rparr>))
              (\<lambda>(q, _). reset_expired rnd now es q)
       else reset_expired rnd now es (q\<lparr>tq_heap := (tq_heap q)(snd e := None)\<rparr>))"

definition tq_reset ::
  "(real \<Rightarrow> real) \<Rightarrow> entry list \<Rightarrow> Timestamp \<Rightarrow> 'cb TimerQueue \<Rightarrow> 'cb TimerQueue outcome" where
  "tq_reset rnd expired now q =
     seq (reset_expired rnd now expired q) (\<lambda>q.
       case tq_timers q of
         [] \<Rightarrow> Inr q
       | e # _ \<Rightarrow>
           seq (deref q (snd e)) (\<lambda>t.
             let nextExpire = tr_expiration t
             in if Timestamp_valid nextExpire then Inr (resetTimerfd now nextExpire q) else Inr q))"

text \<open>
  What a callback does: it adds timers and cancels timers.  \<open>alloc\<close> is the allocator: the address of a
  new object, given the objects that exist.
\<close>

datatype 'cb timer_op = Op_Add 'cb Timestamp real | Op_Cancel TimerId

type_synonym 'cb allocator = "(address \<Rightarrow> 'cb Timer option) \<Rightarrow> address"

fun run_op :: "'cb allocator \<Rightarrow> Timestamp \<Rightarrow> 'cb timer_op \<Rightarrow> 'cb TimerQueue \<Rightarrow> 'cb TimerQueue outcome" where
  "run_op alloc now (Op_Add cb when interval) q =
     seq (addTimer now (alloc (tq_heap q)) cb when interval q) (\<lambda>(q, _). Inr q)"
| "run_op alloc now (Op_Cancel i) q = tq_cancel i q"

fun run_ops :: "'cb allocator \<Rightarrow> Timestamp \<Rightarrow> 'cb timer_op list \<Rightarrow> 'cb TimerQueue \<Rightarrow> 'cb TimerQueue outcome"
where
  "run_ops alloc now [] q = Inr q"
| "run_ops alloc now (op # ops) q = seq (run_op alloc now op q) (run_ops alloc now ops)"

fun run_expired ::
  "'cb allocator \<Rightarrow> ('cb \<Rightarrow> 'cb timer_op list) \<Rightarrow> Timestamp \<Rightarrow> entry list \<Rightarrow> 'cb TimerQueue
   \<Rightarrow> ('cb TimerQueue \<times> 'cb list) outcome"
where
  "run_expired alloc cbs now [] q = Inr (q, [])"
| "run_expired alloc cbs now (e # es) q =
     seq (deref q (snd e)) (\<lambda>t.
     seq (run_ops alloc now (cbs (tr_callback t)) q) (\<lambda>q.
     seq (run_expired alloc cbs now es q) (\<lambda>(q, ran). Inr (q, tr_callback t # ran))))"

text \<open>
  \<^verbatim>\<open>handleRead\<close>; the result lists the callbacks that ran.  Reading the descriptor only clears it, and
  the clock is read once.
\<close>

definition tq_handleRead ::
  "(real \<Rightarrow> real) \<Rightarrow> 'cb allocator \<Rightarrow> ('cb \<Rightarrow> 'cb timer_op list) \<Rightarrow> Timestamp \<Rightarrow> 'cb TimerQueue
   \<Rightarrow> ('cb TimerQueue \<times> 'cb list) outcome" where
  "tq_handleRead rnd alloc cbs now q =
     seq (getExpired now q) (\<lambda>(q, expired).
     seq (run_expired alloc cbs now expired (q\<lparr>tq_callingExpired := True, tq_cancelingTimers := {}\<rparr>)) (\<lambda>(q, ran).
     seq (tq_reset rnd expired now (q\<lparr>tq_callingExpired := False\<rparr>)) (\<lambda>q. Inr (q, ran))))"

section \<open>Arming the descriptor\<close>

text \<open>
  The delay given to \<^verbatim>\<open>timerfd_settime\<close> is never zero, which would disarm the timer: it is the time
  left, and 100 microseconds when less is left or the time has passed, split into seconds and
  nanoseconds below a second.
\<close>

theorem howMuchTimeFromNow_normalised:
  "case howMuchTimeFromNow now when of (s, ns) \<Rightarrow>
     0 \<le> s \<and> 0 \<le> ns \<and> ns < 1000000000 \<and> 0 < s * 1000000000 + ns
     \<and> s * 1000000000 + ns = 1000 * max 100 (microSecondsSinceEpoch when - microSecondsSinceEpoch now)"
proof -
  define us where "us = max 100 (microSecondsSinceEpoch when - microSecondsSinceEpoch now)"
  have us: "100 \<le> us"
    by (simp add: us_def)
  have h: "howMuchTimeFromNow now when = (us div 1000000, us mod 1000000 * 1000)"
    using us by (auto simp: howMuchTimeFromNow_def Let_def us_def max_def kMicroSecondsPerSecond_def
        trunc_simps)
  have "us div 1000000 * 1000000000 + us mod 1000000 * 1000 = 1000 * us"
    using div_mult_mod_eq [of us 1000000] by linarith
  moreover have "0 \<le> us div 1000000" "0 \<le> us mod 1000000" "us mod 1000000 < 1000000"
    using us by (simp_all add: pos_imp_zdiv_nonneg_iff)
  ultimately show ?thesis
    using us unfolding h us_def [symmetric] by simp
qed

section \<open>Invariant\<close>

text \<open>
  The set is sorted without duplicates, every entry points to a live timer that expires at the
  entry's time, and no timer is ever active.  \<open>fl\<close> are the addresses of timers that were taken
  out of the set and are still alive.
\<close>

definition tq_inv :: "address list \<Rightarrow> 'cb TimerQueue \<Rightarrow> bool" where
  "tq_inv fl q \<longleftrightarrow>
     sorted (tq_timers q) \<and> distinct (tq_timers q) \<and> tq_activeTimers q = {} \<and> finite (dom (tq_heap q))
     \<and> (\<forall>e\<in>set (tq_timers q). \<exists>t. tq_heap q (snd e) = Some t
           \<and> microSecondsSinceEpoch (tr_expiration t) = fst e \<and> snd e \<notin> set fl)
     \<and> distinct fl \<and> (\<forall>p\<in>set fl. tq_heap q p \<noteq> None)"

definition armed_ok :: "'cb TimerQueue \<Rightarrow> bool" where
  "armed_ok q \<longleftrightarrow> tq_timers q \<noteq> [] \<longrightarrow> tq_armed q = Some (fst (hd (tq_timers q)))"

lemma sorted_split:
  fixes s :: "'a::linorder"
  assumes "sorted xs"
  shows "takeWhile (\<lambda>x. x < s) xs = filter (\<lambda>x. x < s) xs"
    "dropWhile (\<lambda>x. x < s) xs = filter (\<lambda>x. \<not> x < s) xs"
  using assms
proof (induction xs)
  case (Cons x xs)
  have none: "filter (\<lambda>y. y < s) xs = []" "filter (\<lambda>y. \<not> y < s) xs = xs" if "\<not> x < s" "sorted (x # xs)"
    using that by (auto simp: filter_empty_conv filter_id_conv not_less intro: order_trans)
  { case 1
    then show ?case using Cons none by (cases "x < s") auto }
  { case 2
    then show ?case using Cons none by (cases "x < s") auto }
qed auto

lemma hd_insort:
  fixes x :: "'a::linorder"
  shows "sorted xs \<Longrightarrow> hd (insort x xs) = (case xs of [] \<Rightarrow> x | y # ys \<Rightarrow> min x y)"
  by (cases xs) (auto simp: min_def)

lemma tq_insert_ok:
  assumes q: "tq_inv fl q" and p: "tq_heap q p = Some t" "p \<notin> snd ` set (tq_timers q)" "p \<notin> set fl"
  defines "e \<equiv> (microSecondsSinceEpoch (tr_expiration t), p)"
  shows "tq_insert p q = Inr (q\<lparr>tq_timers := insort e (tq_timers q)\<rparr>,
           (tq_timers q = [] \<or> fst e < fst (hd (tq_timers q))))"
    and "tq_inv fl (q\<lparr>tq_timers := insort e (tq_timers q)\<rparr>)"
proof -
  have new: "e \<notin> set (tq_timers q)"
    using p(2) by (force simp: e_def)
  then show "tq_insert p q = Inr (q\<lparr>tq_timers := insort e (tq_timers q)\<rparr>,
           (tq_timers q = [] \<or> fst e < fst (hd (tq_timers q))))"
    using p(1) by (auto simp: tq_insert_def deref_def e_def Let_def split: list.split)
  show "tq_inv fl (q\<lparr>tq_timers := insort e (tq_timers q)\<rparr>)"
    using q p new by (auto simp: tq_inv_def e_def sorted_insort distinct_insort set_insort_key)
qed

lemma addTimerInLoop_ok:
  assumes q: "tq_inv fl q" and p: "tq_heap q p = Some t" "p \<notin> snd ` set (tq_timers q)" "p \<notin> set fl"
  shows "\<exists>q'. addTimerInLoop now p q = Inr q' \<and> tq_inv fl q' \<and> tq_heap q' = tq_heap q
    \<and> tq_timers q' = insort (microSecondsSinceEpoch (tr_expiration t), p) (tq_timers q)
    \<and> (armed_ok q \<longrightarrow> armed_ok q')"
proof -
  let ?e = "(microSecondsSinceEpoch (tr_expiration t), p)"
  have s: "sorted (tq_timers q)" using q by (simp add: tq_inv_def)
  have hd: "fst (hd (insort ?e (tq_timers q)))
      = (if tq_timers q = [] \<or> fst ?e < fst (hd (tq_timers q)) then fst ?e else fst (hd (tq_timers q)))"
    using s by (cases "tq_timers q") (auto simp: less_eq_prod_def)
  show ?thesis
    using tq_insert_ok [OF q p] p(1) hd
    by (auto simp: addTimerInLoop_def deref_def resetTimerfd_def tq_inv_def armed_ok_def)
qed

section \<open>Operations keep the invariant\<close>

definition fresh_alloc :: "'cb allocator \<Rightarrow> bool" where
  "fresh_alloc alloc \<longleftrightarrow> (\<forall>h. finite (dom h) \<longrightarrow> h (alloc h) = None)"

lemma addTimer_ok:
  assumes q: "tq_inv fl q" and a: "tq_heap q a = None"
  shows "\<exists>q' i. addTimer now a cb when iv q = Inr (q', i) \<and> tq_inv fl q'
    \<and> tq_heap q \<subseteq>\<^sub>m tq_heap q' \<and> (armed_ok q \<longrightarrow> armed_ok q')"
proof -
  obtain t c where t: "Timer_new cb when iv (tq_counter q) = (t, c)"
    by (cases "Timer_new cb when iv (tq_counter q)") auto
  let ?q = "q\<lparr>tq_heap := (tq_heap q)(a \<mapsto> t), tq_counter := c\<rparr>"
  have inv: "tq_inv fl ?q" and a': "a \<notin> snd ` set (tq_timers ?q)" "a \<notin> set fl"
    using q a by (auto simp: tq_inv_def)
  have "armed_ok ?q = armed_ok q"
    by (simp add: armed_ok_def)
  then show ?thesis
    using addTimerInLoop_ok [OF inv _ a', of t now] t a
    by (auto simp: addTimer_def Let_def map_le_def)
qed

lemma cancelInLoop_inactive:
  assumes "tq_activeTimers q = {}"
  shows "cancelInLoop i q =
    Inr (if tq_callingExpired q
         then q\<lparr>tq_cancelingTimers :=
                insert (case tid_timer i of Some p \<Rightarrow> p | None \<Rightarrow> 0, tid_sequence i) (tq_cancelingTimers q)\<rparr>
         else q)"
  using assms by (simp add: cancelInLoop_def Let_def)

lemma run_ops_ok:
  assumes "fresh_alloc alloc" "tq_inv fl q"
  shows "\<exists>q'. run_ops alloc now ops q = Inr q' \<and> tq_inv fl q' \<and> tq_heap q \<subseteq>\<^sub>m tq_heap q'
    \<and> (armed_ok q \<longrightarrow> armed_ok q')"
  using assms(2)
proof (induction ops arbitrary: q)
  case (Cons op ops)
  have "\<exists>q'. run_op alloc now op q = Inr q' \<and> tq_inv fl q' \<and> tq_heap q \<subseteq>\<^sub>m tq_heap q'
      \<and> (armed_ok q \<longrightarrow> armed_ok q')"
  proof (cases op)
    case (Op_Add cb w iv)
    have "tq_heap q (alloc (tq_heap q)) = None"
      using assms(1) Cons.prems by (simp add: fresh_alloc_def tq_inv_def)
    then show ?thesis
      using Op_Add addTimer_ok [OF Cons.prems, of "alloc (tq_heap q)" now cb w iv] by auto
  next
    case (Op_Cancel i)
    have "tq_activeTimers q = {}" using Cons.prems by (simp add: tq_inv_def)
    then show ?thesis
      using Op_Cancel Cons.prems
      by (auto simp: tq_cancel_def cancelInLoop_inactive tq_inv_def armed_ok_def)
  qed
  then obtain q1 where q1: "run_op alloc now op q = Inr q1" "tq_inv fl q1" "tq_heap q \<subseteq>\<^sub>m tq_heap q1"
      "armed_ok q \<longrightarrow> armed_ok q1"
    by blast
  then show ?case
    using Cons.IH [OF q1(2)] by (auto intro: map_le_trans)
qed simp

lemma run_expired_ok:
  assumes "fresh_alloc alloc" "tq_inv fl q" "snd ` set es \<subseteq> set fl"
  shows "\<exists>q'. run_expired alloc cbs now es q
           = Inr (q', map (\<lambda>e. tr_callback (the (tq_heap q (snd e)))) es)
    \<and> tq_inv fl q' \<and> tq_heap q \<subseteq>\<^sub>m tq_heap q' \<and> (armed_ok q \<longrightarrow> armed_ok q')"
  using assms(2,3)
proof (induction es arbitrary: q)
  case (Cons e es)
  obtain t where t: "tq_heap q (snd e) = Some t"
    using Cons.prems by (auto simp: tq_inv_def)
  obtain q1 where q1: "run_ops alloc now (cbs (tr_callback t)) q = Inr q1" "tq_inv fl q1"
      "tq_heap q \<subseteq>\<^sub>m tq_heap q1" "armed_ok q \<longrightarrow> armed_ok q1"
    using run_ops_ok [OF assms(1) Cons.prems(1)] by blast
  have same: "tq_heap q1 (snd e') = tq_heap q (snd e')" if "e' \<in> set es" for e'
  proof -
    have "snd e' \<in> dom (tq_heap q)"
      using Cons.prems that by (auto simp: tq_inv_def)
    then show ?thesis using q1(3) by (simp add: map_le_def)
  qed
  then have "map (\<lambda>e. tr_callback (the (tq_heap q1 (snd e)))) es
      = map (\<lambda>e. tr_callback (the (tq_heap q (snd e)))) es"
    by simp
  then show ?case
    using Cons.IH [OF q1(2)] Cons.prems(2) q1 t by (auto simp: deref_def intro: map_le_trans)
qed simp

lemma reset_expired_ok:
  assumes "tq_inv (map snd es) q"
  shows "\<exists>q'. reset_expired rnd now es q = Inr q' \<and> tq_inv [] q'"
  using assms
proof (induction es arbitrary: q)
  case Nil
  then show ?case by simp
next
  case (Cons e es)
  let ?fl = "map snd es"
  obtain t where t: "tq_heap q (snd e) = Some t"
    using Cons.prems by (auto simp: tq_inv_def)
  show ?case
  proof (cases "tr_repeat t \<and> (snd e, tr_sequence t) \<notin> tq_cancelingTimers q")
    case True
    let ?t = "Timer_restart rnd now t"
    let ?q = "q\<lparr>tq_heap := (tq_heap q)(snd e \<mapsto> ?t)\<rparr>"
    have inv: "tq_inv ?fl ?q" "snd e \<notin> snd ` set (tq_timers ?q)" "snd e \<notin> set ?fl"
      using Cons.prems by (auto simp: tq_inv_def)
    show ?thesis
      using True t tq_insert_ok [OF inv(1) _ inv(2,3), of ?t] Cons.IH by (auto simp: deref_def)
  next
    case False
    let ?q = "q\<lparr>tq_heap := (tq_heap q)(snd e := None)\<rparr>"
    have "tq_inv ?fl ?q"
      using Cons.prems unfolding tq_inv_def by (auto simp: image_iff)
    then show ?thesis
      using False t Cons.IH by (auto simp: deref_def)
  qed
qed

lemma erase_active_ok:
  "\<forall>e\<in>set es. tq_heap q (snd e) \<noteq> None \<Longrightarrow> tq_activeTimers q = {} \<Longrightarrow> erase_active es q = Inr q"
proof (induction es)
  case (Cons e es)
  then have same: "q\<lparr>tq_activeTimers := {}\<rparr> = q" by (cases q) simp
  show ?case using Cons by (auto simp: deref_def same)
qed simp

lemma inj_addresses: "tq_inv fl q \<Longrightarrow> inj_on snd (set (tq_timers q))"
proof (rule inj_onI)
  fix d e
  assume q: "tq_inv fl q" and d: "d \<in> set (tq_timers q)" and e: "e \<in> set (tq_timers q)" and "snd d = snd e"
  then have "fst d = fst e"
    unfolding tq_inv_def by (metis option.inject)
  with \<open>snd d = snd e\<close> show "d = e" by (simp add: prod_eq_iff)
qed

definition address_tie :: "Timestamp \<Rightarrow> 'cb TimerQueue \<Rightarrow> bool" where
  "address_tie now q \<longleftrightarrow>
     (\<exists>e\<in>set (tq_timers q). fst e = microSecondsSinceEpoch now \<and> UINT32_MAX \<le> snd e)"

lemma getExpired_eq:
  fixes q :: "'cb TimerQueue" and now :: Timestamp
  assumes q: "tq_inv [] q"
  defines "due \<equiv> filter (\<lambda>e. fst e \<le> microSecondsSinceEpoch now) (tq_timers q)"
    and "later \<equiv> filter (\<lambda>e. microSecondsSinceEpoch now < fst e) (tq_timers q)"
  shows "getExpired now q =
    (if address_tie now q then Inl Assertion_Failed else Inr (q\<lparr>tq_timers := later\<rparr>, due))"
    and "tq_inv (map snd due) (q\<lparr>tq_timers := later\<rparr>)"
proof -
  let ?s = "(microSecondsSinceEpoch now, UINT32_MAX)"
  have sorted: "sorted (tq_timers q)" and act: "tq_activeTimers q = {}"
    using q by (auto simp: tq_inv_def)
  have live: "tq_heap q (snd e) \<noteq> None" if "e \<in> set (tq_timers q)" for e
    using q that by (fastforce simp: tq_inv_def)
  show "getExpired now q =
    (if address_tie now q then Inl Assertion_Failed else Inr (q\<lparr>tq_timers := later\<rparr>, due))"
  proof (cases "address_tie now q")
    case True
    then obtain e where e: "e \<in> set (tq_timers q)" "fst e = microSecondsSinceEpoch now" "UINT32_MAX \<le> snd e"
      by (auto simp: address_tie_def)
    let ?rest = "filter (\<lambda>x. \<not> x < ?s) (tq_timers q)"
    have mem: "e \<in> set ?rest"
      using e by (auto simp: less_prod_def)
    have ne: "?rest \<noteq> []" using mem by (metis empty_iff list.set(1))
    have "sorted ?rest" using sorted by (rule sorted_wrt_filter)
    then have "hd ?rest \<le> e"
      using mem by (cases ?rest) auto
    then have "fst (hd ?rest) \<le> microSecondsSinceEpoch now"
      using e(2) by (auto simp: less_eq_prod_def)
    then show ?thesis
      using True ne by (simp add: getExpired_def Let_def sorted_split [OF sorted] cassert_def)
  next
    case False
    then have lt: "e < ?s \<longleftrightarrow> fst e \<le> microSecondsSinceEpoch now" if "e \<in> set (tq_timers q)" for e
      using that by (force simp: address_tie_def less_prod_def not_le)
    then have "filter (\<lambda>e. e < ?s) (tq_timers q) = due" "filter (\<lambda>e. \<not> e < ?s) (tq_timers q) = later"
      unfolding due_def later_def by (intro filter_cong; auto)+
    moreover have "erase_active due (q\<lparr>tq_timers := later\<rparr>) = Inr (q\<lparr>tq_timers := later\<rparr>)"
      using live act by (intro erase_active_ok) (auto simp: due_def)
    moreover have "later = [] \<or> microSecondsSinceEpoch now < fst (hd later)"
      using hd_in_set [of later] by (auto simp: later_def)
    ultimately show ?thesis
      using False by (simp add: getExpired_def Let_def sorted_split [OF sorted])
  qed
  have "distinct (map snd due)"
    using q inj_addresses [OF q] unfolding due_def distinct_map
    by (auto simp: tq_inv_def intro: inj_on_subset)
  moreover have "snd e \<notin> snd ` set due" if "e \<in> set later" for e
  proof
    assume "snd e \<in> snd ` set due"
    then obtain d where d: "d \<in> set due" "snd d = snd e" by auto
    then have "d = e"
      using inj_onD [OF inj_addresses [OF q], of d e] that by (simp add: due_def later_def)
    then show False using d that by (simp add: due_def later_def)
  qed
  moreover have "tq_heap q p \<noteq> None" if "p \<in> set (map snd due)" for p
    using that live by (auto simp: due_def)
  ultimately show "tq_inv (map snd due) (q\<lparr>tq_timers := later\<rparr>)"
    using q by (auto simp: tq_inv_def later_def sorted_wrt_filter)
qed

section \<open>Firing, cancelling and arming\<close>

lemma tq_reset_ok:
  assumes "tq_inv (map snd es) q"
  shows "\<exists>q'. tq_reset rnd es now q = Inr q' \<and> tq_inv [] q'
    \<and> (tq_timers q' \<noteq> [] \<and> 0 < fst (hd (tq_timers q')) \<longrightarrow> tq_armed q' = Some (fst (hd (tq_timers q'))))"
proof -
  obtain q1 where q1: "reset_expired rnd now es q = Inr q1" "tq_inv [] q1"
    using reset_expired_ok [OF assms] by blast
  show ?thesis
  proof (cases "tq_timers q1")
    case Nil
    then show ?thesis using q1 by (auto simp: tq_reset_def)
  next
    case (Cons e es')
    then obtain t where "tq_heap q1 (snd e) = Some t" "microSecondsSinceEpoch (tr_expiration t) = fst e"
      using q1(2) by (auto simp: tq_inv_def)
    then show ?thesis
      using q1 Cons
      by (auto simp: tq_reset_def deref_def Let_def Timestamp_valid_def resetTimerfd_def tq_inv_def)
  qed
qed

lemma handleRead_tie:
  "tq_inv [] q \<Longrightarrow> address_tie now q \<Longrightarrow> tq_handleRead rnd alloc cbs now q = Inl Assertion_Failed"
  using getExpired_eq(1) [of q now] by (simp add: tq_handleRead_def)

lemma handleRead_due:
  assumes q: "tq_inv [] q" and alloc: "fresh_alloc alloc" and tie: "\<not> address_tie now q"
  shows "\<exists>q'. tq_handleRead rnd alloc cbs now q
       = Inr (q', map (\<lambda>e. tr_callback (the (tq_heap q (snd e))))
                    (filter (\<lambda>e. fst e \<le> microSecondsSinceEpoch now) (tq_timers q)))
     \<and> tq_inv [] q'
     \<and> (tq_timers q' \<noteq> [] \<and> 0 < fst (hd (tq_timers q')) \<longrightarrow>
          tq_armed q' = Some (fst (hd (tq_timers q'))))"
proof -
  let ?due = "filter (\<lambda>e. fst e \<le> microSecondsSinceEpoch now) (tq_timers q)"
  let ?q1 = "q\<lparr>tq_timers := filter (\<lambda>e. microSecondsSinceEpoch now < fst e) (tq_timers q)\<rparr>"
  let ?q2 = "?q1\<lparr>tq_callingExpired := True, tq_cancelingTimers := {}\<rparr>"
  have inv: "tq_inv (map snd ?due) ?q2"
    using getExpired_eq(2) [OF q, of now] by (simp add: tq_inv_def)
  obtain q3 where q3: "run_expired alloc cbs now ?due ?q2
        = Inr (q3, map (\<lambda>e. tr_callback (the (tq_heap q (snd e)))) ?due)" "tq_inv (map snd ?due) q3"
    using run_expired_ok [OF alloc inv, of ?due cbs now] by auto
  have "tq_inv (map snd ?due) (q3\<lparr>tq_callingExpired := False\<rparr>)"
    using q3(2) by (simp add: tq_inv_def)
  then show ?thesis
    using tq_reset_ok [of ?due "q3\<lparr>tq_callingExpired := False\<rparr>" rnd now] tie q3(1)
      getExpired_eq(1) [OF q, of now]
    by (auto simp: tq_handleRead_def)
qed

text \<open>
  C3: When the timer descriptor becomes readable, exactly the timers whose time has come run, in the
  order of their times, whatever timers their callbacks add or cancel; the queue stays well
  formed, no timer is used after it was deleted, and the descriptor is armed again for the
  earliest timer left.  This needs that no timer that is due at this very microsecond lies at
  an address of \<^verbatim>\<open>UINT32_MAX\<close> or above: then the assertion in \<^verbatim>\<open>getExpired\<close> fails.
\<close>

theorem handleRead_fires_due:
  assumes q: "tq_inv [] q" and alloc: "fresh_alloc alloc"
  shows "(address_tie now q \<longrightarrow> tq_handleRead rnd alloc cbs now q = Inl Assertion_Failed)
    \<and> (\<not> address_tie now q \<longrightarrow>
        (\<exists>q'. tq_handleRead rnd alloc cbs now q
           = Inr (q', map (\<lambda>e. tr_callback (the (tq_heap q (snd e))))
                        (filter (\<lambda>e. fst e \<le> microSecondsSinceEpoch now) (tq_timers q)))
         \<and> tq_inv [] q'
         \<and> (tq_timers q' \<noteq> [] \<and> 0 < fst (hd (tq_timers q')) \<longrightarrow>
              tq_armed q' = Some (fst (hd (tq_timers q'))))))"
  using handleRead_tie [OF q] handleRead_due [OF q alloc] by simp

text \<open>An allocator for the witnesses: the address after the highest one in use.\<close>

definition bump_alloc :: "'cb allocator" where
  "bump_alloc h = Suc (Max (insert 0 (dom h)))"

lemma bump_alloc_fresh: "fresh_alloc bump_alloc"
  unfolding fresh_alloc_def bump_alloc_def
proof (intro allI impI)
  fix h :: "address \<Rightarrow> 'a Timer option"
  assume "finite (dom h)"
  then have "x \<le> Max (insert 0 (dom h))" if "x \<in> dom h" for x
    using that by simp
  then show "h (Suc (Max (insert 0 (dom h)))) = None"
    by (metis domIff not_less_eq_eq order_refl)
qed

definition queue0 :: "string TimerQueue" where
  "queue0 = \<lparr>tq_timerfd = 3, tq_timers = [(100, 7), (900, 5)], tq_activeTimers = {},
     tq_callingExpired = False, tq_cancelingTimers = {},
     tq_heap = [7 \<mapsto> \<lparr>tr_callback = ''a'', tr_expiration = Timestamp_of 100, tr_interval = 0,
                     tr_repeat = False, tr_sequence = 1\<rparr>,
                5 \<mapsto> \<lparr>tr_callback = ''b'', tr_expiration = Timestamp_of 900, tr_interval = 0,
                     tr_repeat = False, tr_sequence = 2\<rparr>],
     tq_counter = \<lparr>atomic_value = 2\<rparr>, tq_settime = None, tq_armed = Some 100\<rparr>"

lemma queue0_inv: "tq_inv [] queue0"
  by (auto simp: tq_inv_def queue0_def Timestamp_of_def less_eq_prod_def)

theorem handleRead_fires_due_witness:
  "\<exists>q'. tq_handleRead (\<lambda>x. x) bump_alloc (\<lambda>c. []) (Timestamp_of 500) queue0 = Inr (q', [''a''])
        \<and> tq_inv [] q'"
proof -
  have "\<not> address_tie (Timestamp_of 500) queue0"
    by (simp add: address_tie_def queue0_def Timestamp_of_def)
  then show ?thesis
    using handleRead_fires_due [OF queue0_inv bump_alloc_fresh, of "Timestamp_of 500" "\<lambda>x. x" "\<lambda>c. []"]
    by (auto simp: queue0_def Timestamp_of_def)
qed

text \<open>
  A timer that is added never has to wait for a later one: whenever the descriptor was armed for
  the earliest timer it is so again after \<^verbatim>\<open>addTimer\<close>, the new timer's entry is in the set, and the
  timers that were there stay there.
\<close>

theorem addTimer_keeps_armed:
  assumes "tq_inv [] q" "armed_ok q" "tq_heap q a = None"
  shows "\<exists>q' i. addTimer now a cb when interval q = Inr (q', i) \<and> tq_inv [] q' \<and> armed_ok q'
    \<and> set (tq_timers q') = insert (microSecondsSinceEpoch when, a) (set (tq_timers q))"
proof -
  obtain t c where t: "Timer_new cb when interval (tq_counter q) = (t, c)" "tr_expiration t = when"
    by (auto simp: Timer_new_def Let_def incrementAndGet_def addAndGet_def getAndAdd_def)
  let ?q = "q\<lparr>tq_heap := (tq_heap q)(a \<mapsto> t), tq_counter := c\<rparr>"
  have inv: "tq_inv [] ?q" and a': "a \<notin> snd ` set (tq_timers ?q)" "a \<notin> set []"
    using assms(1,3) by (auto simp: tq_inv_def)
  have "armed_ok ?q"
    using assms(2) by (simp add: armed_ok_def)
  then show ?thesis
    using addTimerInLoop_ok [OF inv _ a', of t now] t
    by (auto simp: addTimer_def Let_def set_insort_key)
qed

theorem addTimer_keeps_armed_witness:
  "\<exists>q' i. addTimer (Timestamp_of 20) 9 ''c'' (Timestamp_of 50) 0 queue0 = Inr (q', i)
     \<and> armed_ok q' \<and> set (tq_timers q') = {(50, 9), (100, 7), (900, 5)}"
proof -
  have "armed_ok queue0" "tq_heap queue0 9 = None"
    by (simp_all add: armed_ok_def queue0_def)
  then show ?thesis
    using addTimer_keeps_armed [OF queue0_inv, of 9 "Timestamp_of 20" "''c''" "Timestamp_of 50" 0]
    by (auto simp: queue0_def Timestamp_of_def)
qed

text \<open>
  The queues that the program can reach: from construction by adding, cancelling and firing timers.
\<close>

inductive timer_reachable :: "(real \<Rightarrow> real) \<Rightarrow> 'cb allocator \<Rightarrow> 'cb TimerQueue \<Rightarrow> bool" for rnd alloc where
  tr_new: "TimerQueue_new fd counter = Inr q \<Longrightarrow> timer_reachable rnd alloc q"
| tr_op: "timer_reachable rnd alloc q \<Longrightarrow> run_op alloc now op q = Inr q' \<Longrightarrow> timer_reachable rnd alloc q'"
| tr_fire: "timer_reachable rnd alloc q \<Longrightarrow> tq_handleRead rnd alloc cbs now q = Inr (q', fired)
    \<Longrightarrow> timer_reachable rnd alloc q'"

lemma reachable_inv:
  assumes "timer_reachable rnd alloc q" "fresh_alloc alloc"
  shows "tq_inv [] q"
  using assms
proof (induction rule: timer_reachable.induct)
  case (tr_new fd counter q)
  then show ?case
    by (auto simp: TimerQueue_new_def createTimerfd_def tq_inv_def split: if_splits)
next
  case (tr_op q now op q')
  then show ?case using run_ops_ok [of alloc "[]" q now "[op]"] by auto
next
  case (tr_fire q cbs now q' fired)
  have inv: "tq_inv [] q" using tr_fire by simp
  have "\<not> address_tie now q"
    using handleRead_tie [OF inv] tr_fire.hyps(2) by auto
  then show ?case
    using handleRead_due [OF inv tr_fire.prems, of now rnd cbs] tr_fire.hyps(2) by auto
qed

text \<open>
  C34: Cancelling a timer does nothing.  In every reachable queue outside of the firing of timers,
  \<^verbatim>\<open>cancel\<close> leaves the queue as it is: timers are never entered into \<^verbatim>\<open>activeTimers_\<close>, where \<^verbatim>\<open>cancel\<close>
  looks them up, so a cancelled timer still fires.
\<close>

theorem cancel_has_no_effect:
  assumes "timer_reachable rnd alloc q" "fresh_alloc alloc" "\<not> tq_callingExpired q"
  shows "tq_cancel timerId q = Inr q"
proof -
  have "tq_activeTimers q = {}"
    using reachable_inv [OF assms(1,2)] by (simp add: tq_inv_def)
  then show ?thesis
    using assms(3) by (simp add: tq_cancel_def cancelInLoop_inactive)
qed

theorem cancel_has_no_effect_witness:
  "\<exists>q0 q i. TimerQueue_new 3 Atomic_new = Inr q0
     \<and> addTimer (Timestamp_of 1) (bump_alloc (tq_heap q0)) ''cb'' (Timestamp_of 9) 0 q0 = Inr (q, i)
     \<and> tq_timers q \<noteq> [] \<and> tq_cancel i q = Inr q"
proof -
  obtain q0 :: "string TimerQueue" where q0: "TimerQueue_new 3 Atomic_new = Inr q0" "\<not> tq_callingExpired q0"
      "tq_timers q0 = []" "tq_heap q0 = (\<lambda>_. None)" "tq_counter q0 = Atomic_new"
    by (simp add: TimerQueue_new_def createTimerfd_def)
  let ?a = "bump_alloc (tq_heap q0)"
  obtain q i where q: "addTimer (Timestamp_of 1) ?a ''cb'' (Timestamp_of 9) 0 q0 = Inr (q, i)"
      "tq_timers q = [(9, ?a)]" "\<not> tq_callingExpired q"
    using q0 by (simp add: addTimer_def Let_def Timer_new_def incrementAndGet_def addAndGet_def
        getAndAdd_def addTimerInLoop_def tq_insert_def deref_def resetTimerfd_def Timestamp_of_def)
  have "timer_reachable (\<lambda>x. x) bump_alloc q0"
    using tr_new [OF q0(1)] .
  then have "timer_reachable (\<lambda>x. x) bump_alloc q"
    by (rule tr_op [where now = "Timestamp_of 1" and op = "Op_Add ''cb'' (Timestamp_of 9) 0"])
      (simp add: q(1))
  then show ?thesis
    using cancel_has_no_effect [OF _ bump_alloc_fresh q(3), of "\<lambda>x. x" i] q0(1) q by auto
qed

end
