(* ===== verification/Event_Loop.thy ===== *)
theory Event_Loop
  imports Pollers Timers
begin

text \<open>
  \<^verbatim>\<open>src/src/port/EventLoop.h\<close> and \<^verbatim>\<open>EventLoop.cpp\<close>: one loop per thread, which polls, dispatches to
  channels and runs the functors that were queued.  The state of a loop contains the heap of
  channels, its poller and its timer queue.  The loop thread runs in steps; between two steps other
  threads may queue functors or ask it to quit.
\<close>

section \<open>The state of a loop\<close>

text \<open>
  The functions bound into callbacks and functors: those of the loop itself, and the ones of its
  users.
\<close>

datatype 'u loop_cb =
    Wakeup_handleRead
  | Timer_handleRead
  | Timer_addInLoop address
  | Timer_cancelInLoop TimerId
  | User 'u

text \<open>\<open>el_clock\<close> is the time that \<^verbatim>\<open>Timestamp::now()\<close> reads.\<close>

record 'u EventLoop = "'u loop_cb chan_heap" +
  el_this :: nat
  el_looping :: bool
  el_quit :: bool
  el_eventHandling :: bool
  el_callingPendingFunctors :: bool
  el_iteration :: "64 word"
  el_threadId :: int
  el_pollReturnTime :: Timestamp
  el_poller :: Poller
  el_timerQueue :: "'u TimerQueue"
  el_wakeupFd :: int
  el_wakeupChannel :: chan_addr
  el_activeChannels :: "chan_addr list"
  el_currentActiveChannel :: "chan_addr option"
  el_pendingFunctors :: "'u loop_cb list"
  el_clock :: Timestamp

text \<open>What lies outside: rounding, the allocator and \<^verbatim>\<open>epoll_ctl\<close>.\<close>

record 'u loop_env =
  env_rnd :: "real \<Rightarrow> real"
  env_alloc :: "'u allocator"
  env_ctl :: "epoll_op \<Rightarrow> int \<Rightarrow> bool"

text \<open>
  What the functions of the users do, called from a channel (with the receive time), from a timer or as
  a functor.  The loop may be part of a larger state.
\<close>

type_synonym ('u, 'm) user_code = "'u \<Rightarrow> Timestamp option \<Rightarrow> ('u, 'm) EventLoop_scheme \<Rightarrow> ('u, 'm) EventLoop_scheme outcome"

definition kPollTimeMs :: int where
  "kPollTimeMs = 10000"

definition createEventfd :: "int \<Rightarrow> int outcome" where
  "createEventfd evtfd = (if evtfd < 0 then Inl Fatal_Abort else Inr evtfd)"

section \<open>Channels of the loop\<close>

definition Poller_updateChannel ::
  "(epoll_op \<Rightarrow> int \<Rightarrow> bool) \<Rightarrow> chan_addr \<Rightarrow> ('cb, 'm) chan_heap_scheme \<times> Poller
   \<Rightarrow> (('cb, 'm) chan_heap_scheme \<times> Poller) outcome" where
  "Poller_updateChannel ctl p wp =
     (case wp of
        (w, Poll pp) \<Rightarrow> seq (pp_update p (w, pp)) (\<lambda>(w, pp). Inr (w, Poll pp))
      | (w, EPoll ep) \<Rightarrow> seq (ep_update ctl p (w, ep)) (\<lambda>(w, ep). Inr (w, EPoll ep)))"

definition Poller_removeChannel ::
  "(epoll_op \<Rightarrow> int \<Rightarrow> bool) \<Rightarrow> chan_addr \<Rightarrow> ('cb, 'm) chan_heap_scheme \<times> Poller
   \<Rightarrow> (('cb, 'm) chan_heap_scheme \<times> Poller) outcome" where
  "Poller_removeChannel ctl p wp =
     (case wp of
        (w, Poll pp) \<Rightarrow> seq (pp_remove p (w, pp)) (\<lambda>(w, pp). Inr (w, Poll pp))
      | (w, EPoll ep) \<Rightarrow> seq (ep_remove ctl p (w, ep)) (\<lambda>(w, ep). Inr (w, EPoll ep)))"

definition EventLoop_updateChannel ::
  "'u loop_env \<Rightarrow> chan_addr \<Rightarrow> ('u, 'm) EventLoop_scheme \<Rightarrow> ('u, 'm) EventLoop_scheme outcome" where
  "EventLoop_updateChannel env p w =
     with_chan p w (\<lambda>c.
       cassert (ch_loop c = el_this w)
         (seq (Poller_updateChannel (env_ctl env) p (w, el_poller w)) (\<lambda>(w, po).
            Inr (w\<lparr>el_poller := po\<rparr>))))"

definition EventLoop_removeChannel ::
  "'u loop_env \<Rightarrow> chan_addr \<Rightarrow> ('u, 'm) EventLoop_scheme \<Rightarrow> ('u, 'm) EventLoop_scheme outcome" where
  "EventLoop_removeChannel env p w =
     with_chan p w (\<lambda>c.
       cassert (ch_loop c = el_this w) (
       cassert (el_eventHandling w \<longrightarrow>
                  el_currentActiveChannel w = Some p \<or> p \<notin> set (el_activeChannels w))
         (seq (Poller_removeChannel (env_ctl env) p (w, el_poller w)) (\<lambda>(w, po).
            Inr (w\<lparr>el_poller := po\<rparr>)))))"

section \<open>Construction\<close>

text \<open>
  The members are initialised in order; the timer queue's constructor already registers its channel.
  \<open>tchan\<close> and \<open>wchan\<close> are the addresses of the two channels; the last component of the result is
  the new value of \<^verbatim>\<open>t_loopInThisThread\<close>.
\<close>

definition EventLoop_new ::
  "'u loop_env \<Rightarrow> (string \<Rightarrow> string option) \<Rightarrow> int \<Rightarrow> int \<Rightarrow> int \<Rightarrow> 64 word AtomicIntegerT \<Rightarrow>
   nat \<Rightarrow> int \<Rightarrow> chan_addr \<Rightarrow> chan_addr \<Rightarrow> Timestamp \<Rightarrow> 'u loop_cb chan_heap \<Rightarrow> nat option \<Rightarrow>
   ('u EventLoop \<times> nat option) outcome" where
  "EventLoop_new env getenv epoll_create timerfd_create eventfd counter this tid tchan wchan clock h t_loop =
     seq (newDefaultPoller getenv epoll_create) (\<lambda>poller.
     seq (TimerQueue_new timerfd_create counter) (\<lambda>tq.
     let tch = setReadCallback (Some Timer_handleRead) (Channel_new this (tq_timerfd tq));
         w = \<lparr>chans = (chans h)(tchan \<mapsto> tch), owners = owners h, el_this = this, el_looping = False,
              el_quit = False, el_eventHandling = False, el_callingPendingFunctors = False,
              el_iteration = 0, el_threadId = tid, el_pollReturnTime = Timestamp_default,
              el_poller = poller, el_timerQueue = tq, el_wakeupFd = 0, el_wakeupChannel = wchan,
              el_activeChannels = [], el_currentActiveChannel = None, el_pendingFunctors = [],
              el_clock = clock\<rparr>
     in seq (enableReading (EventLoop_updateChannel env) tchan w) (\<lambda>w.
        seq (createEventfd eventfd) (\<lambda>fd.
        let wch = setReadCallback (Some Wakeup_handleRead) (Channel_new this fd);
            w = put_chan wchan wch (w\<lparr>el_wakeupFd := fd\<rparr>)
        in seq (enableReading (EventLoop_updateChannel env) wchan w) (\<lambda>w.
             Inr (w, case t_loop of Some l \<Rightarrow> Some l | None \<Rightarrow> Some this))))))"

definition getEventLoopOfCurrentThread :: "nat option \<Rightarrow> nat option" where
  "getEventLoopOfCurrentThread t_loop = t_loop"

text \<open>
  The destructor and then those of the members, last first: the wakeup channel, the timer queue with its
  channel \<open>tchan\<close>, and the poller.  \<open>fds\<close> are the open descriptors; the last component is the new value
  of \<^verbatim>\<open>t_loopInThisThread\<close>.
\<close>

definition EventLoop_destroy ::
  "chan_addr \<Rightarrow> ('u, 'm) EventLoop_scheme \<Rightarrow> int set
   \<Rightarrow> (('u, 'm) EventLoop_scheme \<times> int set \<times> nat option) outcome" where
  "EventLoop_destroy tchan w fds =
     (let fds = fds - {el_wakeupFd w} in
      seq (Channel_destroy (el_wakeupChannel w) w) (\<lambda>w.
      let q = el_timerQueue w;
          fds = fds - {tq_timerfd q}
      in seq (Channel_destroy tchan (w\<lparr>el_timerQueue := TimerQueue_destroy q\<rparr>)) (\<lambda>w.
           Inr (w, Poller_destroy (el_poller w) fds, None))))"

section \<open>Functors and timers\<close>

definition isInLoopThread :: "int \<Rightarrow> ('u, 'm) EventLoop_scheme \<Rightarrow> bool" where
  "isInLoopThread tid w \<longleftrightarrow> el_threadId w = tid"

text \<open>The body of \<^verbatim>\<open>abortNotInLoopThread\<close> is commented out, so the check has no effect.\<close>

definition abortNotInLoopThread :: "('u, 'm) EventLoop_scheme \<Rightarrow> ('u, 'm) EventLoop_scheme" where
  "abortNotInLoopThread w = w"

definition assertInLoopThread :: "int \<Rightarrow> ('u, 'm) EventLoop_scheme \<Rightarrow> ('u, 'm) EventLoop_scheme" where
  "assertInLoopThread tid w = (if \<not> isInLoopThread tid w then abortNotInLoopThread w else w)"

text \<open>What \<^verbatim>\<open>printActiveChannels\<close> logs, one text for each active channel.\<close>

definition printActiveChannels :: "('u, 'm) EventLoop_scheme \<Rightarrow> string list" where
  "printActiveChannels w =
     map (\<lambda>p. ''{'' @ (case chans w p of Some c \<Rightarrow> reventsToString c | None \<Rightarrow> []) @ ''}'') (el_activeChannels w)"

text \<open>The bodies of \<^verbatim>\<open>wakeup\<close> and \<^verbatim>\<open>handleRead\<close> are still to be written; they do nothing.\<close>

definition wakeup :: "('u, 'm) EventLoop_scheme \<Rightarrow> ('u, 'm) EventLoop_scheme" where
  "wakeup w = w"

definition EventLoop_handleRead :: "('u, 'm) EventLoop_scheme \<Rightarrow> ('u, 'm) EventLoop_scheme" where
  "EventLoop_handleRead w = w"

definition EventLoop_quit :: "int \<Rightarrow> ('u, 'm) EventLoop_scheme \<Rightarrow> ('u, 'm) EventLoop_scheme" where
  "EventLoop_quit tid w =
     (let w = w\<lparr>el_quit := True\<rparr> in if \<not> isInLoopThread tid w then wakeup w else w)"

definition queueInLoop :: "int \<Rightarrow> 'u loop_cb \<Rightarrow> ('u, 'm) EventLoop_scheme \<Rightarrow> ('u, 'm) EventLoop_scheme" where
  "queueInLoop tid cb w =
     (let w = w\<lparr>el_pendingFunctors := el_pendingFunctors w @ [cb]\<rparr>
      in if \<not> isInLoopThread tid w \<or> el_callingPendingFunctors w then wakeup w else w)"

text \<open>Calling a bound function in the loop thread.\<close>

definition on_timers ::
  "('u TimerQueue \<Rightarrow> 'u TimerQueue outcome) \<Rightarrow> ('u, 'm) EventLoop_scheme \<Rightarrow> ('u, 'm) EventLoop_scheme outcome" where
  "on_timers f w = seq (f (el_timerQueue w)) (\<lambda>q. Inr (w\<lparr>el_timerQueue := q\<rparr>))"

text \<open>
  \<^verbatim>\<open>TimerQueue::handleRead\<close> in the loop: each expired timer's callback may do anything to the loop.
\<close>

fun run_timers ::
  "('u, 'm) user_code \<Rightarrow> entry list \<Rightarrow> ('u, 'm) EventLoop_scheme \<Rightarrow> ('u, 'm) EventLoop_scheme outcome"
where
  "run_timers user [] w = Inr w"
| "run_timers user (e # es) w =
     seq (deref (el_timerQueue w) (snd e)) (\<lambda>t.
     seq (user (tr_callback t) None w) (run_timers user es))"

definition loop_timerRead ::
  "'u loop_env \<Rightarrow> ('u, 'm) user_code \<Rightarrow> ('u, 'm) EventLoop_scheme \<Rightarrow> ('u, 'm) EventLoop_scheme outcome" where
  "loop_timerRead env user w =
     (let now = el_clock w in
      seq (getExpired now (el_timerQueue w)) (\<lambda>(q, expired).
      seq (run_timers user expired
             (w\<lparr>el_timerQueue := q\<lparr>tq_callingExpired := True, tq_cancelingTimers := {}\<rparr>\<rparr>)) (\<lambda>w.
        on_timers (\<lambda>q. tq_reset (env_rnd env) expired now (q\<lparr>tq_callingExpired := False\<rparr>)) w)))"

fun call_cb ::
  "'u loop_env \<Rightarrow> ('u, 'm) user_code \<Rightarrow> 'u loop_cb \<Rightarrow> Timestamp option \<Rightarrow> ('u, 'm) EventLoop_scheme \<Rightarrow> ('u, 'm) EventLoop_scheme outcome"
where
  "call_cb env user Wakeup_handleRead t w = Inr (EventLoop_handleRead w)"
| "call_cb env user Timer_handleRead t w = loop_timerRead env user w"
| "call_cb env user (Timer_addInLoop a) t w = on_timers (addTimerInLoop (el_clock w) a) w"
| "call_cb env user (Timer_cancelInLoop i) t w = on_timers (cancelInLoop i) w"
| "call_cb env user (User u) t w = user u t w"

definition runInLoop ::
  "'u loop_env \<Rightarrow> ('u, 'm) user_code \<Rightarrow> int \<Rightarrow> 'u loop_cb \<Rightarrow> ('u, 'm) EventLoop_scheme \<Rightarrow> ('u, 'm) EventLoop_scheme outcome" where
  "runInLoop env user tid cb w =
     (if isInLoopThread tid w then call_cb env user cb None w else Inr (queueInLoop tid cb w))"

text \<open>\<^verbatim>\<open>TimerQueue::addTimer\<close> and \<^verbatim>\<open>cancel\<close> called from any thread: the timer exists at once.\<close>

definition loop_addTimer ::
  "'u loop_env \<Rightarrow> ('u, 'm) user_code \<Rightarrow> int \<Rightarrow> 'u \<Rightarrow> Timestamp \<Rightarrow> real \<Rightarrow> ('u, 'm) EventLoop_scheme
   \<Rightarrow> (('u, 'm) EventLoop_scheme \<times> TimerId) outcome" where
  "loop_addTimer env user tid cb time interval w =
     (let q = el_timerQueue w;
          (timer, counter) = Timer_new cb time interval (tq_counter q);
          a = env_alloc env (tq_heap q);
          q = q\<lparr>tq_heap := (tq_heap q)(a \<mapsto> timer), tq_counter := counter\<rparr>
      in seq (runInLoop env user tid (Timer_addInLoop a) (w\<lparr>el_timerQueue := q\<rparr>)) (\<lambda>w.
           Inr (w, TimerId_of a (tr_sequence timer))))"

definition runAt where
  "runAt env user tid time cb w = loop_addTimer env user tid cb time 0 w"

definition runAfter where
  "runAfter env user tid delay cb w =
     (let time = addTime (env_rnd env) (el_clock w) delay in runAt env user tid time cb w)"

definition runEvery where
  "runEvery env user tid interval cb w =
     (let time = addTime (env_rnd env) (el_clock w) interval
      in loop_addTimer env user tid cb time interval w)"

definition EventLoop_cancel where
  "EventLoop_cancel env user tid timerId w = runInLoop env user tid (Timer_cancelInLoop timerId) w"

section \<open>The loop\<close>

text \<open>
  Where the loop thread is: at the test of \<^verbatim>\<open>quit_\<close>, about to poll, about to handle the remaining
  active channels, about to swap the list of functors, about to call the remaining ones, or out of
  the loop.
\<close>

datatype 'u loop_pc =
    At_Test
  | At_Poll
  | At_Handle "chan_addr list"
  | At_Swap
  | At_Functors "'u loop_cb list"
  | Loop_Left

text \<open>
  What \<^verbatim>\<open>poll\<close> or \<^verbatim>\<open>epoll_wait\<close> reports, the time that the poller reads then, and the time that
  \<^verbatim>\<open>Timestamp::now()\<close> returns to the callbacks of this iteration.
\<close>

record poll_report =
  rep_poll :: "int \<times> (nat \<Rightarrow> 16 word)"
  rep_epoll :: "(events \<times> chan_addr) list option"
  rep_time :: Timestamp
  rep_clock :: Timestamp

definition Poller_poll ::
  "poll_report \<Rightarrow> ('cb, 'm) chan_heap_scheme \<times> Poller
   \<Rightarrow> (('cb, 'm) chan_heap_scheme \<times> Poller \<times> chan_addr list) outcome" where
  "Poller_poll rep wp =
     (case wp of
        (w, Poll pp) \<Rightarrow> seq (pp_poll (rep_poll rep) (w, pp)) (\<lambda>(w, pp, active). Inr (w, Poll pp, active))
      | (w, EPoll ep) \<Rightarrow> seq (ep_poll (rep_epoll rep) (w, ep)) (\<lambda>(w, ep, active). Inr (w, EPoll ep, active)))"

definition loop_enter :: "('u, 'm) EventLoop_scheme \<Rightarrow> ('u loop_pc \<times> ('u, 'm) EventLoop_scheme) outcome" where
  "loop_enter w =
     cassert (\<not> el_looping w) (Inr (At_Test, w\<lparr>el_looping := True, el_quit := False\<rparr>))"

definition loop_poll :: "poll_report \<Rightarrow> ('u, 'm) EventLoop_scheme \<Rightarrow> ('u loop_pc \<times> ('u, 'm) EventLoop_scheme) outcome" where
  "loop_poll rep w =
     seq (Poller_poll rep (w\<lparr>el_activeChannels := []\<rparr>, el_poller w)) (\<lambda>(w, po, active).
       Inr (At_Handle active,
            w\<lparr>el_poller := po, el_activeChannels := active, el_pollReturnTime := rep_time rep,
              el_clock := rep_clock rep, el_iteration := el_iteration w + 1, el_eventHandling := True\<rparr>))"

text \<open>One step of the loop thread; the list holds the functor it called, if any.\<close>

fun loop_step ::
  "'u loop_env \<Rightarrow> ('u, 'm) user_code \<Rightarrow> poll_report \<Rightarrow> 'u loop_pc \<times> ('u, 'm) EventLoop_scheme
   \<Rightarrow> (('u loop_pc \<times> ('u, 'm) EventLoop_scheme) \<times> 'u loop_cb list) outcome"
where
  "loop_step env user rep (At_Test, w) =
     Inr (if el_quit w then (Loop_Left, w\<lparr>el_looping := False\<rparr>) else (At_Poll, w), [])"
| "loop_step env user rep (At_Poll, w) = seq (loop_poll rep w) (\<lambda>s. Inr (s, []))"
| "loop_step env user rep (At_Handle (p # ps), w) =
     seq (handleEvent (call_cb env user) (el_pollReturnTime w) p (w\<lparr>el_currentActiveChannel := Some p\<rparr>))
       (\<lambda>w. Inr ((At_Handle ps, w), []))"
| "loop_step env user rep (At_Handle [], w) =
     Inr ((At_Swap, w\<lparr>el_currentActiveChannel := None, el_eventHandling := False\<rparr>), [])"
| "loop_step env user rep (At_Swap, w) =
     Inr ((At_Functors (el_pendingFunctors w),
           w\<lparr>el_callingPendingFunctors := True, el_pendingFunctors := []\<rparr>), [])"
| "loop_step env user rep (At_Functors (f # fs), w) =
     seq (call_cb env user f None w) (\<lambda>w. Inr ((At_Functors fs, w), [f]))"
| "loop_step env user rep (At_Functors [], w) =
     Inr ((At_Test, w\<lparr>el_callingPendingFunctors := False\<rparr>), [])"
| "loop_step env user rep (Loop_Left, w) = Inr ((Loop_Left, w), [])"

text \<open>Steps of the loop thread, and calls of \<^verbatim>\<open>queueInLoop\<close> and \<^verbatim>\<open>quit\<close> by thread \<open>tid\<close>.\<close>

datatype 'u loop_action =
    Loop_Thread poll_report
  | Queue_From int "'u loop_cb"
  | Quit_From int

fun loop_act ::
  "'u loop_env \<Rightarrow> ('u, 'm) user_code \<Rightarrow> 'u loop_action \<Rightarrow> 'u loop_pc \<times> ('u, 'm) EventLoop_scheme
   \<Rightarrow> (('u loop_pc \<times> ('u, 'm) EventLoop_scheme) \<times> 'u loop_cb list) outcome"
where
  "loop_act env user (Loop_Thread rep) s = loop_step env user rep s"
| "loop_act env user (Queue_From tid cb) (pc, w) = Inr ((pc, queueInLoop tid cb w), [])"
| "loop_act env user (Quit_From tid) (pc, w) = Inr ((pc, EventLoop_quit tid w), [])"

text \<open>A run, with the functors that the loop thread called.\<close>

fun loop_run ::
  "'u loop_env \<Rightarrow> ('u, 'm) user_code \<Rightarrow> 'u loop_action list \<Rightarrow> 'u loop_pc \<times> ('u, 'm) EventLoop_scheme
   \<Rightarrow> (('u loop_pc \<times> ('u, 'm) EventLoop_scheme) \<times> 'u loop_cb list) outcome"
where
  "loop_run env user [] s = Inr (s, [])"
| "loop_run env user (a # as) s =
     seq (loop_act env user a s) (\<lambda>(s, called).
     seq (loop_run env user as s) (\<lambda>(s, called'). Inr (s, called @ called')))"

lemma loop_run_append:
  "loop_run env user (as @ bs) s = seq (loop_run env user as s) (\<lambda>(s, c).
     seq (loop_run env user bs s) (\<lambda>(s, c'). Inr (s, c @ c')))"
proof (induction as arbitrary: s)
  case Nil
  show ?case by (cases "loop_run env user bs s") auto
next
  case (Cons a as)
  show ?case
  proof (cases "loop_act env user a s")
    case (Inr r)
    obtain s1 c1 where r: "r = (s1, c1)" by (cases r) auto
    show ?thesis
    proof (cases "loop_run env user as s1")
      case (Inr r2)
      then show ?thesis using \<open>loop_act env user a s = Inr r\<close> r Cons
        by (cases r2; cases "loop_run env user bs (fst r2)") auto
    qed (use Inr r Cons in auto)
  qed simp
qed

section \<open>Queued functors are called once, in order\<close>

text \<open>
  The list of functors is private to the loop: user code reaches it only by calling \<^verbatim>\<open>queueInLoop\<close>.  It may keep,
  in what lies outside the loop, a record \<open>asked\<close> of the functors that it passed to \<^verbatim>\<open>queueInLoop\<close>, each noted at the call.
  What user code does is then a sequence of such calls and of steps that touch neither the list nor
  the record.
\<close>

inductive queues ::
  "('m \<Rightarrow> 'u loop_cb list) \<Rightarrow> ('u, 'm) EventLoop_scheme \<Rightarrow> ('u, 'm) EventLoop_scheme \<Rightarrow> bool" for asked where
  queues_other: "el_pendingFunctors w' = el_pendingFunctors w \<Longrightarrow>
    asked (EventLoop.more w') = asked (EventLoop.more w) \<Longrightarrow> queues asked w w'"
| queues_call: "asked m = asked (EventLoop.more w) @ [cb] \<Longrightarrow> queues asked w ((queueInLoop tid cb w)\<lparr>EventLoop.more := m\<rparr>)"
| queues_trans: "queues asked w v \<Longrightarrow> queues asked v u \<Longrightarrow> queues asked w u"

definition queues_through :: "('m \<Rightarrow> 'u loop_cb list) \<Rightarrow> ('u, 'm) user_code \<Rightarrow> bool" where
  "queues_through asked user \<longleftrightarrow> (\<forall>u t w w'. user u t w = Inr w' \<longrightarrow> queues asked w w')"

text \<open>What the list has grown by is what was passed.\<close>

definition accounts ::
  "('m \<Rightarrow> 'u loop_cb list) \<Rightarrow> ('u, 'm) EventLoop_scheme \<Rightarrow> ('u, 'm) EventLoop_scheme \<Rightarrow> bool" where
  "accounts asked w w' \<longleftrightarrow> (\<exists>l. el_pendingFunctors w' = el_pendingFunctors w @ l
     \<and> asked (EventLoop.more w') = asked (EventLoop.more w) @ l)"

lemma accounts_trans: "accounts asked w v \<Longrightarrow> accounts asked v u \<Longrightarrow> accounts asked w u"
  by (auto simp: accounts_def)

lemma queues_accounts: "queues asked w w' \<Longrightarrow> accounts asked w w'"
proof (induction rule: queues.induct)
  case (queues_trans w v u)
  then show ?case by (blast intro: accounts_trans)
qed (auto simp: accounts_def queueInLoop_def wakeup_def Let_def)

text \<open>
  A relation between the states before and after that user code respects and that changes of channels and
  of the timer queue respect holds for everything the loop calls.
\<close>

definition loop_relation ::
  "('u, 'm) user_code \<Rightarrow> (('u, 'm) EventLoop_scheme \<Rightarrow> ('u, 'm) EventLoop_scheme \<Rightarrow> bool) \<Rightarrow> bool" where
  "loop_relation user R \<longleftrightarrow>
     (\<forall>w. R w w) \<and> (\<forall>a b c. R a b \<longrightarrow> R b c \<longrightarrow> R a c)
     \<and> (\<forall>w h. R w (w\<lparr>chans := h\<rparr>)) \<and> (\<forall>w q. R w (w\<lparr>el_timerQueue := q\<rparr>))
     \<and> (\<forall>u t w w'. user u t w = Inr w' \<longrightarrow> R w w')"

lemma loop_relationD:
  assumes "loop_relation user R"
  shows "R w w" "R a b \<Longrightarrow> R b c \<Longrightarrow> R a c" "R w (w\<lparr>chans := h\<rparr>)" "R w (w\<lparr>el_timerQueue := q\<rparr>)"
    and "user u t w = Inr w' \<Longrightarrow> R w w'"
  using assms unfolding loop_relation_def by blast+

lemma run_timers_relation:
  assumes "loop_relation user R" "run_timers user es w = Inr w'"
  shows "R w w'"
  using assms(2)
proof (induction es arbitrary: w)
  case (Cons e es)
  then obtain u v where "user u None w = Inr v" "run_timers user es v = Inr w'"
    by (auto simp: outcome_simps)
  then show ?case
    using Cons.IH loop_relationD(2,5) [OF assms(1)] by blast
qed (simp add: loop_relationD(1) [OF assms(1)])

lemma loop_timerRead_relation:
  assumes "loop_relation user R" "loop_timerRead env user w = Inr w'"
  shows "R w w'"
proof -
  obtain q es v r where v: "run_timers user es
        (w\<lparr>el_timerQueue := q\<lparr>tq_callingExpired := True, tq_cancelingTimers := {}\<rparr>\<rparr>) = Inr v"
      "w' = v\<lparr>el_timerQueue := r\<rparr>"
    using assms(2) by (auto simp: loop_timerRead_def on_timers_def outcome_simps Let_def)
  show ?thesis
    using run_timers_relation [OF assms(1) v(1)] v(2) loop_relationD(2,4) [OF assms(1)] by metis
qed

lemma call_cb_relation:
  assumes "loop_relation user R" "call_cb env user f t w = Inr w'"
  shows "R w w'"
  using assms(2) loop_relationD(1,4,5) [OF assms(1)] loop_timerRead_relation [OF assms(1)]
  by (cases f) (auto simp: on_timers_def outcome_simps EventLoop_handleRead_def)

lemma call_if_relation:
  assumes "loop_relation user R" "call_if (call_cb env user) p cond cb t w = Inr w'"
  shows "R w w'"
  using assms(2) call_cb_relation [OF assms(1)] loop_relationD(1) [OF assms(1)]
  by (auto simp: call_if_def with_chan_def split: if_splits option.splits)

lemma set_handling_relation: "loop_relation user R \<Longrightarrow> set_handling b p w = Inr w' \<Longrightarrow> R w w'"
  by (auto simp: set_handling_def with_chan_def put_chan_def dest: loop_relationD(3) split: option.splits)

lemma handleEvent_relation:
  assumes "loop_relation user R" "handleEvent (call_cb env user) t p w = Inr w'"
  shows "R w w'"
proof -
  have "R w w'" if h: "handleEventWithGuard (call_cb env user) t p w = Inr w'"
  proof -
    obtain w1 w2 w3 w4 w5 where "R w w1" "R w1 w2" "R w2 w3" "R w3 w4" "R w4 w5" "R w5 w'"
      using h unfolding handleEventWithGuard_def seq_eq_Inr
      by (elim exE conjE) (meson set_handling_relation [OF assms(1)] call_if_relation [OF assms(1)])
    then show ?thesis using loop_relationD(2) [OF assms(1)] by blast
  qed
  then show ?thesis
    using assms(2) loop_relationD(1) [OF assms(1)]
    by (auto simp: handleEvent_def with_chan_def split: if_splits option.splits)
qed

lemma accounts_same:
  "el_pendingFunctors w' = el_pendingFunctors w \<Longrightarrow> EventLoop.more w' = EventLoop.more w \<Longrightarrow> accounts asked w w'"
  by (simp add: accounts_def)

lemma accounts_relation: "queues_through asked user \<Longrightarrow> loop_relation user (accounts asked)"
  unfolding loop_relation_def queues_through_def
  by (intro conjI allI impI) (blast intro: accounts_trans queues_accounts | rule accounts_same; simp)+

lemmas call_cb_accounts = call_cb_relation [OF accounts_relation]
lemmas handleEvent_accounts = handleEvent_relation [OF accounts_relation]

lemma pp_fillActive_more:
  "pp_fillActive fds pp (w, as) = Inr (w', bs) \<Longrightarrow> chan_heap.more w' = chan_heap.more w"
  by (induction fds pp "(w, as)" arbitrary: w as rule: pp_fillActive.induct)
    (auto simp: with_chan_def put_chan_def outcome_simps split: if_splits option.splits)

lemma ep_fillActive_more:
  "ep_fillActive evs ep (w, as) = Inr (w', bs) \<Longrightarrow> chan_heap.more w' = chan_heap.more w"
  by (induction evs ep "(w, as)" arbitrary: w as rule: ep_fillActive.induct)
    (auto simp: with_chan_def put_chan_def outcome_simps split: if_splits option.splits)

lemma pending_more: "chan_heap.more w' = chan_heap.more w \<Longrightarrow> el_pendingFunctors w' = el_pendingFunctors w"
  by (cases w, cases w') simp

lemma outside_more: "chan_heap.more w' = chan_heap.more w \<Longrightarrow> EventLoop.more w' = EventLoop.more w"
  by (cases w, cases w') simp

lemma Poller_poll_more:
  "Poller_poll rep (w, po) = Inr (w', po', as) \<Longrightarrow> chan_heap.more w' = chan_heap.more w"
  by (auto simp: Poller_poll_def pp_poll_def ep_poll_def outcome_simps Let_def
      dest!: pp_fillActive_more ep_fillActive_more split: Poller.splits if_splits option.splits prod.splits)

text \<open>The functors taken from the list and not called yet.\<close>

fun taken :: "'u loop_pc \<Rightarrow> 'u loop_cb list" where
  "taken (At_Functors fs) = fs"
| "taken _ = []"

lemma loop_step_accounts:
  assumes "queues_through asked user" "loop_step env user rep (pc, w) = Inr ((pc', w'), called)"
  shows "\<exists>l. called @ taken pc' @ el_pendingFunctors w' = taken pc @ el_pendingFunctors w @ l
    \<and> asked (EventLoop.more w') = asked (EventLoop.more w) @ l"
proof (cases pc)
  case At_Poll
  then have "el_pendingFunctors w' = el_pendingFunctors w \<and> EventLoop.more w' = EventLoop.more w \<and> taken pc' = [] \<and> called = []"
    using assms(2)
    by (auto simp: loop_poll_def outcome_simps dest!: Poller_poll_more dest: pending_more outside_more)
  then show ?thesis using At_Poll by simp
next
  case (At_Handle ps)
  show ?thesis
  proof (cases ps)
    case (Cons p ps')
    then have "accounts asked (w\<lparr>el_currentActiveChannel := Some p\<rparr>) w'" "pc' = At_Handle ps'" "called = []"
      using assms(2) At_Handle handleEvent_accounts [OF assms(1)] by (auto simp: outcome_simps)
    then show ?thesis using At_Handle by (simp add: accounts_def)
  qed (use assms(2) At_Handle in auto)
next
  case (At_Functors fs)
  show ?thesis
  proof (cases fs)
    case (Cons f fs')
    then have "accounts asked w w'" "pc' = At_Functors fs'" "called = [f]"
      using assms(2) At_Functors call_cb_accounts [OF assms(1)] by (auto simp: outcome_simps)
    then show ?thesis using At_Functors Cons by (auto simp: accounts_def)
  qed (use assms(2) At_Functors in auto)
qed (use assms(2) in \<open>auto split: if_splits\<close>)

text \<open>
  The functors passed to \<^verbatim>\<open>queueInLoop\<close> in a run, in order: by another thread in its call, by user code in the
  loop thread as far as its record has grown in the step.
\<close>

fun passed ::
  "('m \<Rightarrow> 'u loop_cb list) \<Rightarrow> 'u loop_action \<Rightarrow> ('u, 'm) EventLoop_scheme \<Rightarrow> ('u, 'm) EventLoop_scheme \<Rightarrow> 'u loop_cb list"
where
  "passed asked (Loop_Thread rep) w w' = drop (length (asked (EventLoop.more w))) (asked (EventLoop.more w'))"
| "passed asked (Queue_From tid cb) w w' = [cb]"
| "passed asked (Quit_From tid) w w' = []"

fun run_passed ::
  "('m \<Rightarrow> 'u loop_cb list) \<Rightarrow> 'u loop_env \<Rightarrow> ('u, 'm) user_code \<Rightarrow> 'u loop_action list
   \<Rightarrow> 'u loop_pc \<times> ('u, 'm) EventLoop_scheme \<Rightarrow> 'u loop_cb list"
where
  "run_passed asked env user [] s = []"
| "run_passed asked env user (a # as) s =
     (case loop_act env user a s of
        Inl e \<Rightarrow> []
      | Inr (s', called) \<Rightarrow> passed asked a (snd s) (snd s') @ run_passed asked env user as s')"

lemma loop_act_accounts:
  assumes "queues_through asked user" "loop_act env user a (pc, w) = Inr ((pc', w'), called)"
  shows "called @ taken pc' @ el_pendingFunctors w' = taken pc @ el_pendingFunctors w @ passed asked a w w'"
proof (cases a)
  case (Loop_Thread rep)
  then show ?thesis using assms(2) loop_step_accounts [OF assms(1), of env rep pc w pc' w' called] by auto
qed (use assms(2) in \<open>auto simp: queueInLoop_def wakeup_def EventLoop_quit_def Let_def\<close>)

text \<open>
  C2: Every functor passed to \<^verbatim>\<open>queueInLoop\<close>, by any thread or by a callback, is called at most once and in the
  order of the calls, and none is lost.  Whatever the interleaving of the loop thread with queueing and
  quitting threads, the functors called so far, followed by those taken from the list and by those
  still in it, are exactly the initial ones followed by those passed to \<^verbatim>\<open>queueInLoop\<close> since.  User code is arbitrary but for
  reaching the list only through \<^verbatim>\<open>queueInLoop\<close> and keeping a note, in its own state, of what it passes.
\<close>

theorem functors_called_in_order:
  assumes "queues_through asked user" "loop_run env user acts (pc, w) = Inr ((pc', w'), called)"
  shows "called @ taken pc' @ el_pendingFunctors w'
    = taken pc @ el_pendingFunctors w @ run_passed asked env user acts (pc, w)"
  using assms(2)
proof (induction acts arbitrary: pc w called)
  case (Cons a acts)
  obtain pc1 w1 c1 c2 where 1: "loop_act env user a (pc, w) = Inr ((pc1, w1), c1)"
      "loop_run env user acts (pc1, w1) = Inr ((pc', w'), c2)" "called = c1 @ c2"
    using Cons.prems by (auto simp: outcome_simps)
  then show ?case
    using Cons.IH [OF 1(2)] loop_act_accounts [OF assms(1) 1(1)] by simp
qed simp

definition idle_timers :: "string TimerQueue" where
  "idle_timers = \<lparr>tq_timerfd = 5, tq_timers = [], tq_activeTimers = {}, tq_callingExpired = False,
     tq_cancelingTimers = {}, tq_heap = (\<lambda>_. None), tq_counter = Atomic_new, tq_settime = None, tq_armed = None\<rparr>"

definition idle_loop :: "string EventLoop" where
  "idle_loop = \<lparr>chans = [1 \<mapsto> Channel_new 0 3], owners = {}, el_this = 0, el_looping = True, el_quit = False,
     el_eventHandling = False, el_callingPendingFunctors = False, el_iteration = 0, el_threadId = 10,
     el_pollReturnTime = Timestamp_default, el_poller = Poll PollPoller_new, el_timerQueue = idle_timers,
     el_wakeupFd = 6, el_wakeupChannel = 9, el_activeChannels = [], el_currentActiveChannel = None,
     el_pendingFunctors = [User ''a'', User ''b''], el_clock = Timestamp_of 0\<rparr>"

definition idle_env :: "string loop_env" where
  "idle_env = \<lparr>env_rnd = id, env_alloc = (\<lambda>_. 0), env_ctl = (\<lambda>_ _. True)\<rparr>"

definition no_report :: poll_report where
  "no_report = \<lparr>rep_poll = (0, \<lambda>_. 0), rep_epoll = Some [], rep_time = Timestamp_of 1, rep_clock = Timestamp_of 1\<rparr>"

text \<open>User code that queues another functor.\<close>

definition requeue :: "(string, unit) user_code" where
  "requeue u t w = Inr (queueInLoop (el_threadId w) (User ''again'') w)"

text \<open>The same with a record of the functors passed.\<close>

definition noted_requeue :: "(string, string loop_cb list) user_code" where
  "noted_requeue u t w =
     Inr ((queueInLoop (el_threadId w) (User ''again'') w)\<lparr>EventLoop.more := EventLoop.more w @ [User ''again'']\<rparr>)"

theorem functors_called_in_order_witness:
  "\<exists>w'. loop_run idle_env noted_requeue [Loop_Thread no_report, Queue_From 11 (User ''c''), Loop_Thread no_report]
       (At_Swap, EventLoop.extend idle_loop [])
     = Inr ((At_Functors [User ''b''], w'), [User ''a''])
   \<and> [User ''a''] @ [User ''b''] @ el_pendingFunctors w'
     = [User ''a'', User ''b''] @ [User ''c'', User ''again'']"
proof -
  let ?acts = "[Loop_Thread no_report, Queue_From 11 (User ''c''), Loop_Thread no_report]"
  let ?s = "(At_Swap, EventLoop.extend idle_loop [])"
  have user: "queues_through (\<lambda>m. m) noted_requeue"
    by (auto simp: queues_through_def noted_requeue_def intro: queues_call)
  obtain w' where r: "loop_run idle_env noted_requeue ?acts ?s = Inr ((At_Functors [User ''b''], w'), [User ''a''])"
      "run_passed (\<lambda>m. m) idle_env noted_requeue ?acts ?s = [User ''c'', User ''again'']"
    by (simp add: idle_loop_def noted_requeue_def queueInLoop_def wakeup_def Let_def isInLoopThread_def EventLoop.defs)
  show ?thesis
    using r functors_called_in_order [OF user r(1)] by (simp add: idle_loop_def EventLoop.defs)
qed

text \<open>The number of steps of the loop thread in a sequence of actions.\<close>

fun loop_steps :: "'u loop_action list \<Rightarrow> nat" where
  "loop_steps [] = 0"
| "loop_steps (Loop_Thread rep # as) = Suc (loop_steps as)"
| "loop_steps (_ # as) = loop_steps as"

lemma taken_functors_run:
  assumes total: "\<And>u t w. \<exists>w'. user u t w = Inr w'"
  shows "loop_steps acts = length us \<Longrightarrow>
    \<exists>w'. loop_run env user acts (At_Functors (map User us), w)
      = Inr ((At_Functors [], w'), map User us)"
proof (induction acts arbitrary: us w)
  case (Cons a acts)
  show ?case
  proof (cases a)
    case (Loop_Thread rep)
    then obtain u us' where us: "us = u # us'" using Cons.prems by (cases us) auto
    obtain v where v: "user u None w = Inr v" using total by blast
    obtain w' where "loop_run env user acts (At_Functors (map User us'), v)
        = Inr ((At_Functors [], w'), map User us')"
      using Cons.IH [of us' v] Cons.prems Loop_Thread us by auto
    then show ?thesis using Loop_Thread us v by simp
  next
    case (Queue_From tid cb)
    then show ?thesis
      using Cons.IH [of us "queueInLoop tid cb w"] Cons.prems by (auto simp: Let_def)
  next
    case (Quit_From tid)
    then show ?thesis using Cons.IH [of us "EventLoop_quit tid w"] Cons.prems by auto
  qed
qed simp

text \<open>
  Functors that are pending when the loop comes to run them do run: after the swap and as many
  further steps of the loop thread as there were functors, exactly those have been called, in order,
  whatever other threads queue or quit in between.
\<close>

theorem pending_functors_run:
  assumes "\<forall>u t w. \<exists>w'. user u t w = Inr w'" "el_pendingFunctors w = map User us"
    and "loop_steps acts = length us"
  shows "\<exists>w'. loop_run env user (Loop_Thread rep # acts) (At_Swap, w)
      = Inr ((At_Functors [], w'), map User us)"
  using taken_functors_run [of user acts us env "w\<lparr>el_callingPendingFunctors := True, el_pendingFunctors := []\<rparr>"]
    assms by auto

theorem pending_functors_run_witness:
  "\<exists>w'. loop_run idle_env requeue
       [Loop_Thread no_report, Loop_Thread no_report, Quit_From 11, Loop_Thread no_report] (At_Swap, idle_loop)
     = Inr ((At_Functors [], w'), [User ''a'', User ''b''])"
  using pending_functors_run [of requeue idle_loop "[''a'', ''b'']"
      "[Loop_Thread no_report, Quit_From 11, Loop_Thread no_report]" idle_env no_report]
  by (simp add: requeue_def idle_loop_def)

section \<open>Leaving the loop\<close>

text \<open>Only \<^verbatim>\<open>loop()\<close> itself clears \<^verbatim>\<open>quit_\<close>, when it is entered; user code does not.\<close>

definition keeps_quit :: "('u, 'm) EventLoop_scheme \<Rightarrow> ('u, 'm) EventLoop_scheme \<Rightarrow> bool" where
  "keeps_quit w w' \<longleftrightarrow> (el_quit w \<longrightarrow> el_quit w')"

definition user_keeps_quit :: "('u, 'm) user_code \<Rightarrow> bool" where
  "user_keeps_quit user \<longleftrightarrow> (\<forall>u t w w'. user u t w = Inr w' \<longrightarrow> keeps_quit w w')"

lemma quit_relation: "user_keeps_quit user \<Longrightarrow> loop_relation user keeps_quit"
  unfolding loop_relation_def user_keeps_quit_def by (simp add: keeps_quit_def)

lemma quit_more: "chan_heap.more w' = chan_heap.more w \<Longrightarrow> el_quit w' = el_quit w"
  by (cases w, cases w') simp

lemma loop_step_keeps_quit:
  assumes "user_keeps_quit user" "loop_step env user rep (pc, w) = Inr ((pc', w'), called)" "el_quit w"
  shows "el_quit w'"
proof (cases pc)
  case At_Poll
  then show ?thesis
    using assms(2,3) by (auto simp: loop_poll_def outcome_simps dest!: Poller_poll_more quit_more)
next
  case (At_Handle ps)
  then show ?thesis
    using assms(2,3) handleEvent_relation [OF quit_relation [OF assms(1)]]
    by (cases ps) (auto simp: outcome_simps keeps_quit_def)
next
  case (At_Functors fs)
  then show ?thesis
    using assms(2,3) call_cb_relation [OF quit_relation [OF assms(1)]]
    by (cases fs) (auto simp: outcome_simps keeps_quit_def)
qed (use assms(2,3) in \<open>auto split: if_splits\<close>)

text \<open>A schedule that always lets the loop thread take another step.\<close>

definition fair :: "(nat \<Rightarrow> 'u loop_action) \<Rightarrow> bool" where
  "fair acts \<longleftrightarrow> (\<forall>n. \<exists>m\<ge>n. \<exists>rep. acts m = Loop_Thread rep)"

definition leaves ::
  "'u loop_env \<Rightarrow> ('u, 'm) user_code \<Rightarrow> (nat \<Rightarrow> 'u loop_action) \<Rightarrow> 'u loop_pc \<times> ('u, 'm) EventLoop_scheme \<Rightarrow> bool" where
  "leaves env user acts s \<longleftrightarrow> (\<exists>n. (\<exists>e. loop_run env user (map acts [0..<n]) s = Inl e)
     \<or> (\<exists>w c. loop_run env user (map acts [0..<n]) s = Inr ((Loop_Left, w), c)))"

lemma fair_Suc: "fair acts \<Longrightarrow> fair (\<lambda>n. acts (Suc n))"
  unfolding fair_def by (metis Suc_le_D Suc_le_mono)

lemma leaves_fault: "loop_act env user (acts 0) s = Inl e \<Longrightarrow> leaves env user acts s"
  unfolding leaves_def by (rule exI [of _ 1]) simp

lemma leaves_step:
  assumes "loop_act env user (acts 0) s = Inr (s', c)" "leaves env user (\<lambda>n. acts (Suc n)) s'"
  shows "leaves env user acts s"
proof -
  obtain n where n: "(\<exists>e. loop_run env user (map (\<lambda>n. acts (Suc n)) [0..<n]) s' = Inl e)
      \<or> (\<exists>w c. loop_run env user (map (\<lambda>n. acts (Suc n)) [0..<n]) s' = Inr ((Loop_Left, w), c))"
    using assms(2) unfolding leaves_def by blast
  have "map acts [0..<Suc n] = acts 0 # map (\<lambda>n. acts (Suc n)) [0..<n]"
    by (simp add: upt_conv_Cons map_Suc_upt [symmetric] del: upt_Suc)
  then show ?thesis
    using n assms(1) unfolding leaves_def by (intro exI [of _ "Suc n"]) (auto simp del: upt_Suc)
qed

text \<open>Other threads may act before the loop thread takes its next step.\<close>

lemma leaves_next:
  assumes "fair acts" "el_quit w"
    and step: "\<And>rep v acts. fair acts \<Longrightarrow> el_quit v \<Longrightarrow>
      case loop_step env user rep (pc, v) of Inl e \<Rightarrow> True | Inr (s, c) \<Rightarrow> leaves env user acts s"
  shows "leaves env user acts (pc, w)"
proof -
  obtain m rep where "acts m = Loop_Thread rep" using assms(1) unfolding fair_def by blast
  then show ?thesis
    using assms(1,2)
  proof (induction m arbitrary: acts w)
    case 0
    then show ?case
      using step [OF fair_Suc [OF 0(2)] 0(3), of rep]
      by (cases "loop_step env user rep (pc, w)") (auto intro: leaves_fault leaves_step)
  next
    case (Suc m)
    show ?case
    proof (cases "acts 0")
      case (Loop_Thread r)
      then show ?thesis
        using step [OF fair_Suc [OF Suc.prems(2)] Suc.prems(3), of r]
        by (cases "loop_step env user r (pc, w)") (auto intro: leaves_fault leaves_step)
    next
      case (Queue_From tid cb)
      moreover have "el_quit (queueInLoop tid cb w)"
        using Suc.prems(3) by (simp add: queueInLoop_def wakeup_def Let_def)
      ultimately show ?thesis
        using Suc.IH [OF Suc.prems(1) fair_Suc [OF Suc.prems(2)], of "queueInLoop tid cb w"]
        by (intro leaves_step [of env user acts "(pc, w)" "(pc, queueInLoop tid cb w)"]) (auto simp: Let_def)
    next
      case (Quit_From tid)
      then show ?thesis
        using Suc.IH [OF Suc.prems(1) fair_Suc [OF Suc.prems(2)], of "EventLoop_quit tid w"]
        by (intro leaves_step [of env user acts "(pc, w)" "(pc, EventLoop_quit tid w)"])
          (auto simp: EventLoop_quit_def wakeup_def Let_def)
    qed
  qed
qed

lemma quit_leaves:
  assumes user: "user_keeps_quit user"
  shows "fair acts \<Longrightarrow> el_quit w \<Longrightarrow> leaves env user acts (pc, w)"
proof -
  let ?ok = "\<lambda>pc. \<forall>acts w. fair acts \<longrightarrow> el_quit w \<longrightarrow> leaves env user acts (pc, w)"
  have left: "?ok Loop_Left" unfolding leaves_def by (intro allI impI exI [of _ 0]) simp
  have step: "?ok pc" if "\<And>rep v pc' v' c. el_quit v \<Longrightarrow> loop_step env user rep (pc, v) = Inr ((pc', v'), c) \<Longrightarrow> ?ok pc'" for pc
  proof (intro allI impI)
    fix acts :: "nat \<Rightarrow> 'a loop_action" and w :: "('a, 'b) EventLoop_scheme"
    assume f: "fair acts" "el_quit w"
    show "leaves env user acts (pc, w)"
    proof (rule leaves_next [OF f])
      fix rep and v :: "('a, 'b) EventLoop_scheme" and as :: "nat \<Rightarrow> 'a loop_action"
      assume "fair as" "el_quit v"
      then show "case loop_step env user rep (pc, v) of Inl e \<Rightarrow> True | Inr (s, c) \<Rightarrow> leaves env user as s"
        using that [of v rep] loop_step_keeps_quit [OF user, of env rep pc v]
        by (cases "loop_step env user rep (pc, v)") auto
    qed
  qed
  have test: "?ok At_Test" by (rule step) (use left in auto)
  have functors: "?ok (At_Functors fs)" for fs
  proof (induction fs)
    case Nil
    show ?case by (rule step) (use test in auto)
  next
    case (Cons f fs)
    show ?case by (rule step) (use Cons in \<open>auto simp: outcome_simps\<close>)
  qed
  have swap: "?ok At_Swap" by (rule step) (use functors in auto)
  have handle: "?ok (At_Handle ps)" for ps
  proof (induction ps)
    case Nil
    show ?case by (rule step) (use swap in auto)
  next
    case (Cons p ps)
    show ?case by (rule step) (use Cons in \<open>auto simp: outcome_simps\<close>)
  qed
  have poll: "?ok At_Poll" by (rule step) (use handle in \<open>auto simp: loop_poll_def outcome_simps\<close>)
  have "?ok pc" by (cases pc) (use left test functors swap handle poll in auto)
  then show "fair acts \<Longrightarrow> el_quit w \<Longrightarrow> leaves env user acts (pc, w)" by blast
qed

text \<open>
  A loop that is asked to quit, by any thread and wherever the loop thread is, leaves its loop: in every
  schedule in which the loop thread goes on taking steps, and whatever other threads queue meanwhile,
  after finitely many steps it is out of the loop, or a step has faulted.
\<close>

theorem quit_ends_loop:
  assumes "user_keeps_quit user" "\<forall>n. \<exists>m\<ge>n. \<exists>rep. acts m = Loop_Thread rep"
  shows "\<exists>n. (\<exists>e. loop_run env user (map acts [0..<n]) (pc, EventLoop_quit tid w) = Inl e)
    \<or> (\<exists>w' c. loop_run env user (map acts [0..<n]) (pc, EventLoop_quit tid w) = Inr ((Loop_Left, w'), c))"
  using quit_leaves [OF assms(1), of acts "EventLoop_quit tid w" env pc] assms(2)
  unfolding leaves_def fair_def by (simp add: EventLoop_quit_def wakeup_def Let_def)

lemma left_stays: "loop_run env user (replicate n (Loop_Thread rep)) (Loop_Left, w) = Inr ((Loop_Left, w), [])"
  by (induction n) (simp_all add:)

theorem quit_ends_loop_witness:
  "\<exists>n w' c. loop_run idle_env requeue (map (\<lambda>n. Loop_Thread no_report) [0..<n]) (At_Test, EventLoop_quit 11 idle_loop)
     = Inr ((Loop_Left, w'), c)"
proof -
  let ?run = "\<lambda>n. loop_run idle_env requeue (map (\<lambda>n. Loop_Thread no_report) [0..<n]) (At_Test, EventLoop_quit 11 idle_loop)"
  have keeps: "user_keeps_quit requeue"
    by (auto simp: user_keeps_quit_def keeps_quit_def requeue_def queueInLoop_def wakeup_def Let_def split: if_splits)
  have "?run n \<noteq> Inl e" for n e
  proof (cases n)
    case (Suc k)
    have "map (\<lambda>n. Loop_Thread no_report :: string loop_action) [0..<n] = Loop_Thread no_report # replicate k (Loop_Thread no_report)"
      by (simp add: Suc map_replicate_const)
    then show ?thesis by (simp add: EventLoop_quit_def wakeup_def Let_def left_stays)
  qed simp
  then show ?thesis
    using quit_ends_loop [OF keeps, of "\<lambda>n. Loop_Thread no_report" idle_env At_Test 11 idle_loop] by blast
qed

section \<open>Channels of a loop with the poll-based poller\<close>

text \<open>
  What the owner of a channel relies on in its loop: registering, changing and removing a channel act
  on a map from descriptors to what is watched.
\<close>

locale channel_registry =
  fixes inv :: "('cb, 'm) chan_heap_scheme \<Rightarrow> bool"
    and self :: "('cb, 'm) chan_heap_scheme \<Rightarrow> nat"
    and registered :: "('cb, 'm) chan_heap_scheme \<Rightarrow> int \<Rightarrow> chan_addr option"
    and watch :: "('cb, 'm) chan_heap_scheme \<Rightarrow> int \<Rightarrow> pollfd option"
    and update :: "chan_addr \<Rightarrow> ('cb, 'm) chan_heap_scheme \<Rightarrow> ('cb, 'm) chan_heap_scheme outcome"
    and remove :: "chan_addr \<Rightarrow> ('cb, 'm) chan_heap_scheme \<Rightarrow> ('cb, 'm) chan_heap_scheme outcome"
  assumes add_law: "inv w \<Longrightarrow> chans w p = Some c \<Longrightarrow> ch_loop c = self w \<Longrightarrow> ch_index c < 0 \<Longrightarrow> 0 \<le> ch_fd c \<Longrightarrow>
      registered w (ch_fd c) = None \<Longrightarrow>
      \<exists>k w'. update p w = Inr w' \<and> inv w' \<and> self w' = self w \<and> chans w' p = Some (c\<lparr>ch_index := k\<rparr>)
        \<and> registered w' = (registered w)(ch_fd c \<mapsto> p) \<and> watch w' = (watch w)(ch_fd c \<mapsto> entry_of c)"
    and mod_law: "inv w \<Longrightarrow> chans w p = Some c \<Longrightarrow> ch_loop c = self w \<Longrightarrow> registered w (ch_fd c) = Some p \<Longrightarrow>
      \<exists>w' e. update p w = Inr w' \<and> inv w' \<and> self w' = self w \<and> chans w' p = Some c
        \<and> registered w' = registered w \<and> watch w (ch_fd c) = Some e
        \<and> watch w' = (watch w)(ch_fd c \<mapsto> entry_update c e)"
    and rem_law: "inv w \<Longrightarrow> chans w p = Some c \<Longrightarrow> ch_loop c = self w \<Longrightarrow> registered w (ch_fd c) = Some p \<Longrightarrow>
      isNoneEvent c \<Longrightarrow> watch w (ch_fd c) = Some e \<Longrightarrow> pfd_fd e = - ch_fd c - 1 \<Longrightarrow> pfd_events e = 0 \<Longrightarrow>
      \<exists>w'. remove p w = Inr w' \<and> inv w' \<and> registered w' = (registered w)(ch_fd c := None)
        \<and> watch w' = (watch w)(ch_fd c := None)"
    and events_law: "inv w \<Longrightarrow> chans w p = Some c \<Longrightarrow>
      inv (put_chan p (c\<lparr>ch_events := ev\<rparr>) w) \<and> self (put_chan p (c\<lparr>ch_events := ev\<rparr>) w) = self w
      \<and> registered (put_chan p (c\<lparr>ch_events := ev\<rparr>) w) = registered w
      \<and> watch (put_chan p (c\<lparr>ch_events := ev\<rparr>) w) = watch w"
begin

lemma chans_put: "chans (put_chan p c w) p = Some c"
  by (simp add: put_chan_def)

lemma enable_new:
  assumes "inv w" "chans w p = Some c" "ch_loop c = self w" "ch_index c < 0" "0 \<le> ch_fd c"
    "registered w (ch_fd c) = None"
  shows "\<exists>k w'. set_events update f p w = Inr w' \<and> inv w' \<and> self w' = self w
    \<and> chans w' p = Some (c\<lparr>ch_events := f (ch_events c), ch_index := k\<rparr>)
    \<and> registered w' = (registered w)(ch_fd c \<mapsto> p)
    \<and> watch w' = (watch w)(ch_fd c \<mapsto> entry_of (c\<lparr>ch_events := f (ch_events c)\<rparr>))"
  using add_law [of "put_chan p (c\<lparr>ch_events := f (ch_events c)\<rparr>) w" p "c\<lparr>ch_events := f (ch_events c)\<rparr>"]
    events_law [OF assms(1,2), of "f (ch_events c)"] assms
  by (simp add: set_events_def with_chan_def chans_put)

lemma disable_registered:
  assumes "inv w" "chans w p = Some c" "ch_loop c = self w" "registered w (ch_fd c) = Some p"
  shows "\<exists>w' e. disableAll update p w = Inr w' \<and> inv w' \<and> self w' = self w
    \<and> chans w' p = Some (c\<lparr>ch_events := kNoneEvent\<rparr>) \<and> registered w' = registered w
    \<and> watch w' = (watch w)(ch_fd c \<mapsto> e) \<and> pfd_fd e = - ch_fd c - 1 \<and> pfd_events e = 0"
proof -
  let ?c = "c\<lparr>ch_events := kNoneEvent\<rparr>"
  have ev: "inv (put_chan p ?c w)" "self (put_chan p ?c w) = self w"
    "registered (put_chan p ?c w) = registered w" "watch (put_chan p ?c w) = watch w"
    using events_law [OF assms(1,2), of kNoneEvent] by auto
  obtain w' e where "update p (put_chan p ?c w) = Inr w'" "inv w'" "self w' = self w"
      "chans w' p = Some ?c" "registered w' = registered w"
      "watch w' = (watch w)(ch_fd c \<mapsto> entry_update ?c e)"
    using mod_law [OF ev(1) chans_put] ev(2-4) assms(3,4) by auto
  then show ?thesis
    using assms(2)
    by (intro exI [of _ w'] exI [of _ "entry_update ?c e"])
      (simp add: disableAll_def set_events_def with_chan_def entry_update_def isNoneEvent_def short_of_def
        kNoneEvent_def)
qed

lemma life_restores:
  assumes "inv w" "chans w p = Some c" "ch_loop c = self w" "ch_index c < 0" "0 \<le> ch_fd c"
    and free: "registered w (ch_fd c) = None" "watch w (ch_fd c) = None"
  shows "\<exists>w'. seq (set_events update f p w) (\<lambda>w. seq (disableAll update p w) (ch_remove remove p)) = Inr w'
    \<and> inv w' \<and> registered w' = registered w \<and> watch w' = watch w"
proof -
  obtain k w1 where w1: "set_events update f p w = Inr w1" "inv w1" "self w1 = self w"
      "chans w1 p = Some (c\<lparr>ch_events := f (ch_events c), ch_index := k\<rparr>)"
      "registered w1 = (registered w)(ch_fd c \<mapsto> p)"
      "watch w1 = (watch w)(ch_fd c \<mapsto> entry_of (c\<lparr>ch_events := f (ch_events c)\<rparr>))"
    using enable_new [OF assms(1-6), of f] by blast
  let ?c = "c\<lparr>ch_events := kNoneEvent, ch_index := k\<rparr>"
  obtain w2 e where w2: "disableAll update p w1 = Inr w2" "inv w2" "self w2 = self w" "chans w2 p = Some ?c"
      "registered w2 = registered w1" "watch w2 = (watch w1)(ch_fd c \<mapsto> e)"
      "pfd_fd e = - ch_fd c - 1" "pfd_events e = 0"
    using disable_registered [OF w1(2,4)] w1(3,5) assms(3) by auto
  have off: "isNoneEvent ?c" by (simp add: isNoneEvent_def)
  obtain w3 where w3: "remove p w2 = Inr w3" "inv w3" "registered w3 = (registered w2)(ch_fd c := None)"
      "watch w3 = (watch w2)(ch_fd c := None)"
    using rem_law [OF w2(2,4) _ _ off] w2 w1(5) assms(3) by auto
  have "ch_remove remove p w2 = Inr w3"
    using w2(4) w3(1) off by (simp add: ch_remove_def with_chan_def)
  moreover have "registered w3 = registered w" "watch w3 = watch w"
    using w3(3,4) w2(5,6) w1(5,6) free by (auto simp: fun_eq_iff)
  ultimately show ?thesis using w1(1) w2(1) w3(2) by auto
qed

end

definition loop_inv :: "('u, 'm) EventLoop_scheme \<Rightarrow> bool" where
  "loop_inv w \<longleftrightarrow>
     \<not> el_eventHandling w \<and> (case el_poller w of Poll pp \<Rightarrow> pp_inv w pp | EPoll ep \<Rightarrow> False)"

definition loop_registered :: "('u, 'm) EventLoop_scheme \<Rightarrow> int \<Rightarrow> chan_addr option" where
  "loop_registered w = (case el_poller w of Poll pp \<Rightarrow> pp_channels pp | EPoll ep \<Rightarrow> (\<lambda>_. None))"

definition loop_watched :: "('u, 'm) EventLoop_scheme \<Rightarrow> int \<Rightarrow> pollfd option" where
  "loop_watched w = (case el_poller w of Poll pp \<Rightarrow> watched (w, pp) | EPoll ep \<Rightarrow> (\<lambda>_. None))"

lemma pp_inv_poller [simp]: "pp_inv (w\<lparr>el_poller := x\<rparr>) pp = pp_inv w pp"
  by (simp add: pp_inv_def)

lemma watched_poller [simp]: "watched (w\<lparr>el_poller := x\<rparr>, pp) = watched (w, pp)"
  by (simp add: watched_def fun_eq_iff split: option.split)

lemma pp_remove_more: "pp_remove p (w, pp) = Inr (w', pp') \<Longrightarrow> chan_heap.more w' = chan_heap.more w"
  by (auto simp: pp_remove_def with_chan_def put_chan_def outcome_simps Let_def split: if_splits option.splits)

lemma handling_more: "chan_heap.more w' = chan_heap.more w \<Longrightarrow> el_eventHandling w' = el_eventHandling w"
  by (cases w, cases w') simp

lemma put_chan_fields [simp]:
  "el_poller (put_chan p c w) = el_poller w" "el_this (put_chan p c w) = el_this w"
  "el_eventHandling (put_chan p c w) = el_eventHandling w"
  by (simp_all add: put_chan_def)

lemma loop_invD: "loop_inv w \<Longrightarrow> \<exists>pp. el_poller w = Poll pp \<and> pp_inv w pp \<and> \<not> el_eventHandling w"
  by (auto simp: loop_inv_def split: Poller.splits)

lemma loop_add:
  assumes "loop_inv w" "chans w p = Some c" "ch_loop c = el_this w" "ch_index c < 0" "0 \<le> ch_fd c"
    "loop_registered w (ch_fd c) = None"
  shows "\<exists>k w'. EventLoop_updateChannel env p w = Inr w' \<and> loop_inv w' \<and> el_this w' = el_this w
    \<and> chans w' p = Some (c\<lparr>ch_index := k\<rparr>) \<and> loop_registered w' = (loop_registered w)(ch_fd c \<mapsto> p)
    \<and> loop_watched w' = (loop_watched w)(ch_fd c \<mapsto> entry_of c)"
proof -
  obtain pp where pp: "el_poller w = Poll pp" "pp_inv w pp" "\<not> el_eventHandling w"
    using loop_invD [OF assms(1)] by blast
  obtain k pp' where k: "pp_update p (w, pp) = Inr (put_chan p (c\<lparr>ch_index := k\<rparr>) w, pp')"
      "pp_inv (put_chan p (c\<lparr>ch_index := k\<rparr>) w) pp'" "pp_channels pp' = (pp_channels pp)(ch_fd c \<mapsto> p)"
      "watched (put_chan p (c\<lparr>ch_index := k\<rparr>) w, pp') = (watched (w, pp))(ch_fd c \<mapsto> entry_of c)"
    using pp_add [OF pp(2) assms(2,4,5)] assms(6) pp(1) by (auto simp: loop_registered_def)
  let ?w = "(put_chan p (c\<lparr>ch_index := k\<rparr>) w)\<lparr>el_poller := Poll pp'\<rparr>"
  have "EventLoop_updateChannel env p w = Inr ?w"
    using assms(2,3) pp(1) k(1)
    by (simp add: EventLoop_updateChannel_def Poller_updateChannel_def with_chan_def)
  moreover have "chans ?w p = Some (c\<lparr>ch_index := k\<rparr>)" by (simp add: put_chan_def)
  ultimately show ?thesis
    using pp k by (intro exI [of _ k] exI [of _ ?w])
      (simp add: loop_inv_def loop_registered_def loop_watched_def)
qed

lemma loop_mod:
  assumes "loop_inv w" "chans w p = Some c" "ch_loop c = el_this w" "loop_registered w (ch_fd c) = Some p"
  shows "\<exists>w' e. EventLoop_updateChannel env p w = Inr w' \<and> loop_inv w' \<and> el_this w' = el_this w
    \<and> chans w' p = Some c \<and> loop_registered w' = loop_registered w \<and> loop_watched w (ch_fd c) = Some e
    \<and> loop_watched w' = (loop_watched w)(ch_fd c \<mapsto> entry_update c e)"
proof -
  obtain pp where pp: "el_poller w = Poll pp" "pp_inv w pp" "\<not> el_eventHandling w"
    using loop_invD [OF assms(1)] by blast
  obtain pp' e where k: "pp_update p (w, pp) = Inr (w, pp')" "pp_inv w pp'" "pp_channels pp' = pp_channels pp"
      "watched (w, pp) (ch_fd c) = Some e" "watched (w, pp') = (watched (w, pp))(ch_fd c \<mapsto> entry_update c e)"
    using pp_mod [OF pp(2) _ assms(2)] assms(4) pp(1) by (auto simp: loop_registered_def)
  have "EventLoop_updateChannel env p w = Inr (w\<lparr>el_poller := Poll pp'\<rparr>)"
    using assms(2,3) pp(1) k(1)
    by (simp add: EventLoop_updateChannel_def Poller_updateChannel_def with_chan_def)
  then show ?thesis
    using assms(2) pp k by (simp add: loop_inv_def loop_registered_def loop_watched_def)
qed

lemma loop_rem:
  assumes "loop_inv w" "chans w p = Some c" "ch_loop c = el_this w" "loop_registered w (ch_fd c) = Some p"
    "isNoneEvent c" "loop_watched w (ch_fd c) = Some e" "pfd_fd e = - ch_fd c - 1" "pfd_events e = 0"
  shows "\<exists>w'. EventLoop_removeChannel env p w = Inr w' \<and> loop_inv w'
    \<and> loop_registered w' = (loop_registered w)(ch_fd c := None)
    \<and> loop_watched w' = (loop_watched w)(ch_fd c := None)"
proof -
  obtain pp where pp: "el_poller w = Poll pp" "pp_inv w pp" "\<not> el_eventHandling w"
    using loop_invD [OF assms(1)] by blast
  obtain w' pp' where k: "pp_remove p (w, pp) = Inr (w', pp')" "pp_inv w' pp'"
      "pp_channels pp' = (pp_channels pp)(ch_fd c := None)"
      "watched (w', pp') = (watched (w, pp))(ch_fd c := None)"
    using pp_rem [OF pp(2) _ assms(2,5) _ assms(7,8)] assms(4,6) pp(1)
    by (auto simp: loop_registered_def loop_watched_def)
  have "EventLoop_removeChannel env p w = Inr (w'\<lparr>el_poller := Poll pp'\<rparr>)"
    using assms(2,3) pp k(1)
    by (simp add: EventLoop_removeChannel_def Poller_removeChannel_def with_chan_def)
  then show ?thesis
    using pp k handling_more [OF pp_remove_more [OF k(1)]]
    by (simp add: loop_inv_def loop_registered_def loop_watched_def)
qed

interpretation poll: channel_registry loop_inv el_this loop_registered loop_watched
  "EventLoop_updateChannel env" "EventLoop_removeChannel env" for env
proof (unfold_locales, goal_cases)
  case (1 w p c)
  then show ?case by (rule loop_add)
next
  case (2 w p c)
  then show ?case by (rule loop_mod)
next
  case (3 w p c e)
  then show ?case by (rule loop_rem)
next
  case (4 w p c ev)
  then show ?case
    using loop_invD [OF 4(1)]
    by (auto simp: loop_inv_def loop_registered_def loop_watched_def pp_set_events)
qed

text \<open>
  C28: On a loop with the poll-based poller a channel that is enabled for reading, then disabled and
  removed leaves every other registration as it was: no assertion fails on the way, and afterwards
  the loop watches exactly what it watched before.
\<close>

theorem channel_life_cycle:
  assumes "loop_inv w" "chans w p = Some c" "ch_loop c = el_this w" "ch_index c < 0" "0 \<le> ch_fd c"
    and "loop_registered w (ch_fd c) = None"
  shows "\<exists>w'. seq (enableReading (EventLoop_updateChannel env) p w) (\<lambda>w.
        seq (disableAll (EventLoop_updateChannel env) p w) (ch_remove (EventLoop_removeChannel env) p)) = Inr w'
    \<and> loop_inv w' \<and> loop_registered w' = loop_registered w \<and> loop_watched w' = loop_watched w"
proof -
  have "loop_watched w (ch_fd c) = None"
    using assms(6) by (auto simp: loop_registered_def loop_watched_def watched_def split: Poller.splits)
  then show ?thesis
    unfolding enableReading_def using poll.life_restores [OF assms] by blast
qed

theorem channel_life_cycle_witness:
  "\<exists>w'. seq (enableReading (EventLoop_updateChannel idle_env) 1 idle_loop) (\<lambda>w.
        seq (disableAll (EventLoop_updateChannel idle_env) 1 w) (ch_remove (EventLoop_removeChannel idle_env) 1))
      = Inr w' \<and> loop_registered w' = loop_registered idle_loop"
  using channel_life_cycle [of idle_loop 1 "Channel_new 0 3" idle_env]
  by (auto simp: idle_loop_def loop_inv_def Channel_new_def loop_registered_def PollPoller_new_def pp_inv_def)

end
