(* ===== verification/Loop_Threads.thy ===== *)
theory Loop_Threads
  imports Prelude
begin

text \<open>
  \<^verbatim>\<open>src/src/port/EventLoopThread.h\<close>, \<^verbatim>\<open>EventLoopThread.cpp\<close>, \<^verbatim>\<open>EventLoopThreadPool.h\<close> and
  \<^verbatim>\<open>EventLoopThreadPool.cpp\<close>: a thread that runs an event loop, as the interleaving of its owner
  (who starts and destroys it) with the thread itself, and a pool of such threads that hands out
  loops in turn.
\<close>

section \<open>EventLoopThread\<close>

text \<open>
  Where the owner is: before \<^verbatim>\<open>startLoop\<close>, waiting in it for \<^verbatim>\<open>loop_\<close>, after it, waiting for the thread in
  the destructor, and after that.  Where the thread is: not started, constructing its loop, about to
  publish it, about to call \<^verbatim>\<open>loop()\<close>, in the loop, and ended.
\<close>

datatype owner_pc = O_Idle | O_Starting | O_Running | O_Joining | O_Gone
datatype thread_pc = T_None | T_Construct | T_Publish | T_Enter | T_Looping | T_Ended

text \<open>\<open>elt_quit\<close> is the \<^verbatim>\<open>quit_\<close> flag of the loop, an object on the stack of the thread.\<close>

record EventLoopThread =
  elt_loop :: bool
  elt_exiting :: bool
  elt_started :: bool
  elt_owner :: owner_pc
  elt_thread :: thread_pc
  elt_quit :: bool

definition EventLoopThread_new :: EventLoopThread where
  "EventLoopThread_new =
     \<lparr>elt_loop = False, elt_exiting = False, elt_started = False, elt_owner = O_Idle,
      elt_thread = T_None, elt_quit = False\<rparr>"

definition startLoop :: "EventLoopThread \<Rightarrow> EventLoopThread outcome" where
  "startLoop t =
     cassert (\<not> elt_started t)
       (Inr (t\<lparr>elt_started := True, elt_thread := T_Construct, elt_owner := O_Starting\<rparr>))"


























section \<open>EventLoopThreadPool\<close>

type_synonym loop_addr = nat

record EventLoopThreadPool =
  etp_baseLoop :: loop_addr
  etp_started :: bool
  etp_numThreads :: int
  etp_next :: int
  etp_threads :: "EventLoopThread list"
  etp_loops :: "loop_addr list"

definition EventLoopThreadPool_new :: "loop_addr \<Rightarrow> EventLoopThreadPool" where
  "EventLoopThreadPool_new base =
     \<lparr>etp_baseLoop = base, etp_started = False, etp_numThreads = 0, etp_next = 0, etp_threads = [],
      etp_loops = []\<rparr>"

definition setThreadNum :: "int \<Rightarrow> EventLoopThreadPool \<Rightarrow> EventLoopThreadPool" where
  "setThreadNum n p = p\<lparr>etp_numThreads := n\<rparr>"

text \<open>
  \<^verbatim>\<open>start\<close>; \<open>new_loop i\<close> is the loop that thread \<open>i\<close> publishes.  The result tells the loop on which the
  callback runs at once.
\<close>

fun start_threads :: "(nat \<Rightarrow> loop_addr) \<Rightarrow> nat \<Rightarrow> EventLoopThreadPool \<Rightarrow> EventLoopThreadPool outcome" where
  "start_threads new_loop 0 p = Inr p"
| "start_threads new_loop (Suc n) p =
     seq (start_threads new_loop n p) (\<lambda>p.
     seq (startLoop EventLoopThread_new) (\<lambda>t.
       Inr (p\<lparr>etp_threads := etp_threads p @ [t], etp_loops := etp_loops p @ [new_loop n]\<rparr>)))"

definition pool_start ::
  "(nat \<Rightarrow> loop_addr) \<Rightarrow> bool \<Rightarrow> EventLoopThreadPool \<Rightarrow> (EventLoopThreadPool \<times> loop_addr option) outcome" where
  "pool_start new_loop cb p =
     cassert (\<not> etp_started p)
       (seq (start_threads new_loop (nat (etp_numThreads p)) (p\<lparr>etp_started := True\<rparr>)) (\<lambda>p.
          Inr (p, if etp_numThreads p = 0 \<and> cb then Some (etp_baseLoop p) else None)))"

definition getNextLoop :: "EventLoopThreadPool \<Rightarrow> (EventLoopThreadPool \<times> loop_addr) outcome" where
  "getNextLoop p =
     (if etp_loops p \<noteq> [] then
        if 0 \<le> etp_next p \<and> etp_next p < int (length (etp_loops p)) then
          let loop = etp_loops p ! nat (etp_next p);
              next1 = etp_next p + 1;
              next2 = (if size_of_int next1 \<ge> length (etp_loops p) then 0 else next1)
          in Inr (p\<lparr>etp_next := next2\<rparr>, loop)
        else Inl Out_Of_Range
      else Inr (p, etp_baseLoop p))"

fun get_loops :: "nat \<Rightarrow> EventLoopThreadPool \<Rightarrow> loop_addr list outcome" where
  "get_loops 0 p = Inr []"
| "get_loops (Suc n) p = seq (getNextLoop p) (\<lambda>(p, l). seq (get_loops n p) (\<lambda>ls. Inr (l # ls)))"

lemma start_threads_loops:
  "\<exists>ts. start_threads new_loop n p = Inr (p\<lparr>etp_threads := ts, etp_loops := etp_loops p @ map new_loop [0..<n]\<rparr>)
     \<and> length ts = length (etp_threads p) + n"
proof (induction n)
  case 0
  then show ?case by (intro exI [of _ "etp_threads p"]) simp
next
  case (Suc n)
  then show ?case by (auto simp: startLoop_def EventLoopThread_new_def)
qed

lemma getNextLoop_in_turn:
  assumes "length (etp_loops p) < 2 ^ 31" "etp_loops p \<noteq> []" "etp_next p = int (k mod length (etp_loops p))"
  shows "getNextLoop p = Inr (p\<lparr>etp_next := int (Suc k mod length (etp_loops p))\<rparr>,
    etp_loops p ! (k mod length (etp_loops p)))"
proof -
  let ?n = "length (etp_loops p)"
  have k: "k mod ?n < ?n" using assms(2) by simp
  have "size_of_int (etp_next p + 1) = Suc (k mod ?n)"
    using size_of_int_nat [of "Suc (k mod ?n)"] assms(1,3) k by (simp add: add.commute)
  moreover have "?n \<le> Suc (k mod ?n) \<longleftrightarrow> Suc (k mod ?n) = ?n"
    using k by linarith
  ultimately show ?thesis
    using assms(2,3) by (cases "Suc (k mod ?n) = ?n") (auto simp: getNextLoop_def mod_Suc)
qed

lemma get_loops_in_turn:
  assumes "length (etp_loops p) < 2 ^ 31" "etp_loops p \<noteq> []" "etp_next p = int (k mod length (etp_loops p))"
  shows "get_loops m p = Inr (map (\<lambda>i. etp_loops p ! ((k + i) mod length (etp_loops p))) [0..<m])"
  using assms
proof (induction m arbitrary: p k)
  case (Suc m)
  have "get_loops m (p\<lparr>etp_next := int (Suc k mod length (etp_loops p))\<rparr>)
      = Inr (map (\<lambda>i. etp_loops p ! ((Suc k + i) mod length (etp_loops p))) [0..<m])"
    using Suc.IH [of "p\<lparr>etp_next := int (Suc k mod length (etp_loops p))\<rparr>" "Suc k"] Suc.prems by simp
  then show ?case
    using getNextLoop_in_turn [OF Suc.prems] 
    by (simp add: upt_conv_Cons map_Suc_upt [symmetric] comp_def del: upt_Suc)
qed simp

text \<open>
  A pool hands out its loops in turn.  A new pool of \<open>n\<close> threads (fewer than \<open>2 ^ 31\<close>) starts one
  thread per loop, and then any number of requests is answered by loop 0, loop 1, and so on, round
  and round; a pool without threads always answers with its base loop, on which it runs the
  callback.
\<close>

theorem pool_round_robin:
  assumes "n < 2 ^ 31"
  shows "\<exists>p. pool_start new_loop cb (setThreadNum (int n) (EventLoopThreadPool_new base))
        = Inr (p, if n = 0 \<and> cb then Some base else None)
     \<and> length (etp_threads p) = n
     \<and> get_loops m p = Inr (map (\<lambda>i. if n = 0 then base else new_loop (i mod n)) [0..<m])"
proof -
  let ?q = "(setThreadNum (int n) (EventLoopThreadPool_new base))\<lparr>etp_started := True\<rparr>"
  obtain ts where ts: "start_threads new_loop n ?q = Inr (?q\<lparr>etp_threads := ts, etp_loops := map new_loop [0..<n]\<rparr>)"
      "length ts = n"
    using start_threads_loops [of new_loop n ?q] by (auto simp: setThreadNum_def EventLoopThreadPool_new_def)
  let ?p = "?q\<lparr>etp_threads := ts, etp_loops := map new_loop [0..<n]\<rparr>"
  have start: "pool_start new_loop cb (setThreadNum (int n) (EventLoopThreadPool_new base))
        = Inr (?p, if n = 0 \<and> cb then Some base else None)"
    using ts(1) by (simp add: pool_start_def setThreadNum_def EventLoopThreadPool_new_def)
  have "get_loops m ?p = Inr (map (\<lambda>i. if n = 0 then base else new_loop (i mod n)) [0..<m])"
  proof (cases "n = 0")
    case True
    then have "getNextLoop ?p = Inr (?p, base)"
      by (simp add: getNextLoop_def setThreadNum_def EventLoopThreadPool_new_def)
    then have "get_loops m ?p = Inr (replicate m base)" by (induction m) simp_all
    then show ?thesis using True by (simp add: map_replicate_const)
  next
    case False
    then have "get_loops m ?p = Inr (map (\<lambda>i. map new_loop [0..<n] ! (i mod n)) [0..<m])"
      using get_loops_in_turn [of ?p 0 m] assms
      by (simp add: setThreadNum_def EventLoopThreadPool_new_def)
    then show ?thesis using False by simp
  qed
  then show ?thesis using start ts(2) by (intro exI [of _ ?p]) simp
qed

theorem pool_round_robin_witness:
  "\<exists>p. pool_start (\<lambda>i. 100 + i) True (setThreadNum (int 2) (EventLoopThreadPool_new 7)) = Inr (p, None)
     \<and> get_loops 3 p = Inr [100, 101, 100]"
  using pool_round_robin [of 2 "\<lambda>i. 100 + i" True 7 3] by (simp add: upt_rec) blast

end
