(* ===== verification/Loop_Timers.thy ===== *)
theory Loop_Timers
  imports Event_Loop
begin

text \<open>
  The timer queue inside its loop: \<^verbatim>\<open>EventLoop::runAt\<close>, \<^verbatim>\<open>runAfter\<close> and \<^verbatim>\<open>runEvery\<close>, the poll that reports
  the timer descriptor, the channel's read event, and the callbacks of the expired timers, which may
  use the loop in any way.
\<close>

section \<open>Callbacks and the queue\<close>

text \<open>
  User code reaches the timer queue only through its operations.  These keep its invariant, add
  objects and delete none.
\<close>

definition keeps_timers :: "'cb TimerQueue \<Rightarrow> 'cb TimerQueue \<Rightarrow> bool" where
  "keeps_timers q q' \<longleftrightarrow> (\<forall>fl. tq_inv fl q \<longrightarrow> tq_inv fl q' \<and> tq_heap q \<subseteq>\<^sub>m tq_heap q')"

definition user_keeps_timers :: "('u, 'm) user_code \<Rightarrow> bool" where
  "user_keeps_timers user \<longleftrightarrow>
     (\<forall>u t w w'. user u t w = Inr w' \<longrightarrow> keeps_timers (el_timerQueue w) (el_timerQueue w'))"

lemma keeps_timers_refl: "keeps_timers q q"
  by (simp add: keeps_timers_def)

lemma keeps_timers_trans: "keeps_timers q r \<Longrightarrow> keeps_timers r s \<Longrightarrow> keeps_timers q s"
  unfolding keeps_timers_def by (meson map_le_trans)

lemma keeps_timers_ops:
  assumes "fresh_alloc alloc" "run_ops alloc now ops q = Inr q'"
  shows "keeps_timers q q'"
  unfolding keeps_timers_def using run_ops_ok [OF assms(1), of _ q now ops] assms(2) by fastforce

text \<open>The calls that the expired timers ask for, as a list of calls of user code.\<close>

definition timer_calls :: "'u TimerQueue \<Rightarrow> entry list \<Rightarrow> ('u \<times> Timestamp option) list" where
  "timer_calls q es = map (\<lambda>e. (tr_callback (the (tq_heap q (snd e))), None)) es"

lemma timer_calls_simps [simp]:
  "timer_calls q [] = []"
  "timer_calls q (e # es) = (tr_callback (the (tq_heap q (snd e))), None) # timer_calls q es"
  by (simp_all add: timer_calls_def)

lemma timer_calls_le:
  assumes "tq_heap q \<subseteq>\<^sub>m tq_heap q'" "\<forall>e\<in>set es. tq_heap q (snd e) \<noteq> None"
  shows "timer_calls q' es = timer_calls q es"
  using assms by (auto simp: timer_calls_def map_le_def dom_def)

lemma run_timers_calls:
  assumes "user_keeps_timers user" "tq_inv fl (el_timerQueue w)" "snd ` set es \<subseteq> set fl"
  shows "run_timers user es w = run_calls user (timer_calls (el_timerQueue w) es) w
    \<and> (\<forall>w'. run_timers user es w = Inr w' \<longrightarrow> keeps_timers (el_timerQueue w) (el_timerQueue w'))"
  using assms(2,3)
proof (induction es arbitrary: w)
  case Nil
  then show ?case by (simp add: keeps_timers_refl)
next
  case (Cons e es)
  obtain t where t: "tq_heap (el_timerQueue w) (snd e) = Some t"
    using Cons.prems by (auto simp: tq_inv_def)
  show ?case
  proof (cases "user (tr_callback t) None w")
    case (Inl x)
    then show ?thesis using t by (simp add: deref_def)
  next
    case (Inr v)
    then have k: "keeps_timers (el_timerQueue w) (el_timerQueue v)"
      using assms(1) by (simp add: user_keeps_timers_def)
    then have v: "tq_inv fl (el_timerQueue v)" "tq_heap (el_timerQueue w) \<subseteq>\<^sub>m tq_heap (el_timerQueue v)"
      using Cons.prems(1) by (auto simp: keeps_timers_def)
    have live: "\<forall>e\<in>set es. tq_heap (el_timerQueue w) (snd e) \<noteq> None"
      using Cons.prems by (auto simp: tq_inv_def)
    show ?thesis
      using Cons.IH [OF v(1)] Cons.prems(2) Inr t keeps_timers_trans [OF k]
      by (simp add: deref_def timer_calls_le [OF v(2) live])
  qed
qed

section \<open>Handling the timer descriptor\<close>

text \<open>What happens after the callbacks: the repeated timers are set up again.\<close>

definition timers_finish ::
  "'u loop_env \<Rightarrow> entry list \<Rightarrow> Timestamp \<Rightarrow> ('u, 'm) EventLoop_scheme \<Rightarrow> ('u, 'm) EventLoop_scheme outcome" where
  "timers_finish env due now =
     on_timers (\<lambda>q. tq_reset (env_rnd env) due now (q\<lparr>tq_callingExpired := False\<rparr>))"

definition due_timers :: "Timestamp \<Rightarrow> 'u TimerQueue \<Rightarrow> entry list" where
  "due_timers now q = filter (\<lambda>e. fst e \<le> microSecondsSinceEpoch now) (tq_timers q)"

definition taken_out :: "Timestamp \<Rightarrow> 'u TimerQueue \<Rightarrow> 'u TimerQueue" where
  "taken_out now q =
     q\<lparr>tq_timers := filter (\<lambda>e. microSecondsSinceEpoch now < fst e) (tq_timers q),
       tq_callingExpired := True, tq_cancelingTimers := {}\<rparr>"

lemma taken_out_inv: "tq_inv [] q \<Longrightarrow> tq_inv (map snd (due_timers now q)) (taken_out now q)"
  using getExpired_eq(2) [of q now] by (simp add: taken_out_def due_timers_def tq_inv_def)

lemma loop_timerRead_calls:
  assumes "user_keeps_timers user" "tq_inv [] (el_timerQueue w)" "\<not> address_tie (el_clock w) (el_timerQueue w)"
  defines "due \<equiv> due_timers (el_clock w) (el_timerQueue w)"
  shows "loop_timerRead env user w
      = seq (run_calls user (timer_calls (el_timerQueue w) due)
               (w\<lparr>el_timerQueue := taken_out (el_clock w) (el_timerQueue w)\<rparr>))
          (timers_finish env due (el_clock w))"
    and "run_calls user (timer_calls (el_timerQueue w) due)
           (w\<lparr>el_timerQueue := taken_out (el_clock w) (el_timerQueue w)\<rparr>) = Inr w' \<Longrightarrow>
         \<exists>q. timers_finish env due (el_clock w) w' = Inr (w'\<lparr>el_timerQueue := q\<rparr>) \<and> tq_inv [] q"
proof -
  let ?q = "el_timerQueue w"
  let ?w = "w\<lparr>el_timerQueue := taken_out (el_clock w) ?q\<rparr>"
  have inv: "tq_inv (map snd due) (el_timerQueue ?w)"
    using taken_out_inv [OF assms(2)] by (simp add: due_def)
  have calls: "timer_calls (el_timerQueue ?w) due = timer_calls ?q due"
    by (simp add: timer_calls_def taken_out_def)
  note run = run_timers_calls [OF assms(1) inv, of due, unfolded calls]
  show "loop_timerRead env user w
      = seq (run_calls user (timer_calls ?q due) ?w) (timers_finish env due (el_clock w))"
    using run getExpired_eq(1) [OF assms(2), of "el_clock w"] assms(3)
    by (simp add: loop_timerRead_def timers_finish_def Let_def due_def due_timers_def taken_out_def)
  assume "run_calls user (timer_calls ?q due) ?w = Inr w'"
  then have "tq_inv (map snd due) (el_timerQueue w')"
    using run inv by (simp add: keeps_timers_def)
  then have "tq_inv (map snd due) ((el_timerQueue w')\<lparr>tq_callingExpired := False\<rparr>)"
    by (simp add: tq_inv_def)
  from tq_reset_ok [OF this, of "env_rnd env" "el_clock w"]
  show "\<exists>q. timers_finish env due (el_clock w) w' = Inr (w'\<lparr>el_timerQueue := q\<rparr>) \<and> tq_inv [] q"
    by (auto simp: timers_finish_def on_timers_def)
qed

section \<open>Adding a timer\<close>

lemma addTimerInLoop_fd: "addTimerInLoop now a q = Inr q' \<Longrightarrow> tq_timerfd q' = tq_timerfd q"
  by (auto simp: addTimerInLoop_def tq_insert_def deref_def resetTimerfd_def outcome_simps Let_def
      split: if_splits option.splits)

lemma addTimer_adds:
  assumes "isInLoopThread tid w" "tq_inv [] (el_timerQueue w)" "fresh_alloc (env_alloc env)"
  shows "\<exists>q i t a. loop_addTimer env user tid u time d w = Inr (w\<lparr>el_timerQueue := q\<rparr>, i) \<and> tq_inv [] q
    \<and> tq_heap q a = Some t \<and> tr_callback t = u \<and> tr_expiration t = time \<and> tr_interval t = d \<and> (tr_repeat t \<longleftrightarrow> 0 < d)
    \<and> tq_timers q = insort (microSecondsSinceEpoch time, a) (tq_timers (el_timerQueue w))
    \<and> tq_heap (el_timerQueue w) \<subseteq>\<^sub>m tq_heap q \<and> tq_timerfd q = tq_timerfd (el_timerQueue w)
    \<and> a = env_alloc env (tq_heap (el_timerQueue w))"
proof -
  let ?q = "el_timerQueue w"
  let ?a = "env_alloc env (tq_heap ?q)"
  obtain t c where t: "Timer_new u time d (tq_counter ?q) = (t, c)" "tr_callback t = u" "tr_expiration t = time"
      "tr_interval t = d" "tr_repeat t \<longleftrightarrow> 0 < d"
    by (auto simp: Timer_new_def Let_def incrementAndGet_def addAndGet_def getAndAdd_def)
  let ?q1 = "?q\<lparr>tq_heap := (tq_heap ?q)(?a \<mapsto> t), tq_counter := c\<rparr>"
  have free: "tq_heap ?q ?a = None"
    using assms(2,3) by (simp add: fresh_alloc_def tq_inv_def)
  then have inv: "tq_inv [] ?q1" and a: "?a \<notin> snd ` set (tq_timers ?q1)" "?a \<notin> set []"
    using assms(2) by (auto simp: tq_inv_def)
  obtain q where q: "addTimerInLoop (el_clock w) ?a ?q1 = Inr q" "tq_inv [] q" "tq_heap q = tq_heap ?q1"
      "tq_timers q = insort (microSecondsSinceEpoch (tr_expiration t), ?a) (tq_timers ?q1)"
    using addTimerInLoop_ok [OF inv _ a, of t "el_clock w"] by auto
  have "loop_addTimer env user tid u time d w = Inr (w\<lparr>el_timerQueue := q\<rparr>, TimerId_of ?a (tr_sequence t))"
    using assms(1) t(1) q(1)
    by (simp add: loop_addTimer_def Let_def runInLoop_def isInLoopThread_def on_timers_def)
  then show ?thesis
    using q t by (intro exI [of _ q] exI [of _ "TimerId_of ?a (tr_sequence t)"] exI [of _ t] exI [of _ ?a])
      (use free addTimerInLoop_fd [OF q(1)] in \<open>auto simp: map_le_def\<close>)
qed

section \<open>The timer channel in the loop\<close>

text \<open>User code that keeps the callbacks of channel \<open>p\<close>, and the loop's own callbacks with it.\<close>

definition user_leaves_channel :: "('u, 'm) user_code \<Rightarrow> chan_addr \<Rightarrow> bool" where
  "user_leaves_channel user p \<longleftrightarrow>
     (\<forall>u t w w' c. user u t w = Inr w' \<longrightarrow> chans w p = Some c \<longrightarrow>
        (\<exists>d. chans w' p = Some d \<and> same_dispatch c d))"

lemma same_dispatch_refl: "same_dispatch c c"
  by (simp add: same_dispatch_def)

lemma same_dispatch_trans: "same_dispatch b c \<Longrightarrow> same_dispatch c d \<Longrightarrow> same_dispatch b d"
  by (simp add: same_dispatch_def)

lemma run_timers_leaves:
  assumes "user_leaves_channel user p" "run_timers user es w = Inr w'" "chans w p = Some c"
  shows "\<exists>d. chans w' p = Some d \<and> same_dispatch c d"
  using assms(2,3)
proof (induction es arbitrary: w c)
  case Nil
  then show ?case by (simp add: same_dispatch_refl)
next
  case (Cons e es)
  then obtain u v where v: "user u None w = Inr v" "run_timers user es v = Inr w'"
    by (auto simp: outcome_simps)
  obtain b where b: "chans v p = Some b" "same_dispatch c b"
    using assms(1) v(1) Cons.prems(2) unfolding user_leaves_channel_def by blast
  from Cons.IH [OF v(2) b(1)] show ?case
    using b(2) same_dispatch_trans by blast
qed

lemma loop_leaves_channel:
  assumes "user_leaves_channel user p"
  shows "leaves_channel (call_cb env user) p"
  unfolding leaves_channel_def
proof (intro allI impI)
  fix f t w w' c
  assume run: "call_cb env user f t w = Inr w'" and c: "chans w p = Some c"
  show "\<exists>d. chans w' p = Some d \<and> same_dispatch c d"
  proof (cases f)
    case Timer_handleRead
    then obtain q es v where "run_timers user es
          (w\<lparr>el_timerQueue := q\<lparr>tq_callingExpired := True, tq_cancelingTimers := {}\<rparr>\<rparr>) = Inr v" "chans w' = chans v"
      using run by (auto simp: loop_timerRead_def on_timers_def outcome_simps Let_def)
    then show ?thesis using run_timers_leaves [OF assms, of es _ v c] c by auto
  next
    case (User u)
    then show ?thesis using run c assms by (auto simp: user_leaves_channel_def)
  qed (use run c in \<open>auto simp: EventLoop_handleRead_def on_timers_def outcome_simps same_dispatch_refl\<close>)
qed

text \<open>A loop with the default poller whose timer channel \<open>p\<close> is registered.\<close>

definition timer_channel :: "int \<Rightarrow> 'u loop_cb Channel \<Rightarrow> bool" where
  "timer_channel fd c \<longleftrightarrow> ch_fd c = fd \<and> \<not> ch_tied c \<and> ch_readCallback c = Some Timer_handleRead
     \<and> ch_writeCallback c = None \<and> ch_closeCallback c = None \<and> ch_errorCallback c = None"

definition timer_ready :: "chan_addr \<Rightarrow> ('u, 'm) EventLoop_scheme \<Rightarrow> bool" where
  "timer_ready p w \<longleftrightarrow>
     tq_inv [] (el_timerQueue w)
     \<and> (\<exists>c. chans w p = Some c \<and> timer_channel (tq_timerfd (el_timerQueue w)) c)
     \<and> (case el_poller w of
          EPoll ep \<Rightarrow> 0 < ep_eventsSize ep \<and> ep_channels ep (tq_timerfd (el_timerQueue w)) \<noteq> None
        | Poll pp \<Rightarrow> False)"

lemma new_loop_timer_ready:
  assumes "EventLoop_new env getenv ep tfd efd counter this tid p wchan clock h t_loop = Inr (w, l)"
    and "getenv ''DBDKY_USE_POLL'' = None" "p \<noteq> wchan"
  shows "timer_ready p w" "isInLoopThread tid w" "el_clock w = clock" "tq_timers (el_timerQueue w) = []"
    and "el_pendingFunctors w = []" "\<not> el_quit w" "tq_heap (el_timerQueue w) = (\<lambda>a. None)"
  using assms
  by (auto simp: EventLoop_new_def newDefaultPoller_def EPollPoller_new_def TimerQueue_new_def createTimerfd_def
      createEventfd_def enableReading_def set_events_def with_chan_def put_chan_def EventLoop_updateChannel_def
      Poller_updateChannel_def ep_update_def ep_ctl_def Let_def outcome_simps Channel_new_def kNew_def kAdded_def
      kInitEventListSize_def timer_ready_def timer_channel_def tq_inv_def isInLoopThread_def
      split: if_splits)

text \<open>A loop that is made and destroyed has closed what it opened and deleted its channels.\<close>

lemma new_loop_destroyed:
  assumes "EventLoop_new env getenv ep tfd efd counter this tid p wchan clock h t_loop = Inr (w, l)"
    and "getenv ''DBDKY_USE_POLL'' = None" "p \<noteq> wchan" "chans h p = None" "chans h wchan = None"
    and "fds \<inter> {ep, tfd, efd} = {}"
  shows "\<exists>w'. EventLoop_destroy p w (fds \<union> {ep, tfd, efd}) = Inr (w', fds, None) \<and> chans w' = chans h"
  using assms
  by (auto simp: EventLoop_new_def newDefaultPoller_def EPollPoller_new_def TimerQueue_new_def createTimerfd_def
      createEventfd_def enableReading_def set_events_def with_chan_def put_chan_def EventLoop_updateChannel_def
      Poller_updateChannel_def ep_update_def ep_ctl_def Let_def outcome_simps Channel_new_def kNew_def kAdded_def
      EventLoop_destroy_def Channel_destroy_def Poller_destroy_def fun_eq_iff split: if_splits)


lemma handle_timer:
  assumes "user_keeps_timers user" "user_leaves_channel user p"
    and c: "chans w p = Some c" "timer_channel fd c" "has (ch_revents c) POLLIN"
    and q: "tq_inv [] (el_timerQueue w)" "\<not> address_tie (el_clock w) (el_timerQueue w)"
  defines "due \<equiv> due_timers (el_clock w) (el_timerQueue w)"
    and "w' \<equiv> (put_chan p (c\<lparr>ch_eventHandling := True\<rparr>) (w\<lparr>el_currentActiveChannel := Some p\<rparr>))
                \<lparr>el_timerQueue := taken_out (el_clock w) (el_timerQueue w)\<rparr>"
  shows "loop_step env user rep (At_Handle [p], w)
    = seq (run_calls user (timer_calls (el_timerQueue w) due) w') (\<lambda>w.
      seq (timers_finish env due (el_clock w') w) (\<lambda>w.
      seq (set_handling False p w) (\<lambda>w. Inr ((At_Handle [], w), []))))"
    and "run_calls user (timer_calls (el_timerQueue w) due) w' = Inr v \<Longrightarrow>
      \<exists>v'. loop_step env user rep (At_Handle [p], w) = Inr ((At_Handle [], v'), []) \<and> tq_inv [] (el_timerQueue v')"
proof -
  let ?w = "put_chan p (c\<lparr>ch_eventHandling := True\<rparr>) (w\<lparr>el_currentActiveChannel := Some p\<rparr>)"
  have same: "el_timerQueue ?w = el_timerQueue w" "el_clock ?w = el_clock w" by (simp_all add: put_chan_def)
  note read = loop_timerRead_calls [OF assms(1), of ?w, unfolded same, OF q, folded due_def, folded w'_def]
  have leaves: "leaves_channel (call_cb env user) p" by (rule loop_leaves_channel [OF assms(2)])
  have "dispatch (el_pollReturnTime w) c = [(Timer_handleRead, Some (el_pollReturnTime w))]"
    using c(2,3) by (simp add: dispatch_def timer_channel_def has_or Let_def)
  then have ev: "handleEvent (call_cb env user) (el_pollReturnTime w) p (w\<lparr>el_currentActiveChannel := Some p\<rparr>)
      = seq (loop_timerRead env user ?w) (set_handling False p)"
    using handleEvent_dispatch [OF leaves, of "w\<lparr>el_currentActiveChannel := Some p\<rparr>" c "el_pollReturnTime w"] c(1,2)
    by (cases "loop_timerRead env user ?w") (simp_all add: timer_channel_def)
  have clock: "el_clock w' = el_clock w" by (simp add: w'_def same)
  show step: "loop_step env user rep (At_Handle [p], w)
    = seq (run_calls user (timer_calls (el_timerQueue w) due) w') (\<lambda>w.
      seq (timers_finish env due (el_clock w') w) (\<lambda>w.
      seq (set_handling False p w) (\<lambda>w. Inr ((At_Handle [], w), []))))"
    by (simp add: ev read(1) seq_assoc clock)
  assume run: "run_calls user (timer_calls (el_timerQueue w) due) w' = Inr v"
  obtain r where r: "timers_finish env due (el_clock w) v = Inr (v\<lparr>el_timerQueue := r\<rparr>)" "tq_inv [] r"
    using read(2) [OF run] by blast
  then have timers: "loop_timerRead env user ?w = Inr (v\<lparr>el_timerQueue := r\<rparr>)"
    using read(1) [of env] run by simp
  have "chans ?w p = Some (c\<lparr>ch_eventHandling := True\<rparr>)" by (simp add: put_chan_def)
  with timers obtain d where "chans (v\<lparr>el_timerQueue := r\<rparr>) p = Some d"
    using leaves [unfolded leaves_channel_def, rule_format, of Timer_handleRead None ?w "v\<lparr>el_timerQueue := r\<rparr>"
        "c\<lparr>ch_eventHandling := True\<rparr>"] by auto
  then show "\<exists>v'. loop_step env user rep (At_Handle [p], w) = Inr ((At_Handle [], v'), []) \<and> tq_inv [] (el_timerQueue v')"
    using r(2) timers by (simp add: ev set_handling_def with_chan_def put_chan_def)
qed


text \<open>
  The theorem at work on a loop as the constructor leaves it, with a timer set for one second and a
  poll that reports the timer descriptor, whose callbacks read the clock at exactly that second.
\<close>

definition timer_env :: "nat loop_env" where
  "timer_env = \<lparr>env_rnd = id, env_alloc = bump_alloc, env_ctl = (\<lambda>op fd. True)\<rparr>"


lemma timer_loop_starts:
  "\<exists>w l. EventLoop_new timer_env (\<lambda>n. None) 3 4 5 Atomic_new 9 1 0 1 (Timestamp_of 0)
     \<lparr>chans = Map.empty, owners = {}\<rparr> None = Inr (w, l)"
  by (simp add: EventLoop_new_def newDefaultPoller_def EPollPoller_new_def TimerQueue_new_def createTimerfd_def
      createEventfd_def enableReading_def set_events_def with_chan_def put_chan_def EventLoop_updateChannel_def
      Poller_updateChannel_def ep_update_def ep_ctl_def Let_def Channel_new_def kNew_def kAdded_def timer_env_def)


section \<open>Timers that repeat\<close>

text \<open>User code that acts on what lies outside the loop.\<close>

definition outside :: "('u \<Rightarrow> 'm \<Rightarrow> 'm) \<Rightarrow> ('u, 'm) user_code" where
  "outside g u t w = Inr (w\<lparr>EventLoop.more := g u (EventLoop.more w)\<rparr>)"

lemma outside_leaves_loop: "user_keeps_timers (outside g)" "user_leaves_channel (outside g) p"
  by (auto simp: user_keeps_timers_def user_leaves_channel_def outside_def keeps_timers_refl same_dispatch_refl)

text \<open>
  A loop at the top of its iteration with one timer, at address \<open>a\<close>, that calls \<open>u\<close> every \<open>d\<close> seconds and is
  due at \<open>T\<close>.
\<close>

definition ticking :: "chan_addr \<Rightarrow> address \<Rightarrow> 'u \<Rightarrow> real \<Rightarrow> Timestamp \<Rightarrow> ('u, 'm) EventLoop_scheme \<Rightarrow> bool" where
  "ticking p a u d T w \<longleftrightarrow> timer_ready p w \<and> el_pendingFunctors w = [] \<and> \<not> el_quit w
     \<and> tq_timers (el_timerQueue w) = [(microSecondsSinceEpoch T, a)]
     \<and> (\<exists>t. tq_heap (el_timerQueue w) a = Some t \<and> tr_callback t = u \<and> tr_repeat t \<and> tr_interval t = d
          \<and> tr_expiration t = T)"

text \<open>Setting up the timer again, when its callback has not touched the queue.\<close>

lemma tick_reset:
  assumes "tq_timers q = [(microSecondsSinceEpoch T, a)]" "tq_heap q a = Some t" "tr_repeat t"
    and "microSecondsSinceEpoch T < microSecondsSinceEpoch now"
  shows "\<exists>r. tq_reset rnd [(microSecondsSinceEpoch T, a)] now ((taken_out now q)\<lparr>tq_callingExpired := False\<rparr>) = Inr r
    \<and> tq_timers r = [(microSecondsSinceEpoch (addTime rnd now (tr_interval t)), a)]
    \<and> tq_heap r a = Some (t\<lparr>tr_expiration := addTime rnd now (tr_interval t)\<rparr>) \<and> tq_timerfd r = tq_timerfd q"
  using assms
  by (simp add: tq_reset_def taken_out_def deref_def tq_insert_def Timer_restart_def resetTimerfd_def Let_def)

lemma tick_poll:
  assumes "timer_ready p w" "rep_epoll rep = Some [(e, p)]"
  shows "\<exists>c w'. loop_poll rep w = Inr (At_Handle [p], w')
    \<and> chans w' p = Some c \<and> ch_revents c = e \<and> timer_channel (tq_timerfd (el_timerQueue w)) c
    \<and> timer_ready p w' \<and> el_timerQueue w' = el_timerQueue w \<and> el_clock w' = rep_clock rep
    \<and> el_pendingFunctors w' = el_pendingFunctors w \<and> el_quit w' = el_quit w
    \<and> EventLoop.more w' = EventLoop.more w"
proof -
  obtain ep c where ep: "el_poller w = EPoll ep" "0 < ep_eventsSize ep" "ep_channels ep (tq_timerfd (el_timerQueue w)) \<noteq> None"
    and c: "chans w p = Some c" "timer_channel (tq_timerfd (el_timerQueue w)) c"
    using assms(1) by (auto simp: timer_ready_def split: Poller.splits)
  let ?c = "c\<lparr>ch_revents := e\<rparr>"
  let ?ep = "if 1 = ep_eventsSize ep then ep\<lparr>ep_eventsSize := ep_eventsSize ep * 2\<rparr> else ep"
  let ?w = "w\<lparr>chans := (chans w)(p \<mapsto> ?c), el_poller := EPoll ?ep, el_activeChannels := [p],
      el_pollReturnTime := rep_time rep, el_clock := rep_clock rep, el_iteration := el_iteration w + 1, el_eventHandling := True\<rparr>"
  have "loop_poll rep w = Inr (At_Handle [p], ?w)"
    using ep c assms(2)
    by (simp add: loop_poll_def Poller_poll_def ep_poll_def with_chan_def put_chan_def Let_def timer_channel_def)
  moreover have "timer_channel (tq_timerfd (el_timerQueue w)) ?c" using c(2) by (simp add: timer_channel_def)
  moreover from this have "timer_ready p ?w" using assms(1) ep by (simp add: timer_ready_def)
  ultimately show ?thesis by (intro exI [of _ ?c] exI [of _ ?w]) simp
qed

lemma tick_handle:
  assumes tick: "ticking p a u d T w" and c: "chans w p = Some c" "timer_channel (tq_timerfd (el_timerQueue w)) c"
      "has (ch_revents c) POLLIN"
    and late: "microSecondsSinceEpoch T < microSecondsSinceEpoch (el_clock w)"
  shows "\<exists>w'. loop_step env (outside g) rep (At_Handle [p], w) = Inr ((At_Handle [], w'), [])
    \<and> ticking p a u d (addTime (env_rnd env) (el_clock w) d) w' \<and> EventLoop.more w' = g u (EventLoop.more w)"
proof -
  let ?q = "el_timerQueue w" and ?now = "el_clock w" and ?due = "[(microSecondsSinceEpoch T, a)]"
  obtain t where t: "tq_heap ?q a = Some t" "tr_callback t = u" "tr_repeat t" "tr_interval t = d"
    and q: "tq_inv [] ?q" "tq_timers ?q = ?due"
    using tick by (auto simp: ticking_def timer_ready_def)
  have tie: "\<not> address_tie ?now ?q" using q(2) late by (simp add: address_tie_def)
  have due: "due_timers ?now ?q = ?due" "timer_calls ?q ?due = [(u, None)]"
    using q(2) late t(1,2) by (simp_all add: due_timers_def)
  define w1 where "w1 = (put_chan p (c\<lparr>ch_eventHandling := True\<rparr>) (w\<lparr>el_currentActiveChannel := Some p\<rparr>))
      \<lparr>el_timerQueue := taken_out ?now ?q\<rparr>"
  let ?w2 = "w1\<lparr>EventLoop.more := g u (EventLoop.more w1)\<rparr>"
  note handle = handle_timer [OF outside_leaves_loop [of g] c q(1) tie, unfolded due, folded w1_def]
  have calls: "run_calls (outside g) [(u, None)] w1 = Inr ?w2" by (simp add: outside_def)
  obtain r where r: "tq_reset (env_rnd env) ?due ?now ((taken_out ?now ?q)\<lparr>tq_callingExpired := False\<rparr>) = Inr r"
      "tq_timers r = [(microSecondsSinceEpoch (addTime (env_rnd env) ?now d), a)]"
      "tq_heap r a = Some (t\<lparr>tr_expiration := addTime (env_rnd env) ?now d\<rparr>)" "tq_timerfd r = tq_timerfd ?q"
    using tick_reset [OF q(2) t(1,3) late] t(4) by blast
  let ?w3 = "?w2\<lparr>el_timerQueue := r\<rparr>"
  let ?w4 = "put_chan p (c\<lparr>ch_eventHandling := False\<rparr>) ?w3"
  have w1: "el_clock w1 = ?now" "el_timerQueue w1 = taken_out ?now ?q" "el_poller w1 = el_poller w"
      "el_pendingFunctors w1 = el_pendingFunctors w" "el_quit w1 = el_quit w" "EventLoop.more w1 = EventLoop.more w"
      "chans w1 p = Some (c\<lparr>ch_eventHandling := True\<rparr>)"
    by (simp_all add: w1_def put_chan_def)
  have "timers_finish env ?due ?now ?w2 = Inr ?w3"
    using r(1) w1(2) by (simp add: timers_finish_def on_timers_def)
  then have step: "loop_step env (outside g) rep (At_Handle [p], w) = Inr ((At_Handle [], ?w4), [])"
    using handle(1) [where env = env and rep = rep] calls w1(1,7) by (simp add: set_handling_def with_chan_def)
  then have "tq_inv [] r" using handle(2) [OF calls, where env = env and rep = rep] by (auto simp: put_chan_def)
  then have "ticking p a u d (addTime (env_rnd env) ?now d) ?w4"
    using tick r(2-4) w1 t c(2)
    by (cases "el_poller w") (simp_all add: ticking_def timer_ready_def timer_channel_def put_chan_def)
  moreover have "EventLoop.more ?w4 = g u (EventLoop.more w)" using w1(6) by (simp add: put_chan_def)
  ultimately show ?thesis using step by blast
qed

lemma tick_round:
  assumes tick: "ticking p a u d T w" and rep: "rep_epoll rep = Some [(e, p)]" "has e POLLIN"
    and late: "microSecondsSinceEpoch T < microSecondsSinceEpoch (rep_clock rep)"
  shows "\<exists>w'. loop_run env (outside g) (replicate 6 (Loop_Thread rep)) (At_Test, w) = Inr ((At_Test, w'), [])
    \<and> ticking p a u d (addTime (env_rnd env) (rep_clock rep) d) w' \<and> EventLoop.more w' = g u (EventLoop.more w)"
proof -
  have ready: "timer_ready p w" "el_pendingFunctors w = []" "\<not> el_quit w" using tick by (simp_all add: ticking_def)
  obtain c w1 where w1: "loop_poll rep w = Inr (At_Handle [p], w1)" "chans w1 p = Some c" "ch_revents c = e"
      "timer_channel (tq_timerfd (el_timerQueue w)) c" "timer_ready p w1" "el_timerQueue w1 = el_timerQueue w"
      "el_clock w1 = rep_clock rep" "el_pendingFunctors w1 = []" "\<not> el_quit w1" "EventLoop.more w1 = EventLoop.more w"
    using tick_poll [OF ready(1) rep(1)] ready(2,3) by auto
  have "ticking p a u d T w1" using tick w1(5-9) by (simp add: ticking_def)
  from tick_handle [OF this w1(2), unfolded w1(3,6,7), OF w1(4) rep(2) late]
  obtain w2 where w2: "loop_step env (outside g) rep (At_Handle [p], w1) = Inr ((At_Handle [], w2), [])"
      "ticking p a u d (addTime (env_rnd env) (rep_clock rep) d) w2" "EventLoop.more w2 = g u (EventLoop.more w)"
    using w1(10) by auto
  have pend: "el_pendingFunctors w2 = []" using w2(2) by (simp add: ticking_def)
  let ?w = "w2\<lparr>el_currentActiveChannel := None, el_eventHandling := False, el_callingPendingFunctors := False,
      el_pendingFunctors := []\<rparr>"
  have "loop_run env (outside g) (replicate 6 (Loop_Thread rep)) (At_Test, w) = Inr ((At_Test, ?w), [])"
    using w1(1,8) w2(1) ready(2,3) pend
    by (simp add: eval_nat_numeral del: loop_step.simps(3))
  moreover have "ticking p a u d (addTime (env_rnd env) (rep_clock rep) d) ?w"
    using w2(2) by (cases "el_poller w2") (simp_all add: ticking_def timer_ready_def)
  ultimately show ?thesis using w2(3) by (intro exI [of _ ?w]) simp
qed

text \<open>Reports of the timer descriptor, each after the time for which the report before it set the timer.\<close>

fun late_reports :: "(real \<Rightarrow> real) \<Rightarrow> chan_addr \<Rightarrow> real \<Rightarrow> Timestamp \<Rightarrow> poll_report list \<Rightarrow> bool" where
  "late_reports rnd p d T [] = True"
| "late_reports rnd p d T (rep # reps) =
     ((\<exists>e. rep_epoll rep = Some [(e, p)] \<and> has e POLLIN)
      \<and> microSecondsSinceEpoch T < microSecondsSinceEpoch (rep_clock rep)
      \<and> late_reports rnd p d (addTime rnd (rep_clock rep) d) reps)"

text \<open>The time for which the timer is set after the reports: one interval after the last of them.\<close>

definition set_for :: "(real \<Rightarrow> real) \<Rightarrow> real \<Rightarrow> Timestamp \<Rightarrow> poll_report list \<Rightarrow> Timestamp" where
  "set_for rnd d T reps = (if reps = [] then T else addTime rnd (rep_clock (last reps)) d)"

lemma ticks:
  assumes "ticking p a u d T w" "late_reports (env_rnd env) p d T reps"
  shows "\<exists>w'. loop_run env (outside g) (concat (map (\<lambda>rep. replicate 6 (Loop_Thread rep)) reps)) (At_Test, w)
        = Inr ((At_Test, w'), [])
    \<and> ticking p a u d (set_for (env_rnd env) d T reps) w' \<and> EventLoop.more w' = (g u ^^ length reps) (EventLoop.more w)"
  using assms
proof (induction reps arbitrary: w T)
  case (Cons rep reps)
  then obtain e where e: "rep_epoll rep = Some [(e, p)]" "has e POLLIN"
      "microSecondsSinceEpoch T < microSecondsSinceEpoch (rep_clock rep)" by auto
  obtain w1 where w1: "loop_run env (outside g) (replicate 6 (Loop_Thread rep)) (At_Test, w) = Inr ((At_Test, w1), [])"
      "ticking p a u d (addTime (env_rnd env) (rep_clock rep) d) w1" "EventLoop.more w1 = g u (EventLoop.more w)"
    using tick_round [OF Cons.prems(1) e] by blast
  obtain w' where "loop_run env (outside g) (concat (map (\<lambda>rep. replicate 6 (Loop_Thread rep)) reps)) (At_Test, w1)
        = Inr ((At_Test, w'), [])"
      "ticking p a u d (set_for (env_rnd env) d (addTime (env_rnd env) (rep_clock rep) d) reps) w'" "EventLoop.more w' = (g u ^^ length reps) (EventLoop.more w1)"
    using Cons.IH [OF w1(2)] Cons.prems(2) by auto
  then show ?case
    using w1(1,3) by (intro exI [of _ w']) (simp add: loop_run_append funpow_swap1 set_for_def split: if_splits)
qed (auto simp: set_for_def)

text \<open>
  C13: A timer set with \<^verbatim>\<open>runEvery\<close> fires again and again.  On a loop with no other timer, in every iteration
  whose poll reports the timer descriptor after the time that the timer was last set for, the callback is
  called exactly once, and afterwards the timer is set for one interval after the time at which the last report
  was handled; no step faults, however many iterations there are.  The callback may do anything outside the
  loop but does not use the loop.
\<close>

theorem run_every_ticks:
  assumes "timer_ready p w" "isInLoopThread tid w" "fresh_alloc (env_alloc env)" "0 < d"
    and "tq_timers (el_timerQueue w) = []" "el_pendingFunctors w = []" "\<not> el_quit w"
    and "late_reports (env_rnd env) p d (addTime (env_rnd env) (el_clock w) d) reps"
  shows "\<exists>w1 i w2 a. runEvery env (outside g) tid d u w = Inr (w1, i)
    \<and> loop_run env (outside g) (concat (map (\<lambda>rep. replicate 6 (Loop_Thread rep)) reps)) (At_Test, w1)
        = Inr ((At_Test, w2), [])
    \<and> EventLoop.more w2 = (g u ^^ length reps) (EventLoop.more w)
    \<and> ticking p a u d (set_for (env_rnd env) d (addTime (env_rnd env) (el_clock w) d) reps) w2"
proof -
  let ?T = "addTime (env_rnd env) (el_clock w) d"
  obtain q i t a where q: "loop_addTimer env (outside g) tid u ?T d w = Inr (w\<lparr>el_timerQueue := q\<rparr>, i)" "tq_inv [] q"
      "tq_heap q a = Some t" "tr_callback t = u" "tr_expiration t = ?T" "tr_interval t = d" "tr_repeat t"
      "tq_timers q = [(microSecondsSinceEpoch ?T, a)]" "tq_timerfd q = tq_timerfd (el_timerQueue w)"
    using addTimer_adds [OF assms(2) _ assms(3), of "outside g" u ?T d] assms(1,4,5) by (auto simp: timer_ready_def)
  have "ticking p a u d ?T (w\<lparr>el_timerQueue := q\<rparr>)"
    using q assms(1,6,7) by (cases "el_poller w") (simp_all add: ticking_def timer_ready_def)
  from ticks [OF this assms(8), of g] show ?thesis
    using q(1) by (auto simp: runEvery_def)
qed

text \<open>The theorem at work on a loop with a number beside it that counts the calls, and two reports.\<close>

definition counting :: "nat EventLoop \<Rightarrow> (nat, nat) EventLoop_scheme" where
  "counting w = EventLoop.extend w 0"

lemma counting_simps [simp]:
  "chans (counting w) = chans w" "el_poller (counting w) = el_poller w" "el_timerQueue (counting w) = el_timerQueue w"
  "el_pendingFunctors (counting w) = el_pendingFunctors w" "el_quit (counting w) = el_quit w"
  "el_threadId (counting w) = el_threadId w" "el_clock (counting w) = el_clock w" "EventLoop.more (counting w) = 0"
  by (simp_all add: counting_def EventLoop.defs)

theorem run_every_ticks_witness:
  "\<exists>w l reps w1 i w2. EventLoop_new timer_env (\<lambda>n. None) 3 4 5 Atomic_new 9 1 0 1 (Timestamp_of 0)
      \<lparr>chans = Map.empty, owners = {}\<rparr> None = Inr (w, l)
    \<and> map rep_clock reps = [Timestamp_of 1000001, Timestamp_of 2500000]
    \<and> runEvery timer_env (outside (\<lambda>u n. n + u)) 1 1 7 (counting w) = Inr (w1, i)
    \<and> loop_run timer_env (outside (\<lambda>u n. n + u)) (concat (map (\<lambda>rep. replicate 6 (Loop_Thread rep)) reps)) (At_Test, w1)
        = Inr ((At_Test, w2), [])
    \<and> EventLoop.more w2 = 14 \<and> map fst (tq_timers (el_timerQueue w2)) = [3500000]"
proof -
  obtain w l where new: "EventLoop_new timer_env (\<lambda>n. None) 3 4 5 Atomic_new 9 1 0 1 (Timestamp_of 0)
     \<lparr>chans = Map.empty, owners = {}\<rparr> None = Inr (w, l)"
    using timer_loop_starts by blast
  note loop = new_loop_timer_ready [OF new, simplified]
  let ?rep = "\<lambda>us. \<lparr>rep_poll = (0, \<lambda>n. 0), rep_epoll = Some [(POLLIN, 0)], rep_time = Timestamp_of us, rep_clock = Timestamp_of us\<rparr>"
  let ?reps = "[?rep 1000001, ?rep 2500000]"
  have late: "late_reports (env_rnd timer_env) 0 1 (addTime (env_rnd timer_env) (el_clock (counting w)) 1) ?reps"
    by (simp add: loop addTime_def timer_env_def trunc_to_zero_def kMicroSecondsPerSecond_def Timestamp_of_def has_def
        POLLIN_def Let_def)
  have ready: "timer_ready 0 (counting w)" "isInLoopThread 1 (counting w)" "fresh_alloc (env_alloc timer_env)"
      "tq_timers (el_timerQueue (counting w)) = []"
    using loop bump_alloc_fresh by (cases "el_poller w"; simp_all add: timer_ready_def isInLoopThread_def timer_env_def)+
  have idle: "el_pendingFunctors (counting w) = []" "\<not> el_quit (counting w)"
    using loop by simp_all
  have "microSecondsSinceEpoch (set_for (env_rnd timer_env) 1 T ?reps) = 3500000" for T
    by (simp add: set_for_def addTime_def timer_env_def trunc_to_zero_def kMicroSecondsPerSecond_def Timestamp_of_def Let_def)
  with run_every_ticks [OF ready(1-3) _ ready(4) idle late, of "\<lambda>u n. n + u" 7] show ?thesis
    using new by (auto simp: eval_nat_numeral ticking_def intro!: exI [of _ w] exI [of _ ?reps])
qed

end
