(* ===== verification/Monitors.thy ===== *)
theory Monitors
  imports Prelude
begin

text \<open>
  \<^verbatim>\<open>src/src/utils/Mutex.h\<close>, \<^verbatim>\<open>Condition.h\<close> and \<^verbatim>\<open>Condition.cpp\<close>, and threads that use them.  Every
  operation of the queues, the latch and the thread pool has one shape: lock the mutex, wait on a
  condition while a guard does not hold, change the state, notify, unlock.  The theory runs any
  number of threads through such operations, one step at a time, with the wake-ups that POSIX
  allows, and proves once what the users of the pattern need.
\<close>

section \<open>MutexLock\<close>

type_synonym tid = nat

text \<open>\<open>mx_owner\<close> is the state of the \<^verbatim>\<open>pthread_mutex_t\<close>, \<open>mx_holder\<close> the field \<^verbatim>\<open>holder_\<close>.\<close>

record MutexLock =
  mx_owner :: "tid option"
  mx_holder :: tid

definition MutexLock_new :: MutexLock where
  "MutexLock_new = \<lparr>mx_owner = None, mx_holder = 0\<rparr>"

definition MutexLock_destroy :: "MutexLock \<Rightarrow> unit outcome" where
  "MutexLock_destroy m = cassert (mx_holder m = 0) (cassert (mx_owner m = None) (Inr ()))"

definition isLockedByThisThread :: "tid \<Rightarrow> MutexLock \<Rightarrow> bool" where
  "isLockedByThisThread t m \<longleftrightarrow> mx_holder m = t"

definition assertLocked :: "tid \<Rightarrow> MutexLock \<Rightarrow> unit outcome" where
  "assertLocked t m = cassert (isLockedByThisThread t m) (Inr ())"

text \<open>\<open>None\<close>: the caller is blocked.\<close>

definition mx_lock :: "tid \<Rightarrow> MutexLock \<Rightarrow> MutexLock option" where
  "mx_lock t m = (if mx_owner m = None then Some (m\<lparr>mx_owner := Some t, mx_holder := t\<rparr>) else None)"

definition mx_unlock :: "MutexLock \<Rightarrow> MutexLock" where
  "mx_unlock m = m\<lparr>mx_holder := 0, mx_owner := None\<rparr>"

section \<open>Condition\<close>

text \<open>
  \<^verbatim>\<open>wait\<close> calls \<^verbatim>\<open>pthread_cond_wait\<close> on the bare \<^verbatim>\<open>pthread_mutex_t\<close>: it is released and taken again,
  and \<^verbatim>\<open>holder_\<close> stays what it is.
\<close>

definition cond_wait_begin :: "MutexLock \<Rightarrow> MutexLock" where
  "cond_wait_begin m = m\<lparr>mx_owner := None\<rparr>"

definition cond_wait_end :: "tid \<Rightarrow> MutexLock \<Rightarrow> MutexLock option" where
  "cond_wait_end t m = (if mx_owner m = None then Some (m\<lparr>mx_owner := Some t\<rparr>) else None)"

text \<open>\<^verbatim>\<open>waitForSeconds\<close>: the deadline, and the result when the wait ends at \<open>now\<close> without a signal.\<close>

definition wait_deadline :: "int \<times> int \<Rightarrow> int \<Rightarrow> int \<times> int" where
  "wait_deadline now seconds = (fst now + seconds, snd now)"

datatype 'c notice = No_Note | Notify 'c | Notify_All 'c

section \<open>Guarded operations\<close>

text \<open>
  The code of an operation: what it waits for and where, whether the test asserts that the mutex is
  locked by this thread, its body, and whom it notifies (given the states before and after).
\<close>

record ('o, 's, 'r, 'c) monitor_code =
  mc_guard :: "'o \<Rightarrow> 's \<Rightarrow> bool"
  mc_cond :: "'o \<Rightarrow> 'c"
  mc_asserts :: "'o \<Rightarrow> bool"
  mc_body :: "'o \<Rightarrow> 's \<Rightarrow> ('s \<times> 'r) outcome"
  mc_note :: "'o \<Rightarrow> 's \<Rightarrow> 's \<Rightarrow> 'c notice"

datatype 'o mon_pc = Idle | Entering 'o | Testing 'o | Waiting 'o | Signalled 'o

record ('o, 's) monitor =
  mon_state :: 's
  mon_mutex :: MutexLock
  mon_pc :: "tid \<Rightarrow> 'o mon_pc"
  mon_aborted :: bool

definition monitor_new :: "'s \<Rightarrow> ('o, 's) monitor" where
  "monitor_new st = \<lparr>mon_state = st, mon_mutex = MutexLock_new, mon_pc = (\<lambda>_. Idle), mon_aborted = False\<rparr>"

fun waits_on :: "('o, 's, 'r, 'c) monitor_code \<Rightarrow> 'c \<Rightarrow> 'o mon_pc \<Rightarrow> bool" where
  "waits_on mc c (Waiting op) = (mc_cond mc op = c)"
| "waits_on mc c _ = False"

definition waiters :: "('o, 's, 'r, 'c) monitor_code \<Rightarrow> tid list \<Rightarrow> 'c \<Rightarrow> (tid \<Rightarrow> 'o mon_pc) \<Rightarrow> tid list" where
  "waiters mc ts c pc = filter (\<lambda>t. waits_on mc c (pc t)) ts"

fun signalled :: "'o mon_pc \<Rightarrow> 'o mon_pc" where
  "signalled (Waiting op) = Signalled op"
| "signalled p = p"

text \<open>
  \<^verbatim>\<open>pthread_cond_signal\<close> wakes one of the threads that wait, if there are any; which one is the choice
  \<open>u\<close>.  \<^verbatim>\<open>pthread_cond_broadcast\<close> wakes all of them.
\<close>

fun deliver ::
  "('o, 's, 'r, 'c) monitor_code \<Rightarrow> tid list \<Rightarrow> tid \<Rightarrow> 'c notice \<Rightarrow> (tid \<Rightarrow> 'o mon_pc) \<Rightarrow> (tid \<Rightarrow> 'o mon_pc) option"
where
  "deliver mc ts u No_Note pc = Some pc"
| "deliver mc ts u (Notify c) pc =
     (if waiters mc ts c pc = [] then Some pc
      else if u \<in> set (waiters mc ts c pc) then Some (pc(u := signalled (pc u)))
      else None)"
| "deliver mc ts u (Notify_All c) pc =
     Some (\<lambda>t. if t \<in> set (waiters mc ts c pc) then signalled (pc t) else pc t)"

text \<open>
  A thread calls an operation, gets the mutex, tests the guard (and then waits, or does the rest of
  the operation, for which it holds the mutex), or gets the mutex again at the end of a wait.  A
  wait may end without a signal.
\<close>

datatype 'o mon_action = Call tid 'o | Lock tid | Test tid tid | Wake tid

definition mon_test ::
  "('o, 's, 'r, 'c) monitor_code \<Rightarrow> tid list \<Rightarrow> tid \<Rightarrow> tid \<Rightarrow> 'o \<Rightarrow> ('o, 's) monitor
   \<Rightarrow> (('o, 's) monitor \<times> (tid \<times> 'o \<times> 'r) list) option" where
  "mon_test mc ts t u op s =
     (if mc_asserts mc op \<and> \<not> isLockedByThisThread t (mon_mutex s) then Some (s\<lparr>mon_aborted := True\<rparr>, [])
      else if \<not> mc_guard mc op (mon_state s) then
        Some (s\<lparr>mon_mutex := cond_wait_begin (mon_mutex s), mon_pc := (mon_pc s)(t := Waiting op)\<rparr>, [])
      else
        (case mc_body mc op (mon_state s) of
           Inl _ \<Rightarrow> Some (s\<lparr>mon_aborted := True\<rparr>, [])
         | Inr (st, r) \<Rightarrow>
             map_option (\<lambda>pc.
               (s\<lparr>mon_state := st, mon_mutex := mx_unlock (mon_mutex s), mon_pc := pc\<rparr>, [(t, op, r)]))
               (deliver mc ts u (mc_note mc op (mon_state s) st) ((mon_pc s)(t := Idle)))))"

fun mon_act ::
  "('o, 's, 'r, 'c) monitor_code \<Rightarrow> tid list \<Rightarrow> 'o mon_action \<Rightarrow> ('o, 's) monitor
   \<Rightarrow> (('o, 's) monitor \<times> (tid \<times> 'o \<times> 'r) list) option"
where
  "mon_act mc ts (Call t op) s =
     (if t \<in> set ts \<and> mon_pc s t = Idle
      then Some (s\<lparr>mon_pc := (mon_pc s)(t := Entering op)\<rparr>, []) else None)"
| "mon_act mc ts (Lock t) s =
     (case mon_pc s t of
        Entering op \<Rightarrow>
          map_option (\<lambda>m. (s\<lparr>mon_mutex := m, mon_pc := (mon_pc s)(t := Testing op)\<rparr>, []))
            (mx_lock t (mon_mutex s))
      | _ \<Rightarrow> None)"
| "mon_act mc ts (Test t u) s =
     (case mon_pc s t of Testing op \<Rightarrow> mon_test mc ts t u op s | _ \<Rightarrow> None)"
| "mon_act mc ts (Wake t) s =
     (case signalled (mon_pc s t) of
        Signalled op \<Rightarrow>
          map_option (\<lambda>m. (s\<lparr>mon_mutex := m, mon_pc := (mon_pc s)(t := Testing op)\<rparr>, []))
            (cond_wait_end t (mon_mutex s))
      | _ \<Rightarrow> None)"

text \<open>A run until the process aborts; the operations that completed, with their results.\<close>

fun mon_run ::
  "('o, 's, 'r, 'c) monitor_code \<Rightarrow> tid list \<Rightarrow> 'o mon_action list \<Rightarrow> ('o, 's) monitor
   \<Rightarrow> (('o, 's) monitor \<times> (tid \<times> 'o \<times> 'r) list) option"
where
  "mon_run mc ts [] s = Some (s, [])"
| "mon_run mc ts (a # as) s =
     (if mon_aborted s then None
      else case mon_act mc ts a s of
             None \<Rightarrow> None
           | Some (s, l) \<Rightarrow> map_option (\<lambda>(s, ls). (s, l @ ls)) (mon_run mc ts as s))"

section \<open>Runs are linear\<close>

text \<open>The operations one after the other on the bare state.\<close>

fun seq_run ::
  "('o, 's, 'r, 'c) monitor_code \<Rightarrow> ('o \<times> 'r) list \<Rightarrow> 's \<Rightarrow> 's option"
where
  "seq_run mc [] st = Some st"
| "seq_run mc ((op, r) # ops) st =
     (if mc_guard mc op st \<and> (\<exists>st'. mc_body mc op st = Inr (st', r))
      then (case mc_body mc op st of Inr (st', _) \<Rightarrow> seq_run mc ops st' | Inl _ \<Rightarrow> None)
      else None)"

lemma seq_run_Cons:
  "seq_run mc ((op, r) # ops) st = Some st'' \<longleftrightarrow>
     (\<exists>st'. mc_guard mc op st \<and> mc_body mc op st = Inr (st', r) \<and> seq_run mc ops st' = Some st'')"
  by (auto split: sum.splits)

lemma mon_act_elim:
  assumes "mon_act mc ts a s = Some (s', l)"
  obtains (call) t op where "t \<in> set ts" "mon_pc s t = Idle" "l = []"
      "s' = s\<lparr>mon_pc := (mon_pc s)(t := Entering op)\<rparr>"
  | (lock) t op where "mon_pc s t = Entering op" "mx_owner (mon_mutex s) = None" "l = []"
      "s' = s\<lparr>mon_mutex := (mon_mutex s)\<lparr>mx_owner := Some t, mx_holder := t\<rparr>,
             mon_pc := (mon_pc s)(t := Testing op)\<rparr>"
  | (abort) t op where "mon_pc s t = Testing op" "l = []" "s' = s\<lparr>mon_aborted := True\<rparr>"
      "mc_asserts mc op \<and> mx_holder (mon_mutex s) \<noteq> t
       \<or> mc_guard mc op (mon_state s) \<and> (\<exists>e. mc_body mc op (mon_state s) = Inl e)"
  | (wait) t op where "mon_pc s t = Testing op" "\<not> mc_guard mc op (mon_state s)" "l = []"
      "s' = s\<lparr>mon_mutex := (mon_mutex s)\<lparr>mx_owner := None\<rparr>, mon_pc := (mon_pc s)(t := Waiting op)\<rparr>"
  | (wake) t op where "mon_pc s t = Waiting op \<or> mon_pc s t = Signalled op"
      "mx_owner (mon_mutex s) = None" "l = []"
      "s' = s\<lparr>mon_mutex := (mon_mutex s)\<lparr>mx_owner := Some t\<rparr>, mon_pc := (mon_pc s)(t := Testing op)\<rparr>"
  | (performed) t u op st r pc' where "mon_pc s t = Testing op" "l = [(t, op, r)]"
      "mc_guard mc op (mon_state s)" "mc_body mc op (mon_state s) = Inr (st, r)"
      "deliver mc ts u (mc_note mc op (mon_state s) st) ((mon_pc s)(t := Idle)) = Some pc'"
      "s' = s\<lparr>mon_state := st, mon_mutex := mx_unlock (mon_mutex s), mon_pc := pc'\<rparr>"
proof (cases a)
  case (Call t op)
  then show thesis using assms call by (auto split: if_splits)
next
  case (Lock t)
  then show thesis
    using assms lock by (auto simp: mx_lock_def split: mon_pc.splits if_splits)
next
  case (Test t u)
  then obtain op where op: "mon_pc s t = Testing op" "mon_test mc ts t u op s = Some (s', l)"
    using assms by (auto split: mon_pc.splits)
  consider "mc_asserts mc op \<and> mx_holder (mon_mutex s) \<noteq> t"
    | "\<not> (mc_asserts mc op \<and> mx_holder (mon_mutex s) \<noteq> t)" "\<not> mc_guard mc op (mon_state s)"
    | "\<not> (mc_asserts mc op \<and> mx_holder (mon_mutex s) \<noteq> t)" "mc_guard mc op (mon_state s)" by blast
  then show thesis
  proof cases
    case 1
    then show thesis using op abort [OF op(1)] by (auto simp: mon_test_def isLockedByThisThread_def)
  next
    case 2
    then show thesis
      using op wait [OF op(1)]
      by (auto simp: mon_test_def isLockedByThisThread_def cond_wait_begin_def split: if_splits)
  next
    case 3
    show thesis
    proof (cases "mc_body mc op (mon_state s)")
      case (Inl e)
      then show thesis
        using op 3 abort [OF op(1)] by (auto simp: mon_test_def isLockedByThisThread_def split: if_splits)
    next
      case (Inr sr)
      then show thesis
        using op 3 performed [OF op(1) _ 3(2)]
        by (cases sr) (auto simp: mon_test_def isLockedByThisThread_def split: if_splits)
    qed
  qed
next
  case (Wake t)
  then show thesis
    using assms wake [of t]
    by (cases "mon_pc s t") (auto simp: cond_wait_end_def split: if_splits)
qed

lemma mon_run_Cons:
  "mon_run mc ts (a # as) s = Some (s'', ls) \<longleftrightarrow>
     (\<not> mon_aborted s \<and> (\<exists>s' l ls'. mon_act mc ts a s = Some (s', l) \<and> mon_run mc ts as s' = Some (s'', ls')
        \<and> ls = l @ ls'))"
  by (auto split: option.splits)

text \<open>An invariant of the steps is an invariant of the runs.\<close>

lemma mon_run_invariant:
  assumes step: "\<And>a s s' l. I s \<Longrightarrow> \<not> mon_aborted s \<Longrightarrow> mon_act mc ts a s = Some (s', l) \<Longrightarrow> I s'"
  shows "mon_run mc ts as s = Some (s', ls) \<Longrightarrow> I s \<Longrightarrow> I s'"
proof (induction as arbitrary: s ls)
  case (Cons a as)
  then show ?case using step unfolding mon_run_Cons by blast
qed simp

lemma mon_run_linear:
  "mon_run mc ts as s = Some (s', ls) \<Longrightarrow> seq_run mc (map snd ls) (mon_state s) = Some (mon_state s')"
proof (induction as arbitrary: s ls)
  case (Cons a as)
  obtain s1 l ls' where s1: "mon_act mc ts a s = Some (s1, l)" "mon_run mc ts as s1 = Some (s', ls')"
      "ls = l @ ls'"
    using Cons.prems unfolding mon_run_Cons by blast
  note rest = Cons.IH [OF s1(2)]
  show ?case
    using s1(1)
  proof (cases rule: mon_act_elim)
    case (performed t u op st r pc')
    then show ?thesis using rest s1(3) by (simp add: seq_run_Cons del: seq_run.simps(2))
  qed (use rest s1(3) in simp_all)
qed simp

section \<open>Mutual exclusion\<close>

text \<open>The mutex is owned exactly by the thread that is inside an operation.\<close>

definition mutex_inv :: "('o, 's) monitor \<Rightarrow> bool" where
  "mutex_inv s \<longleftrightarrow> (\<forall>t. (\<exists>op. mon_pc s t = Testing op) \<longleftrightarrow> mx_owner (mon_mutex s) = Some t)"

lemma deliver_pc:
  assumes "deliver mc ts u n pc = Some pc'"
  shows "pc' t = pc t \<or> (\<exists>op. pc t = Waiting op \<and> pc' t = Signalled op)"
  using assms
  by (cases n; cases "pc t") (auto simp: waiters_def split: if_splits elim: waits_on.elims)

lemma deliver_Testing:
  "deliver mc ts u n pc = Some pc' \<Longrightarrow> pc' t = Testing op \<longleftrightarrow> pc t = Testing op"
  using deliver_pc [of mc ts u n pc pc' t] by auto

text \<open>Only the known threads take part.\<close>

definition threads_inv :: "tid list \<Rightarrow> ('o, 's) monitor \<Rightarrow> bool" where
  "threads_inv ts s \<longleftrightarrow> (\<forall>t. mon_pc s t \<noteq> Idle \<longrightarrow> t \<in> set ts)"

lemma threads_inv_step:
  assumes "threads_inv ts s" "mon_act mc ts a s = Some (s', l)"
  shows "threads_inv ts s'"
  using assms(2)
proof (cases rule: mon_act_elim)
  case (performed t u op st r pc')
  have "pc' v \<noteq> Idle \<Longrightarrow> mon_pc s v \<noteq> Idle" for v
    using deliver_pc [OF performed(5), of v] by (auto split: if_splits)
  then show ?thesis using assms(1) performed by (auto simp: threads_inv_def)
qed (use assms(1) in \<open>auto simp: threads_inv_def split: if_splits\<close>)

lemma mutex_inv_step:
  assumes "mutex_inv s" "mon_act mc ts a s = Some (s', l)"
  shows "mutex_inv s'"
  using assms(2)
proof (cases rule: mon_act_elim)
  case (performed t u op st r pc')
  have owner: "mx_owner (mon_mutex s) = Some t"
    using assms(1) performed(1) by (auto simp: mutex_inv_def)
  have "pc' v \<noteq> Testing p" for v p
    using deliver_Testing [OF performed(5), of v p] assms(1) owner by (auto simp: mutex_inv_def)
  then show ?thesis using performed by (auto simp: mutex_inv_def mx_unlock_def)
next
  case (wait t op)
  then have "mx_owner (mon_mutex s) = Some t" using assms(1) by (auto simp: mutex_inv_def)
  then show ?thesis using wait assms(1) by (auto simp: mutex_inv_def)
next
  case (call t op)
  then have "mx_owner (mon_mutex s) \<noteq> Some t"
    using assms(1) unfolding mutex_inv_def by (metis mon_pc.distinct(3))
  then show ?thesis using call assms(1) by (auto simp: mutex_inv_def)
qed (use assms(1) in \<open>auto simp: mutex_inv_def\<close>)

lemma mutex_inv_new: "mutex_inv (monitor_new st)" and threads_inv_new: "threads_inv ts (monitor_new st)"
  by (simp_all add: mutex_inv_def threads_inv_def monitor_new_def MutexLock_new_def)

lemmas mutex_inv_run = mon_run_invariant [of mutex_inv, OF mutex_inv_step]
lemmas threads_inv_run = mon_run_invariant [of "threads_inv ts" for ts, OF threads_inv_step]

text \<open>
  A thread that has been signalled is not what \<^verbatim>\<open>holder_\<close> says: the signalling operation has cleared the
  field, and waiting does not restore it.
\<close>

definition holder_inv :: "('o, 's) monitor \<Rightarrow> bool" where
  "holder_inv s \<longleftrightarrow> (\<forall>t op. mon_pc s t = Signalled op \<and> t \<noteq> 0 \<longrightarrow> mx_holder (mon_mutex s) \<noteq> t)"

lemma holder_inv_step:
  assumes "holder_inv s" "mon_act mc ts a s = Some (s', l)"
  shows "holder_inv s'"
  using assms(2)
  by (cases rule: mon_act_elim)
    (use assms(1) in \<open>auto simp: holder_inv_def mx_unlock_def split: if_splits\<close>)

lemma holder_inv_run:
  assumes "mon_run mc ts as (monitor_new st) = Some (s, ls)"
  shows "holder_inv s"
  by (rule mon_run_invariant [OF holder_inv_step assms]) (simp_all add: holder_inv_def monitor_new_def)

text \<open>So an operation that asserts the lock after a wait ends the process.\<close>

lemma signalled_assertion_aborts:
  assumes "mon_run mc ts as (monitor_new st) = Some (s, ls)" "\<not> mon_aborted s"
    and "mon_pc s t = Signalled op" "t \<noteq> 0" "mc_asserts mc op" "mx_owner (mon_mutex s) = None"
  shows "\<exists>s'. mon_run mc ts [Wake t, Test t u] s = Some (s', []) \<and> mon_aborted s'"
proof -
  have "mx_holder (mon_mutex s) \<noteq> t"
    using holder_inv_run [OF assms(1)] assms(3,4) unfolding holder_inv_def by blast
  then show ?thesis
    using assms(2-6) by (simp add: cond_wait_end_def mon_test_def isLockedByThisThread_def)
qed

text \<open>Code without faults never aborts.\<close>

definition fault_free :: "('o, 's, 'r, 'c) monitor_code \<Rightarrow> bool" where
  "fault_free mc \<longleftrightarrow> (\<forall>op. \<not> mc_asserts mc op)
     \<and> (\<forall>op st. mc_guard mc op st \<longrightarrow> returns (mc_body mc op st))"

lemma never_aborts:
  assumes "fault_free mc" "mon_run mc ts as (monitor_new st) = Some (s, ls)"
  shows "\<not> mon_aborted s"
proof (rule mon_run_invariant [OF _ assms(2)])
  fix a and r r' :: "('a, 'b) monitor" and l
  assume "\<not> mon_aborted r" "mon_act mc ts a r = Some (r', l)"
  from this(2) show "\<not> mon_aborted r'"
  proof (cases rule: mon_act_elim)
    case (abort t op)
    then show ?thesis using assms(1) unfolding fault_free_def by (metis returns_Inl)
  qed (use \<open>\<not> mon_aborted r\<close> in simp_all)
qed (simp add: monitor_new_def)

section \<open>Conditions that are broadcast\<close>

text \<open>
  When every operation that makes a guard true notifies all its waiters, nobody waits for a guard that
  holds.
\<close>

definition waits_in_vain :: "('o, 's, 'r, 'c) monitor_code \<Rightarrow> 'c \<Rightarrow> ('o, 's) monitor \<Rightarrow> bool" where
  "waits_in_vain mc c s \<longleftrightarrow>
     (\<exists>t op. mon_pc s t = Waiting op \<and> mc_cond mc op = c \<and> mc_guard mc op (mon_state s))"

lemma deliver_all:
  assumes "deliver mc ts u (Notify_All c) pc = Some pc'" "t \<in> set ts" "pc t = Waiting op" "mc_cond mc op = c"
  shows "pc' t = Signalled op"
  using assms by (auto simp: waiters_def)

locale broadcast_condition =
  fixes mc :: "('o, 's, 'r, 'c) monitor_code" and c :: 'c
  assumes opens: "mc_guard mc op st \<Longrightarrow> mc_body mc op st = Inr (st', r) \<Longrightarrow> mc_cond mc w = c \<Longrightarrow>
      \<not> mc_guard mc w st \<Longrightarrow> mc_guard mc w st' \<Longrightarrow> mc_note mc op st st' = Notify_All c"
begin

lemma not_in_vain_step:
  assumes "threads_inv ts s" "\<not> waits_in_vain mc c s" "mon_act mc ts a s = Some (s', l)"
  shows "\<not> waits_in_vain mc c s'"
  using assms(3)
proof (cases rule: mon_act_elim)
  case (performed t u op st r pc')
  have "\<not> mc_guard mc w st" if w: "pc' v = Waiting w" "mc_cond mc w = c" for v w
  proof
    assume g: "mc_guard mc w st"
    have v: "((mon_pc s)(t := Idle)) v = Waiting w"
      using deliver_pc [OF performed(5), of v] w(1) by auto
    then have old: "mon_pc s v = Waiting w" by (auto split: if_splits)
    then have "\<not> mc_guard mc w (mon_state s)"
      using assms(2) w(2) unfolding waits_in_vain_def by blast
    then have "mc_note mc op (mon_state s) st = Notify_All c"
      using opens [OF performed(3,4) w(2) _ g] by simp
    moreover have "v \<in> set ts" using assms(1) old by (auto simp: threads_inv_def)
    ultimately have "pc' v = Signalled w"
      using deliver_all [of mc ts u c "(mon_pc s)(t := Idle)" pc' v w] v w(2) performed(5)
      by (simp del: deliver.simps)
    then show False using w(1) by simp
  qed
  then show ?thesis using performed(6) by (auto simp: waits_in_vain_def)
qed (use assms(2) in \<open>auto simp: waits_in_vain_def split: if_splits\<close>)

lemma not_in_vain_run:
  assumes "mon_run mc ts as (monitor_new st) = Some (s, ls)"
  shows "\<not> waits_in_vain mc c s"
proof -
  have "threads_inv ts s \<and> \<not> waits_in_vain mc c s"
  proof (rule mon_run_invariant [OF _ assms])
    show "threads_inv ts (monitor_new st) \<and> \<not> waits_in_vain mc c (monitor_new st)"
      by (simp add: threads_inv_new) (simp add: waits_in_vain_def monitor_new_def)
  qed (use threads_inv_step not_in_vain_step in blast)
  then show ?thesis by simp
qed

end

section \<open>Conditions that are signalled one at a time\<close>

text \<open>
  When a guard says that something is available, its operations use one unit, and every other
  operation that adds a unit wakes one waiter, then there are always enough threads on their way to
  use what is available while others wait.
\<close>

fun on_its_way :: "('o, 's, 'r, 'c) monitor_code \<Rightarrow> 'c \<Rightarrow> 'o mon_pc \<Rightarrow> bool" where
  "on_its_way mc c (Entering op) = (mc_cond mc op = c)"
| "on_its_way mc c (Testing op) = (mc_cond mc op = c)"
| "on_its_way mc c (Signalled op) = (mc_cond mc op = c)"
| "on_its_way mc c _ = False"

definition coming :: "('o, 's, 'r, 'c) monitor_code \<Rightarrow> tid list \<Rightarrow> 'c \<Rightarrow> (tid \<Rightarrow> 'o mon_pc) \<Rightarrow> nat" where
  "coming mc ts c pc = card {t \<in> set ts. on_its_way mc c (pc t)}"

lemma coming_mono:
  "(\<And>t. t \<in> set ts \<Longrightarrow> on_its_way mc c (pc t) \<Longrightarrow> on_its_way mc c (pc' t)) \<Longrightarrow>
    coming mc ts c pc \<le> coming mc ts c pc'"
  unfolding coming_def by (rule card_mono) auto

lemma coming_more:
  assumes "u \<in> set ts" "\<not> on_its_way mc c (pc u)" "on_its_way mc c p"
  shows "coming mc ts c (pc(u := p)) = Suc (coming mc ts c pc)"
proof -
  have "{t \<in> set ts. on_its_way mc c ((pc(u := p)) t)} = insert u {t \<in> set ts. on_its_way mc c (pc t)}"
    using assms by auto
  then show ?thesis using assms(2) unfolding coming_def by simp
qed

lemma coming_idle: "coming mc ts c pc \<le> Suc (coming mc ts c (pc(t := Idle)))"
proof -
  have "{v \<in> set ts. on_its_way mc c (pc v)} \<subseteq> insert t {v \<in> set ts. on_its_way mc c ((pc(t := Idle)) v)}"
    by auto
  then have "coming mc ts c pc \<le> card (insert t {v \<in> set ts. on_its_way mc c ((pc(t := Idle)) v)})"
    unfolding coming_def by (rule card_mono [rotated]) simp
  then show ?thesis
    unfolding coming_def by (simp add: card_insert_if split: if_splits)
qed

lemma coming_other:
  "\<not> on_its_way mc c (pc t) \<Longrightarrow> \<not> on_its_way mc c p \<Longrightarrow> coming mc ts c (pc(t := p)) = coming mc ts c pc"
  unfolding coming_def by (rule arg_cong [where f = card]) auto

lemma deliver_coming:
  assumes "deliver mc ts u n pc = Some pc'"
  shows "coming mc ts c pc \<le> coming mc ts c pc'"
    and "n = Notify c \<Longrightarrow> waiters mc ts c pc' \<noteq> [] \<Longrightarrow> Suc (coming mc ts c pc) \<le> coming mc ts c pc'"
    and "waiters mc ts c pc' \<noteq> [] \<Longrightarrow> waiters mc ts c pc \<noteq> []"
    and "n = Notify_All c \<Longrightarrow> waiters mc ts c pc' = []"
proof -
  show "coming mc ts c pc \<le> coming mc ts c pc'"
  proof (rule coming_mono)
    show "on_its_way mc c (pc' t)" if "on_its_way mc c (pc t)" for t
      using deliver_pc [OF assms, of t] that by auto
  qed
  show "waiters mc ts c pc \<noteq> []" if w: "waiters mc ts c pc' \<noteq> []"
  proof -
    obtain t where t: "t \<in> set ts" "waits_on mc c (pc' t)"
      using w by (auto simp: waiters_def filter_empty_conv)
    then have "waits_on mc c (pc t)" using deliver_pc [OF assms, of t] by auto
    then show ?thesis using t(1) by (auto simp: waiters_def filter_empty_conv)
  qed
  show "Suc (coming mc ts c pc) \<le> coming mc ts c pc'" if "n = Notify c" "waiters mc ts c pc' \<noteq> []"
  proof -
    have u: "u \<in> set ts" "waits_on mc c (pc u)" "pc' = pc(u := signalled (pc u))"
      using assms that by (auto simp: waiters_def split: if_splits)
    then obtain op where "pc u = Waiting op" "mc_cond mc op = c" by (auto elim: waits_on.elims)
    then show ?thesis using u(1,3) coming_more [of u ts mc c pc "Signalled op"] by simp
  qed
  show "waiters mc ts c pc' = []" if "n = Notify_All c"
  proof -
    have "\<not> waits_on mc c (pc' t)" if "t \<in> set ts" for t
      using assms \<open>n = Notify_All c\<close> that
      by (cases "pc t") (auto simp: waiters_def split: if_splits)
    then show ?thesis by (simp add: waiters_def filter_empty_conv)
  qed
qed

locale counted_condition =
  fixes mc :: "('o, 's, 'r, 'c) monitor_code" and c :: 'c and avail :: "'s \<Rightarrow> nat"
  assumes guard_avail: "mc_cond mc op = c \<Longrightarrow> \<not> mc_guard mc op st \<Longrightarrow> avail st = 0"
    and uses: "mc_guard mc op st \<Longrightarrow> mc_body mc op st = Inr (st', r) \<Longrightarrow> mc_cond mc op = c \<Longrightarrow> avail st' < avail st"
    and adds: "mc_guard mc op st \<Longrightarrow> mc_body mc op st = Inr (st', r) \<Longrightarrow> mc_cond mc op \<noteq> c \<Longrightarrow>
      avail st' \<le> avail st \<or> avail st' \<le> Suc (avail st) \<and> mc_note mc op st st' = Notify c
      \<or> mc_note mc op st st' = Notify_All c"
begin

definition enough_coming :: "tid list \<Rightarrow> ('o, 's) monitor \<Rightarrow> bool" where
  "enough_coming ts s \<longleftrightarrow>
     (waiters mc ts c (mon_pc s) \<noteq> [] \<longrightarrow> avail (mon_state s) \<le> coming mc ts c (mon_pc s))"

lemma waiters_upd: "\<not> waits_on mc c p \<Longrightarrow> waiters mc ts c (pc(t := p)) \<noteq> [] \<Longrightarrow> waiters mc ts c pc \<noteq> []"
  by (auto simp: waiters_def filter_empty_conv split: if_splits)

lemma enough_coming_step:
  assumes "enough_coming ts s" "mon_act mc ts a s = Some (s', l)"
  shows "enough_coming ts s'"
  using assms(2)
proof (cases rule: mon_act_elim)
  case (wait t op)
  show ?thesis
  proof (cases "mc_cond mc op = c")
    case True
    then show ?thesis using wait guard_avail [OF True wait(2)] by (simp add: enough_coming_def)
  next
    case False
    then show ?thesis
      using wait assms(1) waiters_upd [of "Waiting op" ts "mon_pc s" t] coming_other [of mc c "mon_pc s" t "Waiting op"]
      by (auto simp: enough_coming_def)
  qed
next
  case (performed t u op st r pc')
  let ?pc = "(mon_pc s)(t := Idle)"
  note d = deliver_coming [OF performed(5), where c = c]
  show ?thesis
    unfolding enough_coming_def
  proof
    assume w: "waiters mc ts c (mon_pc s') \<noteq> []"
    then have w': "waiters mc ts c pc' \<noteq> []" "waiters mc ts c (mon_pc s) \<noteq> []"
      using performed(6) d(3) waiters_upd [of Idle ts "mon_pc s" t] by auto
    then have old: "avail (mon_state s) \<le> coming mc ts c (mon_pc s)"
      using assms(1) by (simp add: enough_coming_def)
    have "avail st \<le> coming mc ts c pc'"
    proof (cases "mc_cond mc op = c")
      case True
      then show ?thesis
        using uses [OF performed(3,4)] old d(1) coming_idle [of mc ts c "mon_pc s" t] by simp
    next
      case False
      then have idle: "coming mc ts c ?pc = coming mc ts c (mon_pc s)"
        using performed(1) coming_other [of mc c "mon_pc s" t Idle] by simp
      show ?thesis
        using adds [OF performed(3,4) False] d(1) d(2) [OF _ w'(1)] d(4) w'(1) old idle by fastforce
    qed
    then show "avail (mon_state s') \<le> coming mc ts c (mon_pc s')"
      using performed(6) by simp
  qed
next
  case (wake t op)
  then have "coming mc ts c (mon_pc s) \<le> coming mc ts c ((mon_pc s)(t := Testing op))"
    by (intro coming_mono) auto
  then show ?thesis
    using wake assms(1) waiters_upd [of "Testing op" ts "mon_pc s" t] by (auto simp: enough_coming_def)
next
  case (lock t op)
  then have "coming mc ts c (mon_pc s) \<le> coming mc ts c ((mon_pc s)(t := Testing op))"
    by (intro coming_mono) auto
  then show ?thesis
    using lock assms(1) waiters_upd [of "Testing op" ts "mon_pc s" t] by (auto simp: enough_coming_def)
next
  case (call t op)
  then have "coming mc ts c (mon_pc s) \<le> coming mc ts c ((mon_pc s)(t := Entering op))"
    by (intro coming_mono) auto
  then show ?thesis
    using call assms(1) waiters_upd [of "Entering op" ts "mon_pc s" t] by (auto simp: enough_coming_def)
qed (use assms(1) in \<open>simp add: enough_coming_def\<close>)

lemma someone_comes:
  assumes "mon_run mc ts as (monitor_new st) = Some (s, ls)"
    and "t \<in> set ts" "waits_on mc c (mon_pc s t)" "0 < avail (mon_state s)"
  shows "\<exists>v \<in> set ts. on_its_way mc c (mon_pc s v)"
proof -
  have "enough_coming ts s"
    by (rule mon_run_invariant [OF enough_coming_step assms(1)])
      (simp_all add: enough_coming_def monitor_new_def waiters_def)
  moreover have "waiters mc ts c (mon_pc s) \<noteq> []"
    using assms(2,3) by (auto simp: waiters_def filter_empty_conv)
  ultimately have "0 < coming mc ts c (mon_pc s)"
    using assms(4) by (simp add: enough_coming_def)
  then show ?thesis by (auto simp: coming_def card_gt_0_iff)
qed

end

end
