(* ===== verification/Blocking_Queues.thy ===== *)
theory Blocking_Queues
  imports Monitors
begin

text \<open>
  \<^verbatim>\<open>src/src/utils/BlockingQueue.h\<close>, \<^verbatim>\<open>BoundedBlockingQueue.h\<close>, \<^verbatim>\<open>CountDownLatch.h\<close> and
  \<^verbatim>\<open>CountDownLatch.cpp\<close>: guarded operations of a monitor.  The theorems are about all runs of any
  number of threads.
\<close>

section \<open>BlockingQueue\<close>

datatype bq_cond = BQ_notEmpty | BQ_no_cond
datatype 'a bq_op = BQ_put 'a | BQ_take | BQ_size
datatype 'a bq_result = BQ_void | BQ_front 'a | BQ_length nat

fun bq_guard :: "'a bq_op \<Rightarrow> 'a list \<Rightarrow> bool" where
  "bq_guard BQ_take queue = (queue \<noteq> [])"
| "bq_guard _ queue = True"

fun bq_waits :: "'a bq_op \<Rightarrow> bq_cond" where
  "bq_waits BQ_take = BQ_notEmpty"
| "bq_waits _ = BQ_no_cond"

fun bq_body :: "'a bq_op \<Rightarrow> 'a list \<Rightarrow> ('a list \<times> 'a bq_result) outcome" where
  "bq_body (BQ_put x) queue = Inr (queue @ [x], BQ_void)"
| "bq_body BQ_take queue = cassert (queue \<noteq> []) (Inr (tl queue, BQ_front (hd queue)))"
| "bq_body BQ_size queue = Inr (queue, BQ_length (length queue))"

fun bq_note :: "'a bq_op \<Rightarrow> 'a list \<Rightarrow> 'a list \<Rightarrow> bq_cond notice" where
  "bq_note (BQ_put x) _ _ = Notify BQ_notEmpty"
| "bq_note _ _ _ = No_Note"

definition BlockingQueue :: "('a bq_op, 'a list, 'a bq_result, bq_cond) monitor_code" where
  "BlockingQueue = \<lparr>mc_guard = bq_guard, mc_cond = bq_waits, mc_asserts = (\<lambda>_. False),
     mc_body = bq_body, mc_note = bq_note\<rparr>"

text \<open>What was put and what was taken, in the order in which the operations completed.\<close>

fun bq_put_values :: "('a bq_op \<times> 'a bq_result) list \<Rightarrow> 'a list" where
  "bq_put_values [] = []"
| "bq_put_values ((BQ_put x, _) # ops) = x # bq_put_values ops"
| "bq_put_values (_ # ops) = bq_put_values ops"

fun bq_taken_values :: "('a bq_op \<times> 'a bq_result) list \<Rightarrow> 'a list" where
  "bq_taken_values [] = []"
| "bq_taken_values ((BQ_take, BQ_front x) # ops) = x # bq_taken_values ops"
| "bq_taken_values (_ # ops) = bq_taken_values ops"

lemma bq_seq_fifo:
  "seq_run BlockingQueue ops q = Some q' \<Longrightarrow> q @ bq_put_values ops = bq_taken_values ops @ q'"
proof (induction ops arbitrary: q)
  case (Cons p ops)
  obtain op r where p: "p = (op, r)" by (cases p)
  then obtain q1 where q1: "bq_guard op q" "bq_body op q = Inr (q1, r)" "seq_run BlockingQueue ops q1 = Some q'"
    using Cons.prems seq_run_Cons [of BlockingQueue op r ops q q'] by (auto simp: BlockingQueue_def)
  note ih = Cons.IH [OF q1(3)]
  show ?case
  proof (cases op)
    case (BQ_put x)
    then show ?thesis using ih p q1(2) by auto
  next
    case BQ_take
    then show ?thesis
      using ih p q1(1,2) by (auto simp: outcome_simps) (metis append_Cons list.collapse)
  next
    case BQ_size
    then show ?thesis using ih p q1(2) by simp
  qed
qed simp

lemma bq_fault_free: "fault_free BlockingQueue"
proof -
  have "returns (bq_body op q)" if "bq_guard op q" for op and q :: "'a list"
    using that by (cases op) simp_all
  then show ?thesis by (simp add: fault_free_def BlockingQueue_def)
qed

interpretation bq_notEmpty: counted_condition BlockingQueue BQ_notEmpty length
proof (unfold_locales, goal_cases)
  case (1 op st)
  then show ?case by (cases op) (simp_all add: BlockingQueue_def)
next
  case (2 op st st' r)
  then show ?case by (cases op; cases st) (auto simp: BlockingQueue_def outcome_simps)
next
  case (3 op st st' r)
  then show ?case by (cases op) (auto simp: BlockingQueue_def)
qed

text \<open>
  A blocking queue shared by any number of threads is first in, first out, and wakes its takers.  In
  every run the values put, in the order in which the puts completed, are the values taken, in
  order, followed by what is still in the queue; no assertion fails; and while a thread sleeps in
  \<^verbatim>\<open>take\<close> although the queue is not empty, another taker is awake and on its way.
\<close>

theorem blocking_queue_fifo:
  assumes "mon_run BlockingQueue ts acts (monitor_new []) = Some (s, ls)"
  shows "bq_put_values (map snd ls) = bq_taken_values (map snd ls) @ mon_state s \<and> \<not> mon_aborted s
    \<and> (mon_state s \<noteq> [] \<and> (\<exists>t\<in>set ts. mon_pc s t = Waiting BQ_take) \<longrightarrow>
       (\<exists>v\<in>set ts. mon_pc s v \<in> {Entering BQ_take, Testing BQ_take, Signalled BQ_take}))"
proof -
  have "bq_put_values (map snd ls) = bq_taken_values (map snd ls) @ mon_state s"
    using bq_seq_fifo [of "map snd ls" "[]"] mon_run_linear [OF assms] by (simp add: monitor_new_def)
  moreover have "\<not> mon_aborted s"
    by (rule never_aborts [OF bq_fault_free assms])
  moreover have "\<exists>v\<in>set ts. mon_pc s v \<in> {Entering BQ_take, Testing BQ_take, Signalled BQ_take}"
    if t: "t \<in> set ts" "mon_pc s t = Waiting BQ_take" "mon_state s \<noteq> []" for t
  proof -
    obtain v where v: "v \<in> set ts" "on_its_way BlockingQueue BQ_notEmpty (mon_pc s v)"
      using bq_notEmpty.someone_comes [OF assms t(1)] t(2,3) by (auto simp: BlockingQueue_def)
    have "bq_waits op = BQ_notEmpty \<longleftrightarrow> op = BQ_take" for op :: "'a bq_op"
      by (cases op) simp_all
    then have "mon_pc s v \<in> {Entering BQ_take, Testing BQ_take, Signalled BQ_take}"
      using v(2) by (cases "mon_pc s v") (simp_all add: BlockingQueue_def)
    then show ?thesis using v(1) by blast
  qed
  ultimately show ?thesis by blast
qed

text \<open>A taker waits, another thread puts a value, and the taker is woken.\<close>

definition bq_trace :: "nat bq_op mon_action list" where
  "bq_trace = [Call 1 BQ_take, Lock 1, Test 1 0, Call 2 (BQ_put 7), Lock 2, Test 2 1, Wake 1]"

theorem blocking_queue_fifo_witness:
  "\<exists>s ls. mon_run BlockingQueue [1, 2] bq_trace (monitor_new []) = Some (s, ls)
     \<and> bq_put_values (map snd ls) = [7] \<and> mon_state s = [7] \<and> \<not> mon_aborted s"
proof -
  obtain s ls where run: "mon_run BlockingQueue [1, 2] bq_trace (monitor_new []) = Some (s, ls)"
    and ls: "map snd ls = [(BQ_put 7, BQ_void)]"
    by (simp add: bq_trace_def BlockingQueue_def monitor_new_def MutexLock_new_def mx_lock_def mon_test_def
        cond_wait_begin_def waiters_def mx_unlock_def cond_wait_end_def)
  show ?thesis using blocking_queue_fifo [OF run] run ls by simp
qed

section \<open>BoundedBlockingQueue\<close>

text \<open>
  The queue is a \<^verbatim>\<open>boost::circular_buffer\<close>, whose size never exceeds its capacity and which is full when
  it reaches it.  A negative size is converted to a capacity that no allocation satisfies.
\<close>

record 'a circular_buffer =
  cb_capacity :: nat
  cb_items :: "'a list"

definition cb_full :: "'a circular_buffer \<Rightarrow> bool" where
  "cb_full q \<longleftrightarrow> cb_capacity q \<le> length (cb_items q)"

definition BoundedBlockingQueue_new :: "int \<Rightarrow> 'a circular_buffer outcome" where
  "BoundedBlockingQueue_new maxSize =
     (if maxSize < 0 then Inl Length_Error else Inr \<lparr>cb_capacity = nat maxSize, cb_items = []\<rparr>)"

datatype bbq_cond = BBQ_notEmpty | BBQ_notFull | BBQ_no_cond
datatype 'a bbq_op = BBQ_put 'a | BBQ_take | BBQ_empty | BBQ_full | BBQ_size | BBQ_capacity
datatype 'a bbq_result = BBQ_void | BBQ_front 'a | BBQ_bool bool | BBQ_number nat

fun bbq_guard :: "'a bbq_op \<Rightarrow> 'a circular_buffer \<Rightarrow> bool" where
  "bbq_guard (BBQ_put x) q = (\<not> cb_full q)"
| "bbq_guard BBQ_take q = (cb_items q \<noteq> [])"
| "bbq_guard _ q = True"

fun bbq_waits :: "'a bbq_op \<Rightarrow> bbq_cond" where
  "bbq_waits (BBQ_put x) = BBQ_notFull"
| "bbq_waits BBQ_take = BBQ_notEmpty"
| "bbq_waits _ = BBQ_no_cond"

fun bbq_body :: "'a bbq_op \<Rightarrow> 'a circular_buffer \<Rightarrow> ('a circular_buffer \<times> 'a bbq_result) outcome" where
  "bbq_body (BBQ_put x) q = cassert (\<not> cb_full q) (Inr (q\<lparr>cb_items := cb_items q @ [x]\<rparr>, BBQ_void))"
| "bbq_body BBQ_take q =
     cassert (cb_items q \<noteq> []) (Inr (q\<lparr>cb_items := tl (cb_items q)\<rparr>, BBQ_front (hd (cb_items q))))"
| "bbq_body BBQ_empty q = Inr (q, BBQ_bool (cb_items q = []))"
| "bbq_body BBQ_full q = Inr (q, BBQ_bool (cb_full q))"
| "bbq_body BBQ_size q = Inr (q, BBQ_number (length (cb_items q)))"
| "bbq_body BBQ_capacity q = Inr (q, BBQ_number (cb_capacity q))"

fun bbq_note :: "'a bbq_op \<Rightarrow> 'a circular_buffer \<Rightarrow> 'a circular_buffer \<Rightarrow> bbq_cond notice" where
  "bbq_note (BBQ_put x) _ _ = Notify BBQ_notEmpty"
| "bbq_note BBQ_take _ _ = Notify BBQ_notFull"
| "bbq_note _ _ _ = No_Note"

definition BoundedBlockingQueue :: "('a bbq_op, 'a circular_buffer, 'a bbq_result, bbq_cond) monitor_code" where
  "BoundedBlockingQueue = \<lparr>mc_guard = bbq_guard, mc_cond = bbq_waits, mc_asserts = (\<lambda>_. False),
     mc_body = bbq_body, mc_note = bbq_note\<rparr>"

fun bbq_put_values :: "('a bbq_op \<times> 'a bbq_result) list \<Rightarrow> 'a list" where
  "bbq_put_values [] = []"
| "bbq_put_values ((BBQ_put x, _) # ops) = x # bbq_put_values ops"
| "bbq_put_values (_ # ops) = bbq_put_values ops"

fun bbq_taken_values :: "('a bbq_op \<times> 'a bbq_result) list \<Rightarrow> 'a list" where
  "bbq_taken_values [] = []"
| "bbq_taken_values ((BBQ_take, BBQ_front x) # ops) = x # bbq_taken_values ops"
| "bbq_taken_values (_ # ops) = bbq_taken_values ops"

lemma bbq_seq_fifo:
  "seq_run BoundedBlockingQueue ops q = Some q' \<Longrightarrow> length (cb_items q) \<le> cb_capacity q \<Longrightarrow>
     cb_items q @ bbq_put_values ops = bbq_taken_values ops @ cb_items q'
     \<and> cb_capacity q' = cb_capacity q \<and> length (cb_items q') \<le> cb_capacity q'"
proof (induction ops arbitrary: q)
  case (Cons p ops)
  obtain op r where p: "p = (op, r)" by (cases p)
  then obtain q1 where q1: "bbq_guard op q" "bbq_body op q = Inr (q1, r)"
      "seq_run BoundedBlockingQueue ops q1 = Some q'"
    using Cons.prems(1) seq_run_Cons [of BoundedBlockingQueue op r ops q q']
    by (auto simp: BoundedBlockingQueue_def)
  have bound: "length (cb_items q1) \<le> cb_capacity q1" "cb_capacity q1 = cb_capacity q"
    using q1(1,2) Cons.prems(2) by (cases op; auto simp: outcome_simps cb_full_def)+
  note ih = Cons.IH [OF q1(3) bound(1)]
  show ?case
  proof (cases op)
    case BBQ_take
    then have "cb_items q = hd (cb_items q) # cb_items q1" "r = BBQ_front (hd (cb_items q))"
      using q1(1,2) by (auto simp: outcome_simps)
    then show ?thesis
      using ih p bound(2) BBQ_take by simp (metis append_Cons)
  qed (use ih p q1(2) bound(2) in \<open>auto simp: outcome_simps\<close>)
qed simp

lemma bbq_fault_free: "fault_free BoundedBlockingQueue"
proof -
  have "returns (bbq_body op q)" if "bbq_guard op q" for op and q :: "'a circular_buffer"
    using that by (cases op) simp_all
  then show ?thesis by (simp add: fault_free_def BoundedBlockingQueue_def)
qed

interpretation bbq_notEmpty: counted_condition BoundedBlockingQueue BBQ_notEmpty "\<lambda>q. length (cb_items q)"
proof (unfold_locales, goal_cases)
  case (1 op st)
  then show ?case by (cases op) (simp_all add: BoundedBlockingQueue_def)
next
  case (2 op st st' r)
  then show ?case by (cases op; cases "cb_items st") (auto simp: BoundedBlockingQueue_def outcome_simps)
next
  case (3 op st st' r)
  then show ?case by (cases op) (auto simp: BoundedBlockingQueue_def outcome_simps)
qed

interpretation bbq_notFull: counted_condition BoundedBlockingQueue BBQ_notFull
  "\<lambda>q. cb_capacity q - length (cb_items q)"
proof (unfold_locales, goal_cases)
  case (1 op st)
  then show ?case by (cases op) (simp_all add: BoundedBlockingQueue_def cb_full_def)
next
  case (2 op st st' r)
  then show ?case by (cases op) (auto simp: BoundedBlockingQueue_def outcome_simps cb_full_def)
next
  case (3 op st st' r)
  then show ?case by (cases op) (auto simp: BoundedBlockingQueue_def outcome_simps)
qed

text \<open>
  C6: A bounded blocking queue shared by any number of threads is first in, first out, never holds more
  than its capacity, and loses no wake-up.  In every run the values put are the values taken
  followed by what is in the queue; no assertion fails; while a taker sleeps although the queue is
  not empty another taker is awake, and while a putter sleeps although there is room another putter
  is awake.
\<close>

theorem bounded_queue_fifo:
  assumes "BoundedBlockingQueue_new maxSize = Inr q"
    and "mon_run BoundedBlockingQueue ts acts (monitor_new q) = Some (s, ls)"
  shows "bbq_put_values (map snd ls) = bbq_taken_values (map snd ls) @ cb_items (mon_state s)
    \<and> int (length (cb_items (mon_state s))) \<le> maxSize \<and> \<not> mon_aborted s
    \<and> (cb_items (mon_state s) \<noteq> [] \<and> (\<exists>t\<in>set ts. mon_pc s t = Waiting BBQ_take) \<longrightarrow>
       (\<exists>v\<in>set ts. on_its_way BoundedBlockingQueue BBQ_notEmpty (mon_pc s v)))
    \<and> (int (length (cb_items (mon_state s))) < maxSize \<and> (\<exists>t\<in>set ts. \<exists>x. mon_pc s t = Waiting (BBQ_put x)) \<longrightarrow>
       (\<exists>v\<in>set ts. on_its_way BoundedBlockingQueue BBQ_notFull (mon_pc s v)))"
proof -
  have q: "cb_items q = []" "int (cb_capacity q) = maxSize" "length (cb_items q) \<le> cb_capacity q"
    using assms(1) by (auto simp: BoundedBlockingQueue_new_def split: if_splits)
  have seq: "seq_run BoundedBlockingQueue (map snd ls) q = Some (mon_state s)"
    using mon_run_linear [OF assms(2)] by (simp add: monitor_new_def)
  note fifo = bbq_seq_fifo [OF seq q(3)]
  have "\<exists>v\<in>set ts. on_its_way BoundedBlockingQueue BBQ_notEmpty (mon_pc s v)"
    if "cb_items (mon_state s) \<noteq> []" "t \<in> set ts" "mon_pc s t = Waiting BBQ_take" for t
    using bbq_notEmpty.someone_comes [OF assms(2) that(2)] that(1,3) by (simp add: BoundedBlockingQueue_def)
  moreover have "\<exists>v\<in>set ts. on_its_way BoundedBlockingQueue BBQ_notFull (mon_pc s v)"
    if "int (length (cb_items (mon_state s))) < maxSize" "t \<in> set ts" "mon_pc s t = Waiting (BBQ_put x)" for t x
    using bbq_notFull.someone_comes [OF assms(2) that(2)] that(1,3) q(2) fifo
    by (simp add: BoundedBlockingQueue_def)
  moreover have "\<not> mon_aborted s" by (rule never_aborts [OF bbq_fault_free assms(2)])
  ultimately show ?thesis using fifo q by auto
qed

text \<open>A queue for one value: the second put waits until a take has made room.\<close>

definition bbq_trace :: "nat bbq_op mon_action list" where
  "bbq_trace = [Call 1 (BBQ_put 7), Lock 1, Test 1 0, Call 1 (BBQ_put 8), Lock 1, Test 1 0,
     Call 2 BBQ_take, Lock 2, Test 2 1, Wake 1, Test 1 0]"

lemmas mon_eval = monitor_new_def MutexLock_new_def mx_lock_def mon_test_def cond_wait_begin_def
  waiters_def mx_unlock_def cond_wait_end_def

theorem bounded_queue_fifo_witness:
  "\<exists>s ls. mon_run BoundedBlockingQueue [1, 2] bbq_trace (monitor_new \<lparr>cb_capacity = 1, cb_items = []\<rparr>)
       = Some (s, ls)
     \<and> bbq_put_values (map snd ls) = [7, 8] \<and> bbq_taken_values (map snd ls) = [7]
     \<and> cb_items (mon_state s) = [8] \<and> \<not> mon_aborted s"
proof -
  let ?q = "\<lparr>cb_capacity = 1, cb_items = []\<rparr> :: nat circular_buffer"
  obtain s ls where run: "mon_run BoundedBlockingQueue [1, 2] bbq_trace (monitor_new ?q) = Some (s, ls)"
    and ls: "map snd ls = [(BBQ_put 7, BBQ_void), (BBQ_take, BBQ_front 7), (BBQ_put 8, BBQ_void)]"
    by (simp add: bbq_trace_def BoundedBlockingQueue_def mon_eval cb_full_def)
  have "BoundedBlockingQueue_new 1 = Inr ?q" by (simp add: BoundedBlockingQueue_new_def)
  then show ?thesis using bounded_queue_fifo [OF _ run, of 1] run ls by simp
qed

section \<open>CountDownLatch\<close>

datatype latch_cond = Latch_condition | Latch_no_cond
datatype latch_op = Latch_wait | Latch_countDown | Latch_getCount

fun latch_guard :: "latch_op \<Rightarrow> int \<Rightarrow> bool" where
  "latch_guard Latch_wait count = (\<not> count > 0)"
| "latch_guard _ count = True"

fun latch_waits :: "latch_op \<Rightarrow> latch_cond" where
  "latch_waits Latch_wait = Latch_condition"
| "latch_waits _ = Latch_no_cond"

fun latch_body :: "latch_op \<Rightarrow> int \<Rightarrow> (int \<times> int option) outcome" where
  "latch_body Latch_wait count = Inr (count, None)"
| "latch_body Latch_countDown count = Inr (count - 1, None)"
| "latch_body Latch_getCount count = Inr (count, Some count)"

fun latch_note :: "latch_op \<Rightarrow> int \<Rightarrow> int \<Rightarrow> latch_cond notice" where
  "latch_note Latch_countDown _ count = (if count = 0 then Notify_All Latch_condition else No_Note)"
| "latch_note _ _ _ = No_Note"

definition CountDownLatch :: "(latch_op, int, int option, latch_cond) monitor_code" where
  "CountDownLatch = \<lparr>mc_guard = latch_guard, mc_cond = latch_waits, mc_asserts = (\<lambda>_. False),
     mc_body = latch_body, mc_note = latch_note\<rparr>"

fun countdowns :: "(latch_op \<times> int option) list \<Rightarrow> nat" where
  "countdowns [] = 0"
| "countdowns ((Latch_countDown, _) # ops) = Suc (countdowns ops)"
| "countdowns (_ # ops) = countdowns ops"

lemma countdowns_append: "countdowns (xs @ ys) = countdowns xs + countdowns ys"
  by (induction xs rule: countdowns.induct) simp_all

lemma seq_run_append:
  "seq_run mc (xs @ ys) st = Some st'' \<longleftrightarrow> (\<exists>st'. seq_run mc xs st = Some st' \<and> seq_run mc ys st' = Some st'')"
proof (induction xs arbitrary: st)
  case (Cons p xs)
  obtain op r where "p = (op, r)" by (cases p)
  then show ?case using Cons by (auto simp: seq_run_Cons simp del: seq_run.simps(2))
qed simp

lemma latch_seq: "seq_run CountDownLatch ops count = Some count' \<Longrightarrow> count' = count - int (countdowns ops)"
proof (induction ops arbitrary: count)
  case (Cons p ops)
  obtain op r where p: "p = (op, r)" by (cases p)
  show ?case
    using Cons p by (cases op) (fastforce simp: CountDownLatch_def split: if_splits)+
qed simp

interpretation latch: broadcast_condition CountDownLatch Latch_condition
proof (unfold_locales, goal_cases)
  case (1 op st st' r w)
  then have "w = Latch_wait" by (cases w) (simp_all add: CountDownLatch_def)
  then show ?case using 1 by (cases op) (auto simp: CountDownLatch_def)
qed

text \<open>
  A latch opens exactly when it has been counted down.  In every run the count is the initial one
  less the completed calls of \<^verbatim>\<open>countDown\<close>; a call of \<^verbatim>\<open>wait\<close> completes only after at least as many of
  them as the initial count; and no thread sleeps in \<^verbatim>\<open>wait\<close> once the count is zero or less.
\<close>

theorem latch_opens:
  assumes "mon_run CountDownLatch ts acts (monitor_new count) = Some (s, ls)"
  shows "mon_state s = count - int (countdowns (map snd ls))
    \<and> (\<forall>before after t r. ls = before @ (t, Latch_wait, r) # after \<longrightarrow> count \<le> int (countdowns (map snd before)))
    \<and> (mon_state s \<le> 0 \<longrightarrow> (\<forall>t. mon_pc s t \<noteq> Waiting Latch_wait))"
proof -
  have seq: "seq_run CountDownLatch (map snd ls) count = Some (mon_state s)"
    using mon_run_linear [OF assms] by (simp add: monitor_new_def)
  have "count \<le> int (countdowns (map snd before))" if h: "ls = before @ (t, Latch_wait, r) # after" for before after t r
  proof -
    obtain c' where c': "seq_run CountDownLatch (map snd before) count = Some c'"
        "seq_run CountDownLatch ((Latch_wait, r) # map snd after) c' = Some (mon_state s)"
      using seq h by (auto simp: seq_run_append simp del: seq_run.simps(2))
    have "c' \<le> 0" using c'(2) by (simp add: CountDownLatch_def split: if_splits)
    then show ?thesis using latch_seq [OF c'(1)] by simp
  qed
  moreover have "mon_pc s t \<noteq> Waiting Latch_wait" if "mon_state s \<le> 0" for t
  proof
    assume "mon_pc s t = Waiting Latch_wait"
    then have "waits_in_vain CountDownLatch Latch_condition s"
      unfolding waits_in_vain_def using that
      by (intro exI [of _ t] exI [of _ Latch_wait]) (simp add: CountDownLatch_def)
    then show False using latch.not_in_vain_run [OF assms] by simp
  qed
  ultimately show ?thesis using latch_seq [OF seq] by blast
qed

theorem latch_opens_witness:
  "\<exists>s ls. mon_run CountDownLatch [1, 2]
       [Call 1 Latch_wait, Lock 1, Test 1 0, Call 2 Latch_countDown, Lock 2, Test 2 0, Wake 1, Test 1 0]
       (monitor_new 1) = Some (s, ls)
     \<and> map snd ls = [(Latch_countDown, None), (Latch_wait, None)] \<and> mon_state s = 0"
proof -
  obtain s ls where run: "mon_run CountDownLatch [1, 2]
       [Call 1 Latch_wait, Lock 1, Test 1 0, Call 2 Latch_countDown, Lock 2, Test 2 0, Wake 1, Test 1 0]
       (monitor_new 1) = Some (s, ls)"
    and ls: "map snd ls = [(Latch_countDown, None), (Latch_wait, None)]"
    by (simp add: CountDownLatch_def mon_eval)
  show ?thesis using latch_opens [OF run] run ls by simp
qed

end
