(* ===== verification/Thread_Pool.thy ===== *)
theory Thread_Pool
  imports Blocking_Queues Threads
begin

text \<open>
  \<^verbatim>\<open>src/src/utils/ThreadPool.h\<close> and \<^verbatim>\<open>ThreadPool.cpp\<close>: a queue of tasks that worker threads empty.
  Submitting, taking and stopping are guarded operations of a monitor; tasks are values.
\<close>

section \<open>The pool\<close>

record 'a ThreadPool =
  tp_name :: string
  tp_threads :: "Thread list"
  tp_queue :: "'a list"
  tp_maxQueueSize :: nat
  tp_running :: bool

definition ThreadPool_new :: "string \<Rightarrow> 'a ThreadPool" where
  "ThreadPool_new nm =
     \<lparr>tp_name = nm, tp_threads = [], tp_queue = [], tp_maxQueueSize = 0, tp_running = False\<rparr>"

text \<open>The parameter is an \<^verbatim>\<open>int\<close>, the field a \<^verbatim>\<open>size_t\<close>.\<close>

definition setMaxQueueSize :: "int \<Rightarrow> 'a ThreadPool \<Rightarrow> 'a ThreadPool" where
  "setMaxQueueSize maxSize p = p\<lparr>tp_maxQueueSize := size_of_int maxSize\<rparr>"

text \<open>\<open>create i\<close> is the result of \<^verbatim>\<open>pthread_create\<close> for thread \<open>i\<close>.\<close>

fun pool_threads ::
  "(nat \<Rightarrow> nat option) \<Rightarrow> string \<Rightarrow> nat \<Rightarrow> 32 word AtomicIntegerT
   \<Rightarrow> (Thread list \<times> 32 word AtomicIntegerT) outcome"
where
  "pool_threads create nm 0 cnt = Inr ([], cnt)"
| "pool_threads create nm (Suc n) cnt =
     seq (pool_threads create nm n cnt) (\<lambda>(ts, cnt).
       let (t, cnt) = Thread_new (nm @ dec_int (int n)) cnt
       in seq (Thread_start (create n) t) (\<lambda>t. Inr (ts @ [t], cnt)))"

text \<open>A negative number of threads is more than \<^verbatim>\<open>reserve\<close> accepts.\<close>

definition ThreadPool_start ::
  "(nat \<Rightarrow> nat option) \<Rightarrow> int \<Rightarrow> 'a ThreadPool \<times> 32 word AtomicIntegerT
   \<Rightarrow> ('a ThreadPool \<times> 32 word AtomicIntegerT) outcome" where
  "ThreadPool_start create numThreads pc =
     (case pc of (p, cnt) \<Rightarrow>
       cassert (tp_threads p = [])
         (let p = p\<lparr>tp_running := True\<rparr> in
          if numThreads < 0 then Inl Length_Error
          else seq (pool_threads create (tp_name p) (nat numThreads) cnt) (\<lambda>(ts, cnt).
                 Inr (p\<lparr>tp_threads := ts\<rparr>, cnt))))"

section \<open>Submitting, taking, stopping\<close>

definition isFull :: "'a ThreadPool \<Rightarrow> bool" where
  "isFull p \<longleftrightarrow> tp_maxQueueSize p > 0 \<and> length (tp_queue p) \<ge> tp_maxQueueSize p"

datatype tp_cond = TP_notEmpty | TP_notFull | TP_no_cond
datatype 'a tp_op = TP_run 'a | TP_take | TP_stop
datatype 'a tp_result = TP_void | TP_task "'a option"

fun tp_guard :: "'a tp_op \<Rightarrow> 'a ThreadPool \<Rightarrow> bool" where
  "tp_guard (TP_run task) p = (\<not> isFull p)"
| "tp_guard TP_take p = (\<not> (tp_queue p = [] \<and> tp_running p))"
| "tp_guard TP_stop p = True"

fun tp_waits :: "'a tp_op \<Rightarrow> tp_cond" where
  "tp_waits (TP_run task) = TP_notFull"
| "tp_waits TP_take = TP_notEmpty"
| "tp_waits TP_stop = TP_no_cond"

text \<open>\<^verbatim>\<open>isFull\<close> asserts that the mutex is locked by the calling thread.\<close>

fun tp_asserts :: "'a tp_op \<Rightarrow> bool" where
  "tp_asserts (TP_run task) = True"
| "tp_asserts _ = False"

fun tp_body :: "'a tp_op \<Rightarrow> 'a ThreadPool \<Rightarrow> ('a ThreadPool \<times> 'a tp_result) outcome" where
  "tp_body (TP_run task) p =
     cassert (\<not> isFull p) (Inr (p\<lparr>tp_queue := tp_queue p @ [task]\<rparr>, TP_void))"
| "tp_body TP_take p =
     Inr (case tp_queue p of
            [] \<Rightarrow> (p, TP_task None)
          | task # queue \<Rightarrow> (p\<lparr>tp_queue := queue\<rparr>, TP_task (Some task)))"
| "tp_body TP_stop p = Inr (p\<lparr>tp_running := False\<rparr>, TP_void)"

fun tp_note :: "'a tp_op \<Rightarrow> 'a ThreadPool \<Rightarrow> 'a ThreadPool \<Rightarrow> tp_cond notice" where
  "tp_note (TP_run task) _ _ = Notify_All TP_notEmpty"
| "tp_note TP_take p _ =
     (if tp_queue p \<noteq> [] \<and> tp_maxQueueSize p > 0 then Notify TP_notFull else No_Note)"
| "tp_note TP_stop _ _ = Notify_All TP_notEmpty"

definition ThreadPool_code :: "('a tp_op, 'a ThreadPool, 'a tp_result, tp_cond) monitor_code" where
  "ThreadPool_code = \<lparr>mc_guard = tp_guard, mc_cond = tp_waits, mc_asserts = tp_asserts,
     mc_body = tp_body, mc_note = tp_note\<rparr>"

text \<open>
  \<^verbatim>\<open>run\<close> calls the task at once when the pool has no threads, and submits it otherwise; the
  destructor stops a running pool.
\<close>

definition ThreadPool_run :: "'a \<Rightarrow> 'a ThreadPool \<Rightarrow> 'a list \<times> 'a tp_op list" where
  "ThreadPool_run task p = (if tp_threads p = [] then ([task], []) else ([], [TP_run task]))"

definition ThreadPool_destroy :: "'a ThreadPool \<Rightarrow> 'a tp_op list" where
  "ThreadPool_destroy p = (if tp_running p then [TP_stop] else [])"

text \<open>
  A worker: in every round what it reads in \<^verbatim>\<open>running_\<close> and what \<^verbatim>\<open>take\<close> returns, with how the call of
  the task ends.  It calls the tasks it gets; an exception of the two known kinds is reported and aborts,
  an unknown one is thrown on, out of the thread's function.
\<close>

fun runInThread :: "(bool \<times> ('a \<times> func_end) option) list \<Rightarrow> 'a list \<times> func_end outcome" where
  "runInThread [] = ([], Inr Func_Returned)"
| "runInThread ((running, task) # rounds) =
     (if running then
        (case task of
           Some (f, Func_Returned) \<Rightarrow> let (fs, r) = runInThread rounds in (f # fs, r)
         | Some (f, Func_Exception) \<Rightarrow> ([f], Inl Fatal_Abort)
         | Some (f, Func_Std_Exception) \<Rightarrow> ([f], Inl Fatal_Abort)
         | Some (f, Func_Unknown_Exception) \<Rightarrow> ([f], Inr Func_Unknown_Exception)
         | None \<Rightarrow> runInThread rounds)
      else ([], Inr Func_Returned))"

text \<open>The thread of a worker, from its start routine to its end.\<close>

definition worker_thread ::
  "int \<Rightarrow> ThreadData \<Rightarrow> (bool \<times> ('a \<times> func_end) option) list \<Rightarrow> thread_locals
   \<Rightarrow> 'a list \<times> (thread_locals \<times> int option) outcome" where
  "worker_thread gettid data rounds l =
     (let (fs, r) = runInThread rounds in (fs, seq r (\<lambda>r. startThread gettid data r l)))"

section \<open>Workers\<close>

text \<open>The tasks that a worker is handed while it reads that the pool runs.\<close>

fun worker_tasks :: "(bool \<times> ('a \<times> func_end) option) list \<Rightarrow> ('a \<times> func_end) list" where
  "worker_tasks [] = []"
| "worker_tasks ((running, task) # rounds) =
     (if running then (case task of Some t \<Rightarrow> t # worker_tasks rounds | None \<Rightarrow> worker_tasks rounds) else [])"

text \<open>
  A worker calls the tasks it is handed, in order, up to and with the first that throws; if one does,
  whatever it throws, the process ends.
\<close>

lemma runInThread_calls:
  "fst (runInThread rounds) = map fst (takeWhile (\<lambda>t. snd t = Func_Returned) (worker_tasks rounds))
     @ map fst (take 1 (dropWhile (\<lambda>t. snd t = Func_Returned) (worker_tasks rounds)))
   \<and> (snd (runInThread rounds) = Inr Func_Returned \<longleftrightarrow> (\<forall>t\<in>set (worker_tasks rounds). snd t = Func_Returned))"
  by (induction rounds rule: worker_tasks.induct)
    (auto split: option.splits func_end.splits simp: Let_def split_beta)

lemma worker_throws_ends_process:
  assumes "(f, r) \<in> set (worker_tasks rounds)" "r \<noteq> Func_Returned"
  shows "\<exists>e. snd (worker_thread gettid data rounds l) = Inl e"
proof -
  have "snd (runInThread rounds) \<noteq> Inr Func_Returned"
    using assms runInThread_calls [of rounds] by force
  moreover have "snd (runInThread rounds) \<in> {Inl Fatal_Abort, Inr Func_Returned, Inr Func_Unknown_Exception}"
    by (induction rounds rule: runInThread.induct) (auto split: option.splits func_end.splits simp: Let_def split_beta)
  ultimately show ?thesis
    by (cases "ThreadData_enter gettid (td_name data) (td_wkTid data) l")
      (auto simp: worker_thread_def startThread_def runInThread_data_def ThreadData_leave_def split_beta Let_def)
qed

section \<open>Tasks are taken in the order of submission\<close>

fun tp_submitted :: "('a tp_op \<times> 'a tp_result) list \<Rightarrow> 'a list" where
  "tp_submitted [] = []"
| "tp_submitted ((TP_run task, _) # ops) = task # tp_submitted ops"
| "tp_submitted (_ # ops) = tp_submitted ops"

fun tp_handed_out :: "('a tp_op \<times> 'a tp_result) list \<Rightarrow> 'a list" where
  "tp_handed_out [] = []"
| "tp_handed_out ((TP_take, TP_task (Some task)) # ops) = task # tp_handed_out ops"
| "tp_handed_out (_ # ops) = tp_handed_out ops"

definition tp_bounded :: "'a ThreadPool \<Rightarrow> bool" where
  "tp_bounded p \<longleftrightarrow> tp_maxQueueSize p > 0 \<longrightarrow> length (tp_queue p) \<le> tp_maxQueueSize p"

lemma tp_seq_fifo:
  "seq_run ThreadPool_code ops p = Some p' \<Longrightarrow> tp_bounded p \<Longrightarrow>
     tp_queue p @ tp_submitted ops = tp_handed_out ops @ tp_queue p' \<and> tp_bounded p'"
proof (induction ops arbitrary: p)
  case (Cons x ops)
  obtain op r where x: "x = (op, r)" by (cases x)
  then obtain p1 where p1: "tp_guard op p" "tp_body op p = Inr (p1, r)"
      "seq_run ThreadPool_code ops p1 = Some p'"
    using Cons.prems(1) seq_run_Cons [of ThreadPool_code op r ops p p'] by (auto simp: ThreadPool_code_def)
  have "tp_bounded p1"
    using p1(1,2) Cons.prems(2)
    by (cases op) (auto simp: tp_bounded_def isFull_def outcome_simps split: list.splits)
  note ih = Cons.IH [OF p1(3) this]
  show ?case
    using ih x p1(2) by (cases op) (auto simp: outcome_simps split: list.splits)
qed simp

interpretation tp_notEmpty: broadcast_condition ThreadPool_code TP_notEmpty
proof (unfold_locales, goal_cases)
  case (1 op st st' r w)
  then have "w = TP_take" by (cases w) (simp_all add: ThreadPool_code_def)
  then show ?case using 1 by (cases op) (auto simp: ThreadPool_code_def split: list.splits)
qed

text \<open>
  C27: Tasks leave a thread pool in the order in which they were submitted, and workers do not sleep
  through them.  In every run of submitting threads, workers and a stopping thread on a new pool,
  the tasks submitted are the tasks handed out, in order, followed by those in the queue; a bounded
  queue keeps its bound; and no worker sleeps while there is a task or the pool has been stopped.
\<close>

theorem pool_tasks_in_order:
  assumes "mon_run ThreadPool_code ts acts (monitor_new p) = Some (s, ls)" "tp_queue p = []"
  shows "tp_submitted (map snd ls) = tp_handed_out (map snd ls) @ tp_queue (mon_state s)
    \<and> tp_bounded (mon_state s)
    \<and> (tp_queue (mon_state s) \<noteq> [] \<or> \<not> tp_running (mon_state s) \<longrightarrow> (\<forall>t. mon_pc s t \<noteq> Waiting TP_take))"
proof -
  have seq: "seq_run ThreadPool_code (map snd ls) p = Some (mon_state s)"
    using mon_run_linear [OF assms(1)] by (simp add: monitor_new_def)
  have "mon_pc s t \<noteq> Waiting TP_take"
    if "tp_queue (mon_state s) \<noteq> [] \<or> \<not> tp_running (mon_state s)" for t
  proof
    assume "mon_pc s t = Waiting TP_take"
    then have "waits_in_vain ThreadPool_code TP_notEmpty s"
      unfolding waits_in_vain_def using that
      by (intro exI [of _ t] exI [of _ TP_take]) (auto simp: ThreadPool_code_def)
    then show False using tp_notEmpty.not_in_vain_run [OF assms(1)] by simp
  qed
  then show ?thesis using tp_seq_fifo [OF seq] assms(2) by (auto simp: tp_bounded_def)
qed

text \<open>A pool for one task, with one worker, and one submitting thread.\<close>

definition small_pool :: "string ThreadPool" where
  "small_pool = \<lparr>tp_name = ''p'',
     tp_threads = [\<lparr>started = True, joined = False, pthreadId = 2, th_tid = 0, th_name = ''p0''\<rparr>],
     tp_queue = [], tp_maxQueueSize = 1, tp_running = True\<rparr>"

theorem pool_tasks_in_order_witness:
  "\<exists>s ls. mon_run ThreadPool_code [1, 2]
       [Call 2 TP_take, Lock 2, Test 2 0, Call 1 (TP_run ''a''), Lock 1, Test 1 0, Wake 2, Test 2 0]
       (monitor_new small_pool) = Some (s, ls)
     \<and> tp_submitted (map snd ls) = [''a''] \<and> tp_handed_out (map snd ls) = [''a''] \<and> tp_queue (mon_state s) = []"
proof -
  obtain s ls where run: "mon_run ThreadPool_code [1, 2]
       [Call 2 TP_take, Lock 2, Test 2 0, Call 1 (TP_run ''a''), Lock 1, Test 1 0, Wake 2, Test 2 0]
       (monitor_new small_pool) = Some (s, ls)"
    and ls: "map snd ls = [(TP_run ''a'', TP_void), (TP_take, TP_task (Some ''a''))]"
    by (simp add: ThreadPool_code_def mon_eval small_pool_def isFull_def isLockedByThisThread_def)
  show ?thesis using pool_tasks_in_order [OF run] run ls by (simp add: small_pool_def)
qed

section \<open>Waiting for room ends the process\<close>

text \<open>
  C40: A thread that had to wait for room in a bounded pool and is woken by a worker ends the process as
  soon as it runs.  \<^verbatim>\<open>Condition::wait\<close> does not restore \<^verbatim>\<open>holder_\<close>, so the test of the loop, which
  asserts that the mutex is locked by this thread, fails in every run in which such a thread gets the
  mutex again.
\<close>

theorem pool_wait_for_room_aborts:
  assumes "mon_run ThreadPool_code ts acts (monitor_new p) = Some (s, ls)" "\<not> mon_aborted s"
    and "mon_pc s t = Signalled (TP_run task)" "t \<noteq> 0" "mx_owner (mon_mutex s) = None"
  shows "\<exists>s'. mon_run ThreadPool_code ts [Wake t, Test t u] s = Some (s', []) \<and> mon_aborted s'"
  by (rule signalled_assertion_aborts [OF assms(1-4) _ assms(5)]) (simp add: ThreadPool_code_def)

text \<open>The second submission waits; the worker takes the first task and wakes the submitter.\<close>

definition full_pool_trace :: "string tp_op mon_action list" where
  "full_pool_trace =
     [Call 1 (TP_run ''a''), Lock 1, Test 1 0, Call 1 (TP_run ''b''), Lock 1, Test 1 0,
      Call 2 TP_take, Lock 2, Test 2 1]"

theorem pool_wait_for_room_aborts_witness:
  "\<exists>s ls s'. mon_run ThreadPool_code [1, 2] full_pool_trace (monitor_new small_pool) = Some (s, ls)
     \<and> mon_run ThreadPool_code [1, 2] [Wake 1, Test 1 0] s = Some (s', []) \<and> mon_aborted s'"
proof -
  obtain s ls where run: "mon_run ThreadPool_code [1, 2] full_pool_trace (monitor_new small_pool) = Some (s, ls)"
    and s: "\<not> mon_aborted s" "mon_pc s 1 = Signalled (TP_run ''b'')" "mx_owner (mon_mutex s) = None"
    by (simp add: full_pool_trace_def ThreadPool_code_def mon_eval small_pool_def isFull_def
        isLockedByThisThread_def)
  show ?thesis
    using pool_wait_for_room_aborts [OF run s(1,2) _ s(3), of 0] run by auto
qed

end
