(* ===== verification/Serial_Port.thy ===== *)
theory Serial_Port
  imports Prelude
begin

text \<open>
  \<^verbatim>\<open>ComEntity::ComUtil\<close> of \<^verbatim>\<open>src/src/bussiness_logic/ComEntity.h\<close> and \<^verbatim>\<open>ComEntity.cpp\<close>: opening and setting
  up a serial port, and its blocking read and write loops.  What the system calls return is a
  parameter; which descriptors are open and how a port is set are state.
\<close>

unbundle bit_operations_syntax

section \<open>Terminal settings\<close>

record termios =
  c_iflag :: "32 word"
  c_cflag :: "32 word"
  c_ispeed :: "32 word"
  c_ospeed :: "32 word"

text \<open>The constants of \<^verbatim>\<open><termios.h>\<close> on Linux.\<close>

definition IGNBRK :: "32 word" where "IGNBRK = 1"
definition INPCK :: "32 word" where "INPCK = 16"
definition CS7 :: "32 word" where "CS7 = 32"
definition CS8 :: "32 word" where "CS8 = 48"
definition CREAD :: "32 word" where "CREAD = 128"
definition PARENB :: "32 word" where "PARENB = 256"
definition PARODD :: "32 word" where "PARODD = 512"
definition CLOCAL :: "32 word" where "CLOCAL = 2048"
definition B9600 :: "32 word" where "B9600 = 13"
definition B19200 :: "32 word" where "B19200 = 14"
definition B38400 :: "32 word" where "B38400 = 15"
definition B57600 :: "32 word" where "B57600 = 4097"
definition B115200 :: "32 word" where "B115200 = 4098"

definition CBAUDEX :: "32 word" where "CBAUDEX = 4096"
definition CBAUD :: "32 word" where "CBAUD = 4111"

lemmas termios_bits = IGNBRK_def INPCK_def CS7_def CS8_def CREAD_def PARENB_def PARODD_def CLOCAL_def
  CBAUDEX_def CBAUD_def
lemmas termios_speeds = B9600_def B19200_def B38400_def B57600_def B115200_def

text \<open>What \<^verbatim>\<open>cfsetispeed\<close> and \<^verbatim>\<open>cfsetospeed\<close> of glibc store, for a speed other than 0.\<close>

definition cfsetispeed :: "32 word \<Rightarrow> termios \<Rightarrow> termios" where
  "cfsetispeed speed tio =
     tio\<lparr>c_ispeed := speed, c_cflag := (c_cflag tio AND NOT CBAUD) OR speed\<rparr>"

definition cfsetospeed :: "32 word \<Rightarrow> termios \<Rightarrow> termios" where
  "cfsetospeed speed tio =
     tio\<lparr>c_ospeed := speed, c_cflag := (c_cflag tio AND NOT CBAUD) OR speed\<rparr>"

section \<open>ComUtil\<close>

datatype eMBParity = MB_PAR_NONE | MB_PAR_ODD | MB_PAR_EVEN

record ComUtil =
  cu_portName :: string
  cu_baudRate :: nat
  cu_dataBits :: "8 word"
  cu_eParity :: eMBParity
  cu_comFd :: int
  cu_bRxEnabled :: bool
  cu_bTxEnabled :: bool

text \<open>
  The descriptors that are open, the settings of each, and the static \<^verbatim>\<open>xOldTIO\<close> shared by all ports.
\<close>

record serial_os =
  so_open :: "int set"
  so_settings :: "int \<Rightarrow> termios option"
  so_oldTIO :: "termios option"

text \<open>What \<^verbatim>\<open>open\<close>, \<^verbatim>\<open>tcgetattr\<close>, \<^verbatim>\<open>cfsetispeed\<close>, \<^verbatim>\<open>cfsetospeed\<close> and \<^verbatim>\<open>tcsetattr\<close> return.\<close>

record serial_calls =
  sc_open :: "string \<Rightarrow> int"
  sc_tcgetattr :: "int \<Rightarrow> termios option"
  sc_cfsetispeed :: int
  sc_cfsetospeed :: int
  sc_tcsetattr :: int

definition parity_flags :: "eMBParity \<Rightarrow> 32 word" where
  "parity_flags p = (case p of MB_PAR_NONE \<Rightarrow> 0 | MB_PAR_EVEN \<Rightarrow> PARENB | MB_PAR_ODD \<Rightarrow> PARENB OR PARODD)"

definition data_bits_flags :: "8 word \<Rightarrow> 32 word option" where
  "data_bits_flags d = (if d = 8 then Some CS8 else if d = 7 then Some CS7 else None)"

definition baud_speed :: "nat \<Rightarrow> 32 word option" where
  "baud_speed b =
     (if b = 9600 then Some B9600 else if b = 19200 then Some B19200 else if b = 38400 then Some B38400
      else if b = 57600 then Some B57600 else if b = 115200 then Some B115200 else None)"

text \<open>\<^verbatim>\<open>serialEnable\<close> has an empty body.\<close>

definition serialEnable :: "bool \<Rightarrow> bool \<Rightarrow> ComUtil \<Rightarrow> ComUtil" where
  "serialEnable rx tx u = u"

definition serialInit :: "serial_calls \<Rightarrow> ComUtil \<Rightarrow> serial_os \<Rightarrow> bool \<times> ComUtil \<times> serial_os" where
  "serialInit sc u os =
     (let fd = sc_open sc (cu_portName u); u = u\<lparr>cu_comFd := fd\<rparr> in
      if fd < 0 then (False, u, os)
      else
        let os = os\<lparr>so_open := insert fd (so_open os)\<rparr> in
        case sc_tcgetattr sc fd of
          None \<Rightarrow> (False, u, os\<lparr>so_open := so_open os - {fd}\<rparr>)
        | Some old \<Rightarrow>
            let os = os\<lparr>so_oldTIO := Some old\<rparr>;
                iflag = IGNBRK OR INPCK;
                cflag = (CREAD OR CLOCAL) OR parity_flags (cu_eParity u)
            in case (data_bits_flags (cu_dataBits u), baud_speed (cu_baudRate u)) of
                 (Some bits, Some speed) \<Rightarrow>
                   if sc_cfsetispeed sc \<noteq> 0 \<or> sc_cfsetospeed sc \<noteq> 0 \<or> sc_tcsetattr sc \<noteq> 0 then (True, u, os)
                   else (True, serialEnable False False u,
                         os\<lparr>so_settings := (so_settings os)(fd \<mapsto>
                              cfsetospeed speed (cfsetispeed speed
                                \<lparr>c_iflag = iflag, c_cflag = cflag OR bits, c_ispeed = 0, c_ospeed = 0\<rparr>))\<rparr>)
               | _ \<Rightarrow> (False, u, os))"

definition ComUtil_new ::
  "serial_calls \<Rightarrow> string \<Rightarrow> nat \<Rightarrow> 8 word \<Rightarrow> eMBParity \<Rightarrow> serial_os \<Rightarrow> ComUtil \<times> serial_os" where
  "ComUtil_new sc portName baudRate dataBits eParity os =
     (let u = \<lparr>cu_portName = portName, cu_baudRate = baudRate, cu_dataBits = dataBits,
               cu_eParity = eParity, cu_comFd = -1, cu_bRxEnabled = False, cu_bTxEnabled = False\<rparr>;
          (ok, u, os) = serialInit sc u os
      in (if ok then u else u\<lparr>cu_comFd := -1\<rparr>, os))"

text \<open>\<^verbatim>\<open>serialClose\<close> puts the saved settings back and closes.\<close>

definition serialClose :: "ComUtil \<Rightarrow> serial_os \<Rightarrow> serial_os" where
  "serialClose u os =
     (if cu_comFd u \<noteq> -1
      then os\<lparr>so_settings := (so_settings os)(cu_comFd u := so_oldTIO os),
              so_open := so_open os - {cu_comFd u}\<rparr>
      else os)"

section \<open>Reading and writing\<close>

text \<open>
  One round of the loop of \<^verbatim>\<open>serialRead\<close>: \<^verbatim>\<open>select\<close> failed (with \<^verbatim>\<open>EINTR\<close> or not), it found the descriptor
  readable and \<^verbatim>\<open>read\<close> failed or returned bytes, or the time was up.  \<open>None\<close>: the given rounds did
  not end the loop.
\<close>

datatype read_round = Select_EINTR | Select_Failed | Read_Failed | Read_Bytes "byte list" | Select_Timeout

fun serialRead :: "read_round list \<Rightarrow> (bool \<times> byte list \<times> 16 word option) option" where
  "serialRead [] = None"
| "serialRead (Select_EINTR # rounds) = serialRead rounds"
| "serialRead (Select_Failed # rounds) = Some (False, [], None)"
| "serialRead (Read_Failed # rounds) = Some (False, [], None)"
| "serialRead (Read_Bytes bs # rounds) = Some (True, bs, Some (word_of_nat (length bs)))"
| "serialRead (Select_Timeout # rounds) = Some (True, [], Some 0)"

text \<open>
  What one \<^verbatim>\<open>write\<close> returned.  \<open>serialWrite_loop data n left rounds\<close> is the loop with \<open>n\<close> bytes of
  \<open>data\<close> written and \<open>left\<close> to go; the result is the value returned and the bytes the port received.
\<close>

datatype write_round = Write_EINTR | Write_Failed | Wrote nat

fun serialWrite_loop ::
  "byte list \<Rightarrow> nat \<Rightarrow> nat \<Rightarrow> write_round list \<Rightarrow> (bool \<times> byte list) option"
where
  "serialWrite_loop data n left rounds =
     (if left > 0 then
        (case rounds of
           [] \<Rightarrow> None
         | Write_EINTR # rounds \<Rightarrow> serialWrite_loop data n left rounds
         | Write_Failed # rounds \<Rightarrow> Some (left = 0, [])
         | Wrote res # rounds \<Rightarrow>
             map_option (\<lambda>(r, sent). (r, take res (drop n data) @ sent))
               (serialWrite_loop data (n + res) (size_sub left res) rounds))
      else Some (left = 0, []))"

declare serialWrite_loop.simps [simp del]

definition serialWrite :: "byte list \<Rightarrow> 16 word \<Rightarrow> write_round list \<Rightarrow> (bool \<times> byte list) option" where
  "serialWrite pucBuffer usNBytes rounds = serialWrite_loop pucBuffer 0 (unat usNBytes) rounds"

text \<open>\<^verbatim>\<open>write\<close> never reports more than it was given.\<close>

fun rounds_fit :: "nat \<Rightarrow> write_round list \<Rightarrow> bool" where
  "rounds_fit left [] = True"
| "rounds_fit left (Wrote res # rounds) = (left = 0 \<or> res \<le> left \<and> rounds_fit (left - res) rounds)"
| "rounds_fit left (Write_EINTR # rounds) = rounds_fit left rounds"
| "rounds_fit left (Write_Failed # rounds) = True"

text \<open>The rounds in which bytes were written.\<close>

fun progress_rounds :: "write_round list \<Rightarrow> nat" where
  "progress_rounds [] = 0"
| "progress_rounds (Wrote res # rounds) = (if res > 0 then Suc (progress_rounds rounds) else progress_rounds rounds)"
| "progress_rounds (_ # rounds) = progress_rounds rounds"

lemma serialWrite_loop_sends:
  assumes "n + left = length data" "left < 2 ^ 64" "rounds_fit left rounds"
    and "serialWrite_loop data n left rounds = Some (r, sent)"
  shows "\<exists>rest. drop n data = sent @ rest \<and> (r \<longleftrightarrow> rest = [])"
  using assms
proof (induction rounds arbitrary: n left sent)
  case Nil
  then show ?case by (simp add: serialWrite_loop.simps [of data n left] split: if_splits)
next
  case (Cons x rounds)
  show ?case
  proof (cases "left > 0")
    case True
    show ?thesis
    proof (cases x)
      case Write_EINTR
      then show ?thesis
        using Cons True serialWrite_loop.simps [of data n left "x # rounds"] by simp
    next
      case Write_Failed
      then show ?thesis
        using Cons.prems True serialWrite_loop.simps [of data n left "x # rounds"] by simp
    next
      case (Wrote res)
      then have res: "res \<le> left" "rounds_fit (left - res) rounds"
        using Cons.prems(3) True by simp_all
      then have sub: "size_sub left res = left - res" using Cons.prems(2) by (simp add: size_sub_le)
      have "map_option (\<lambda>(r, sent). (r, take res (drop n data) @ sent))
          (serialWrite_loop data (n + res) (left - res) rounds) = Some (r, sent)"
        using Cons.prems(4) True Wrote sub serialWrite_loop.simps [of data n left "x # rounds"] by simp
      then obtain sent' where sent': "serialWrite_loop data (n + res) (left - res) rounds = Some (r, sent')"
          "sent = take res (drop n data) @ sent'"
        by auto
      obtain rest where rest: "drop (n + res) data = sent' @ rest" "r \<longleftrightarrow> rest = []"
        using Cons.IH [OF _ less_imp_diff_less [OF Cons.prems(2)] res(2) sent'(1)] Cons.prems(1) res(1)
        by auto
      have "drop n data = take res (drop n data) @ drop (n + res) data"
        by (metis append_take_drop_id drop_drop add.commute)
      then show ?thesis using rest sent'(2) by auto
    qed
  next
    case False
    then show ?thesis
      using Cons.prems(1,4) serialWrite_loop.simps [of data n left "x # rounds"] by simp
  qed
qed

lemma serialWrite_loop_ends:
  assumes "left < 2 ^ 64" "rounds_fit left rounds" "left \<le> progress_rounds rounds"
  shows "\<exists>r sent. serialWrite_loop data n left rounds = Some (r, sent)"
  using assms
proof (induction rounds arbitrary: n left)
  case Nil
  then show ?case by (auto simp: serialWrite_loop.simps [of data n 0])
next
  case (Cons x rounds)
  show ?case
  proof (cases "left > 0")
    case True
    show ?thesis
    proof (cases x)
      case (Wrote res)
      then have res: "res \<le> left" "rounds_fit (left - res) rounds"
        using Cons.prems(2) True by simp_all
      then have sub: "size_sub left res = left - res" using Cons.prems(1) by (simp add: size_sub_le)
      have "\<exists>r sent. serialWrite_loop data (n + res) (left - res) rounds = Some (r, sent)"
        using Cons.IH [OF _ res(2)] Cons.prems(1,3) Wrote res(1) by (simp split: if_splits)
      then show ?thesis using True Wrote sub serialWrite_loop.simps [of data n left "x # rounds"] by auto
    qed (use Cons True serialWrite_loop.simps [of data n left "x # rounds"] in auto)
  next
    case False
    then show ?thesis using serialWrite_loop.simps [of data n left "x # rounds"] by auto
  qed
qed

text \<open>
  C9: The write loop of a serial port sends the bytes in order, each once, and it ends.  With the number
  of bytes of the buffer, after whatever interruptions and short writes, the bytes sent are a prefix
  of the buffer, and the result is true exactly when they are all of it; and the loop has ended at
  the latest when as many writes as there are bytes have written something.
\<close>

theorem serialWrite_sends_all:
  assumes "unat usNBytes = length data" "rounds_fit (length data) rounds"
  shows "(\<forall>r sent. serialWrite data usNBytes rounds = Some (r, sent) \<longrightarrow>
      (\<exists>rest. data = sent @ rest \<and> (r \<longleftrightarrow> rest = [])))
    \<and> (length data \<le> progress_rounds rounds \<longrightarrow> serialWrite data usNBytes rounds \<noteq> None)"
proof -
  have len: "length data < 2 ^ 64"
    using unat_bound [of usNBytes] assms(1) by simp
  show ?thesis
    using serialWrite_loop_sends [of 0 "length data" data rounds] serialWrite_loop_ends [of "length data" rounds data 0]
      len assms by (auto simp: serialWrite_def)
qed

theorem serialWrite_sends_all_witness:
  "serialWrite [1, 2, 3] 3 [Wrote 2, Write_EINTR, Wrote 1] = Some (True, [1, 2, 3])
   \<and> (\<exists>rest. [1, 2, 3] = ([1, 2, 3] :: byte list) @ rest \<and> (True \<longleftrightarrow> rest = []))"
proof -
  have run: "serialWrite [1, 2, 3] 3 [Wrote 2, Write_EINTR, Wrote 1] = Some (True, [1, 2, 3])"
    by (simp add: serialWrite_def serialWrite_loop.simps size_sub_le)
  show ?thesis
    using serialWrite_sends_all [of 3 "[1, 2, 3]" "[Wrote 2, Write_EINTR, Wrote 1]"] run by simp
qed

section \<open>Opening\<close>

text \<open>
  What the settings mean, by the table of the Linux terminal driver: the speed code in \<^verbatim>\<open>c_cflag\<close> (or in one
  of the speed fields) is an index into the rates in bits per second, those beyond 38400 being marked
  by \<^verbatim>\<open>CBAUDEX\<close>.
\<close>

definition baud_table :: "nat list" where
  "baud_table = [0, 50, 75, 110, 134, 150, 200, 300, 600, 1200, 1800, 2400, 4800, 9600, 19200, 38400,
     57600, 115200, 230400]"

definition line_rate :: "32 word \<Rightarrow> nat" where
  "line_rate c =
     (if c AND CBAUDEX = 0 then baud_table ! unat (c AND CBAUD)
      else baud_table ! (unat (c AND CBAUD AND NOT CBAUDEX) + 15))"

definition char_size :: "32 word \<Rightarrow> nat" where
  "char_size c = (if c AND CS8 = 0 then 5 else if c AND CS8 = 16 then 6 else if c AND CS8 = CS7 then 7 else 8)"

text \<open>
  C31: A port opened with parameters that the code knows gets exactly those settings: the terminal driver
  runs the line at the given number of bits per second in both directions, with that many data bits
  and that parity.  With any other number of data bits or speed the port is reported as not
  opened, but its descriptor stays open and nothing refers to it any more.  (The system calls that
  open the port and set its speed and settings succeed.)
\<close>

theorem serial_settings:
  assumes "0 \<le> sc_open sc portName" "sc_tcgetattr sc (sc_open sc portName) = Some old"
    and "sc_cfsetispeed sc = 0" "sc_cfsetospeed sc = 0" "sc_tcsetattr sc = 0"
  shows "case ComUtil_new sc portName baudRate dataBits parity os of (u, os') \<Rightarrow>
    sc_open sc portName \<in> so_open os' \<and>
    (if dataBits \<in> {7, 8} \<and> baudRate \<in> {9600, 19200, 38400, 57600, 115200}
     then cu_comFd u = sc_open sc portName \<and>
       (\<exists>tio. so_settings os' (sc_open sc portName) = Some tio
          \<and> char_size (c_cflag tio) = unat dataBits
          \<and> (c_cflag tio AND PARENB \<noteq> 0 \<longleftrightarrow> parity \<noteq> MB_PAR_NONE)
          \<and> (c_cflag tio AND PARODD \<noteq> 0 \<longleftrightarrow> parity = MB_PAR_ODD)
          \<and> line_rate (c_cflag tio) = baudRate
          \<and> line_rate (c_ispeed tio) = baudRate \<and> line_rate (c_ospeed tio) = baudRate)
     else cu_comFd u = -1 \<and> so_settings os' = so_settings os)"
proof (cases "dataBits \<in> {7, 8} \<and> baudRate \<in> {9600, 19200, 38400, 57600, 115200}")
  case True
  show ?thesis
    using True assms
    by (cases parity)
      (auto simp: ComUtil_new_def serialInit_def Let_def serialEnable_def parity_flags_def termios_bits
        data_bits_flags_def baud_speed_def termios_speeds cfsetispeed_def cfsetospeed_def line_rate_def
        baud_table_def char_size_def)
next
  case False
  then have "data_bits_flags dataBits = None \<or> baud_speed baudRate = None"
    by (auto simp: data_bits_flags_def baud_speed_def)
  then show ?thesis
    using False assms
    by (auto simp: ComUtil_new_def serialInit_def Let_def split: option.splits)
qed

definition good_calls :: serial_calls where
  "good_calls = \<lparr>sc_open = (\<lambda>_. 4), sc_tcgetattr = (\<lambda>_. Some \<lparr>c_iflag = 0, c_cflag = 0, c_ispeed = 0, c_ospeed = 0\<rparr>),
     sc_cfsetispeed = 0, sc_cfsetospeed = 0, sc_tcsetattr = 0\<rparr>"

definition no_ports :: serial_os where
  "no_ports = \<lparr>so_open = {}, so_settings = (\<lambda>_. None), so_oldTIO = None\<rparr>"

theorem serial_settings_witness:
  "(\<exists>tio. so_settings (snd (ComUtil_new good_calls ''/dev/ttyS1'' 19200 8 MB_PAR_ODD no_ports)) 4 = Some tio
      \<and> line_rate (c_cflag tio) = 19200 \<and> char_size (c_cflag tio) = 8 \<and> c_cflag tio AND PARODD \<noteq> 0)
   \<and> cu_comFd (fst (ComUtil_new good_calls ''/dev/ttyS1'' 19200 8 MB_PAR_ODD no_ports)) = 4
   \<and> cu_comFd (fst (ComUtil_new good_calls ''/dev/ttyS1'' 4800 8 MB_PAR_ODD no_ports)) = -1
   \<and> 4 \<in> so_open (snd (ComUtil_new good_calls ''/dev/ttyS1'' 4800 8 MB_PAR_ODD no_ports))"
  using serial_settings [where sc = good_calls and portName = "''/dev/ttyS1''" and baudRate = 19200 and dataBits = 8
      and parity = MB_PAR_ODD and os = no_ports]
    serial_settings [where sc = good_calls and portName = "''/dev/ttyS1''" and baudRate = 4800 and dataBits = 8
      and parity = MB_PAR_ODD and os = no_ports]
  by (auto simp: good_calls_def split: prod.splits)

end
