(* ===== verification/Com_Port.thy ===== *)
theory Com_Port
  imports Serial_Port Net_Buffer Event_Loop Loop_Threads
begin

text \<open>
  \<^verbatim>\<open>src/src/bussiness_logic/ComEntity.cpp\<close>, \<^verbatim>\<open>RS485Codec.h\<close> and \<^verbatim>\<open>ComServer.cpp\<close>: a serial port in an event
  loop, the framing of its messages, and the server that creates ports.  An entity and its loop are
  passed together; the bytes a call writes to the port are part of its result.
\<close>

section \<open>ComEntity\<close>

datatype ComState = kIdle | kOpened | kError

text \<open>The functions of an entity that are bound into callbacks and functors; the number is the entity.\<close>

datatype com_function =
    Com_handleRead
  | Com_handleWrite
  | Com_sendInLoop "byte list"
  | Com_shutdownInLoop
  | Com_writeComplete
  | Com_comEstablished
  | Com_comDestroyed

type_synonym com_cb = "nat \<times> com_function"
type_synonym com_loop = "com_cb EventLoop"
type_synonym 'm com_scheme = "(com_cb, 'm) EventLoop_scheme"

text \<open>
  A message callback is called with the entity, the receive time and the input buffer.  It leaves the buffer,
  and a list of messages that it hands on to the application (entity, time and bytes).  The callbacks of the
  program itself hand nothing on: the codec only logs.
\<close>

type_synonym message = "nat \<times> Timestamp \<times> byte list"
type_synonym message_cb = "nat \<Rightarrow> Timestamp \<Rightarrow> Buffer \<Rightarrow> (Buffer \<times> message list) outcome"

record ComEntity =
  ce_id :: nat
  ce_util :: ComUtil
  ce_state :: ComState
  ce_channel :: chan_addr
  ce_messageCallback :: "message_cb option"
  ce_writeCompleteCallback :: bool
  ce_inputBuffer :: Buffer
  ce_outputBuffer :: Buffer

definition defaultMessageCallback :: message_cb where
  "defaultMessageCallback com receiveTime buf = Inr (retrieveAll buf, [])"

text \<open>
  The constructor; \<open>loop\<close> is the pointer to the loop, \<open>chan\<close> the address of the new channel in the heap
  \<open>w\<close>.
\<close>

definition ComEntity_new ::
  "serial_calls \<Rightarrow> nat \<Rightarrow> nat \<Rightarrow> chan_addr \<Rightarrow> string \<Rightarrow> 8 word \<Rightarrow> nat \<Rightarrow> eMBParity
   \<Rightarrow> serial_os \<Rightarrow> (com_cb loop_cb, 'm) chan_heap_scheme
   \<Rightarrow> (ComEntity \<times> serial_os \<times> (com_cb loop_cb, 'm) chan_heap_scheme) outcome" where
  "ComEntity_new sc loop i chan portName dataBits baudRate parity os w =
     (let (u, os) = ComUtil_new sc portName baudRate dataBits parity os;
          c = Channel_new loop (cu_comFd u);
          opened = ch_fd c \<ge> 0;
          c = (if opened
               then setWriteCallback (Some (User (i, Com_handleWrite)))
                      (setReadCallback (Some (User (i, Com_handleRead))) c)
               else c)
      in seq Buffer_new (\<lambda>inb. seq Buffer_new (\<lambda>outb.
           Inr (\<lparr>ce_id = i, ce_util = u, ce_state = (if opened then kOpened else kError), ce_channel = chan,
                 ce_messageCallback = None, ce_writeCompleteCallback = False,
                 ce_inputBuffer = inb, ce_outputBuffer = outb\<rparr>, os, put_chan chan c w))))"

definition com_setState :: "ComState \<Rightarrow> ComEntity \<Rightarrow> ComEntity" where
  "com_setState s ce = ce\<lparr>ce_state := s\<rparr>"

definition com_setMessageCallback :: "message_cb option \<Rightarrow> ComEntity \<Rightarrow> ComEntity" where
  "com_setMessageCallback cb ce = ce\<lparr>ce_messageCallback := cb\<rparr>"

definition com_setWriteCompleteCallback :: "bool \<Rightarrow> ComEntity \<Rightarrow> ComEntity" where
  "com_setWriteCompleteCallback cb ce = ce\<lparr>ce_writeCompleteCallback := cb\<rparr>"

text \<open>\<^verbatim>\<open>start\<close>, \<^verbatim>\<open>stop\<close>, \<^verbatim>\<open>handleClose\<close>, \<^verbatim>\<open>handleError\<close>, \<^verbatim>\<open>handleWrite\<close> and \<^verbatim>\<open>comDestroyed\<close> have empty bodies.\<close>

definition com_start :: "ComEntity \<Rightarrow> ComEntity" where "com_start ce = ce"
definition com_stop :: "ComEntity \<Rightarrow> ComEntity" where "com_stop ce = ce"
definition com_handleClose :: "ComEntity \<Rightarrow> ComEntity" where "com_handleClose ce = ce"
definition com_handleError :: "ComEntity \<Rightarrow> ComEntity" where "com_handleError ce = ce"
definition com_handleWrite :: "ComEntity \<Rightarrow> ComEntity" where "com_handleWrite ce = ce"
definition comDestroyed :: "ComEntity \<Rightarrow> ComEntity" where "comDestroyed ce = ce"

text \<open>\<^verbatim>\<open>handleRead\<close>, with what the message callback hands on.\<close>

definition com_handleRead :: "readv_result \<Rightarrow> Timestamp \<Rightarrow> ComEntity \<Rightarrow> (ComEntity \<times> message list) outcome" where
  "com_handleRead res receiveTime ce =
     seq (readFd (ce_inputBuffer ce) res) (\<lambda>(n, savedErrno, buf).
       let ce = ce\<lparr>ce_inputBuffer := buf\<rparr> in
       if n > 0 then
         (case ce_messageCallback ce of
            Some cb \<Rightarrow> seq (cb (ce_id ce) receiveTime buf) (\<lambda>(buf, ms). Inr (ce\<lparr>ce_inputBuffer := buf\<rparr>, ms))
          | None \<Rightarrow> Inr (ce, []))
       else if n = 0 then Inr (com_handleClose ce, [])
       else Inr (com_handleError ce, []))"

text \<open>
  \<open>write fd data\<close> is what \<^verbatim>\<open>write\<close> returns.  The result: the loop (whose list of functors may have grown)
  and the bytes written.
\<close>

type_synonym write_call = "int \<Rightarrow> byte list \<Rightarrow> int"

definition sendInLoop ::
  "write_call \<Rightarrow> int \<Rightarrow> byte list \<Rightarrow> ComEntity \<Rightarrow> 'm com_scheme \<Rightarrow> ('m com_scheme \<times> byte list) outcome" where
  "sendInLoop write tid data ce w =
     (if ce_state ce = kOpened then Inr (w, [])
      else with_chan (ce_channel ce) w (\<lambda>c.
        if \<not> isWriting c \<and> readableBytes (ce_outputBuffer ce) = 0 then
          let nwrote = write (ch_fd c) data in
          if nwrote \<ge> 0 then
            let remaining = size_sub (length data) (nat nwrote);
                w = (if remaining = 0 \<and> ce_writeCompleteCallback ce
                     then queueInLoop tid (User (ce_id ce, Com_writeComplete)) w else w)
            in Inr (w, take (nat nwrote) data)
          else Inr (w, [])
        else Inr (w, [])))"

definition shutdownInLoop :: "ComEntity \<Rightarrow> ComEntity" where
  "shutdownInLoop ce = ce"

definition com_shutdown :: "int \<Rightarrow> ComEntity \<Rightarrow> 'm com_scheme \<Rightarrow> ComEntity \<times> 'm com_scheme" where
  "com_shutdown tid ce w =
     (if ce_state ce = kOpened
      then let ce = com_setState kIdle ce
           in if isInLoopThread tid w then (shutdownInLoop ce, w)
              else (ce, queueInLoop tid (User (ce_id ce, Com_shutdownInLoop)) w)
      else (ce, w))"

text \<open>The three functions \<^verbatim>\<open>send\<close>: a range of bytes, a \<^verbatim>\<open>StringPiece\<close>, and a buffer, which is emptied.\<close>

definition send_data ::
  "write_call \<Rightarrow> int \<Rightarrow> byte list \<Rightarrow> ComEntity \<Rightarrow> 'm com_scheme \<Rightarrow> ('m com_scheme \<times> byte list) outcome" where
  "send_data write tid data ce w =
     (if ce_state ce = kOpened then
        if isInLoopThread tid w then sendInLoop write tid data ce w
        else Inr (queueInLoop tid (User (ce_id ce, Com_sendInLoop data)) w, [])
      else Inr (w, []))"

definition send_piece ::
  "write_call \<Rightarrow> int \<Rightarrow> StringPiece \<Rightarrow> ComEntity \<Rightarrow> 'm com_scheme \<Rightarrow> ('m com_scheme \<times> byte list) outcome" where
  "send_piece write tid message ce w =
     (if ce_state ce = kOpened then
        seq (mem_read (sp_mem message) 0 (size_of_int (sp_len message))) (\<lambda>bytes.
          if isInLoopThread tid w then sendInLoop write tid bytes ce w
          else Inr (queueInLoop tid (User (ce_id ce, Com_sendInLoop bytes)) w, []))
      else Inr (w, []))"

definition send_buffer ::
  "write_call \<Rightarrow> int \<Rightarrow> Buffer \<Rightarrow> ComEntity \<Rightarrow> 'm com_scheme \<Rightarrow> ('m com_scheme \<times> byte list \<times> Buffer) outcome" where
  "send_buffer write tid buf ce w =
     (if ce_state ce = kOpened then
        if isInLoopThread tid w then
          seq (mem_read (buf_data buf) (peek buf) (readableBytes buf)) (\<lambda>bytes.
          seq (sendInLoop write tid bytes ce w) (\<lambda>(w, sent).
            Inr (w, sent, retrieveAll buf)))
        else
          seq (retrieveAllAsString buf) (\<lambda>(s, buf).
            Inr (queueInLoop tid (User (ce_id ce, Com_sendInLoop s)) w, [], buf))
      else Inr (w, [], buf))"

definition comEstablished ::
  "com_cb loop_env \<Rightarrow> ComEntity \<Rightarrow> 'm com_scheme \<Rightarrow> 'm com_scheme outcome" where
  "comEstablished env ce w =
     cassert (ce_state ce = kOpened)
       (with_chan (ce_channel ce) w (\<lambda>c.
          enableReading (EventLoop_updateChannel env) (ce_channel ce)
            (put_chan (ce_channel ce) (ch_do_tie (ce_id ce) c) w)))"

text \<open>
  The destructor has no body; the members go: the buffers and the \<^verbatim>\<open>Channel\<close>, but the descriptor stays open and
  nothing is said to the loop.  It runs when the last shared pointer to the entity is gone.
\<close>

definition ComEntity_destroy ::
  "ComEntity \<Rightarrow> ('cb, 'm) chan_heap_scheme \<Rightarrow> ('cb, 'm) chan_heap_scheme outcome" where
  "ComEntity_destroy ce w = Channel_destroy (ce_channel ce) (w\<lparr>owners := owners w - {ce_id ce}\<rparr>)"

section \<open>RS485Codec\<close>

definition codec_onMessage :: message_cb where
  "codec_onMessage com receiveTime buf = seq (retrieveAllAsString buf) (\<lambda>(s, buf). Inr (buf, []))"

definition codec_frame :: "host_order \<Rightarrow> StringPiece \<Rightarrow> Buffer outcome" where
  "codec_frame h message =
     seq Buffer_new (\<lambda>buf.
     seq (buf_append buf (sp_mem message) (size_of_int (sp_len message))) (\<lambda>buf.
       let len = (word_of_int (sp_len message) :: 32 word);
           be32 = hostToNetwork32 h len
       in prepend buf (object_bytes h 4 (unat be32)) 4))"

definition codec_send ::
  "host_order \<Rightarrow> write_call \<Rightarrow> int \<Rightarrow> StringPiece \<Rightarrow> ComEntity \<Rightarrow> 'm com_scheme \<Rightarrow> ('m com_scheme \<times> byte list \<times> Buffer) outcome"
where
  "codec_send h write tid message ce w =
     seq (codec_frame h message) (\<lambda>buf. send_buffer write tid buf ce w)"

section \<open>ComServer\<close>

text \<open>
  The server with what its operations reach: the pool of loops, the loops by address, the entities by
  name, and the serial ports of the system.
\<close>

record ComServer =
  sv_name :: string
  sv_threadPool :: EventLoopThreadPool
  sv_messageCallback :: message_cb
  sv_writeCompleteCallback :: bool
  sv_started :: bool
  sv_nextEntityId :: nat
  sv_comEntities :: "string \<Rightarrow> ComEntity option"
  sv_loops :: "loop_addr \<Rightarrow> com_loop"
  sv_os :: serial_os

definition ComServer_new :: "loop_addr \<Rightarrow> string \<Rightarrow> (loop_addr \<Rightarrow> com_loop) \<Rightarrow> serial_os \<Rightarrow> ComServer" where
  "ComServer_new loop nameArg loops os =
     \<lparr>sv_name = nameArg, sv_threadPool = EventLoopThreadPool_new loop, sv_messageCallback = codec_onMessage,
      sv_writeCompleteCallback = False, sv_started = False, sv_nextEntityId = 1,
      sv_comEntities = (\<lambda>_. None), sv_loops = loops, sv_os = os\<rparr>"

definition sv_setMessageCallback :: "message_cb \<Rightarrow> ComServer \<Rightarrow> ComServer" where
  "sv_setMessageCallback cb sv = sv\<lparr>sv_messageCallback := cb\<rparr>"

definition sv_setWriteCompleteCallback :: "bool \<Rightarrow> ComServer \<Rightarrow> ComServer" where
  "sv_setWriteCompleteCallback cb sv = sv\<lparr>sv_writeCompleteCallback := cb\<rparr>"

definition ComServer_setThreadNum :: "int \<Rightarrow> ComServer \<Rightarrow> ComServer outcome" where
  "ComServer_setThreadNum numThreads sv =
     cassert (0 \<le> numThreads) (Inr (sv\<lparr>sv_threadPool := setThreadNum numThreads (sv_threadPool sv)\<rparr>))"

definition ComServer_start :: "(nat \<Rightarrow> loop_addr) \<Rightarrow> bool \<Rightarrow> ComServer \<Rightarrow> ComServer outcome" where
  "ComServer_start new_loop cb sv =
     (if \<not> sv_started sv
      then seq (pool_start new_loop cb (sv_threadPool sv)) (\<lambda>(pool, _).
             Inr (sv\<lparr>sv_started := True, sv_threadPool := pool\<rparr>))
      else Inr sv)"

definition createComEntityAndInsert ::
  "com_cb loop_env \<Rightarrow> serial_calls \<Rightarrow> int \<Rightarrow> chan_addr \<Rightarrow> string \<Rightarrow> 8 word \<Rightarrow> nat \<Rightarrow> eMBParity
   \<Rightarrow> ComServer \<Rightarrow> ComServer outcome" where
  "createComEntityAndInsert env sc tid chan entityName dataBits baudRate parity sv =
     (case sv_comEntities sv entityName of
        Some _ \<Rightarrow> Inr sv
      | None \<Rightarrow>
          seq (getNextLoop (sv_threadPool sv)) (\<lambda>(pool, ioLoop).
          let i = sv_nextEntityId sv;
              sv = sv\<lparr>sv_threadPool := pool, sv_nextEntityId := sv_nextEntityId sv + 1\<rparr>;
              w = sv_loops sv ioLoop
          in seq (ComEntity_new sc (el_this w) i chan ''/dev/ttyS0'' 8 9600 MB_PAR_NONE (sv_os sv) w) (\<lambda>(ce, os, w).
             let w = w\<lparr>owners := insert i (owners w)\<rparr>;
                 ce = com_setMessageCallback (Some (sv_messageCallback sv)) ce;
                 ce = com_setWriteCompleteCallback (sv_writeCompleteCallback sv) ce;
                 sv = sv\<lparr>sv_comEntities := (sv_comEntities sv)(entityName \<mapsto> ce), sv_os := os\<rparr>
             in seq (if isInLoopThread tid w then comEstablished env ce w
                     else Inr (queueInLoop tid (User (i, Com_comEstablished)) w)) (\<lambda>w.
                  Inr (sv\<lparr>sv_loops := (sv_loops sv)(ioLoop := w)\<rparr>)))))"

text \<open>
  The destructor takes every entity out and lets its loop run \<^verbatim>\<open>comDestroyed\<close>, which does nothing.  In the
  loop's own thread that leaves no pointer to the entity, which is deleted; otherwise the queued functor
  still owns it.  \<open>names\<close> are the keys of the map in order, \<open>home\<close> the loop of an entity.
\<close>

fun ComServer_destroy :: "(nat \<Rightarrow> loop_addr) \<Rightarrow> int \<Rightarrow> string list \<Rightarrow> ComServer \<Rightarrow> ComServer outcome" where
  "ComServer_destroy home tid [] sv = Inr sv"
| "ComServer_destroy home tid (nm # names) sv =
     (case sv_comEntities sv nm of
        None \<Rightarrow> ComServer_destroy home tid names sv
      | Some ce \<Rightarrow>
          let l = home (ce_id ce); w = sv_loops sv l
          in seq (if isInLoopThread tid w then ComEntity_destroy (comDestroyed ce) w
                  else Inr (queueInLoop tid (User (ce_id ce, Com_comDestroyed)) w)) (\<lambda>w.
             ComServer_destroy home tid names
               (sv\<lparr>sv_comEntities := (sv_comEntities sv)(nm := None), sv_loops := (sv_loops sv)(l := w)\<rparr>)))"

section \<open>Framing\<close>

lemma codec_frame_ok:
  assumes "length bytes < 2 ^ 31"
  shows "\<exists>buf. codec_frame h (StringPiece_string bytes) = Inr buf \<and> buf_ok buf
    \<and> contents buf = be_bytes 4 (length bytes) @ bytes"
proof -
  obtain b where b: "Buffer_new = Inr b" by (simp add: Buffer_new_eq)
  have len: "int_of_size (length bytes) = int (length bytes)" "size_of_int (int (length bytes)) = length bytes"
    using assms by (simp_all add: int_of_size_small size_of_int_nat)
  have "buf_room b (length bytes)"
    using assms b by (auto simp: Buffer_new_eq buf_room_def vec_max_def)
  then obtain b1 where b1: "buf_append b bytes (length bytes) = Inr b1" "buf_ok b1" "contents b1 = bytes"
      "readerIndex b1 = 8"
    using buf_append_ok [of b "length bytes" bytes] Buffer_new_ok [OF b] by auto
  have unat: "unat (word_of_nat (length bytes) :: 32 word) = length bytes"
    using assms by (simp add: unat_of_nat)
  obtain b2 where "prepend b1 (be_bytes 4 (length bytes)) 4 = Inr b2" "buf_ok b2"
      "contents b2 = be_bytes 4 (length bytes) @ bytes"
    using prepend_ok [OF b1(2), of 4 "be_bytes 4 (length bytes)"] b1(3,4) by auto
  then show ?thesis
    unfolding codec_frame_def b seq_Inr
    using b1(1) len unat by (simp add: StringPiece_string_def wire_bytes32)
qed

text \<open>
  C7: A message is framed by its length.  For a message below 2 GiB, on a host of any byte order, the
  buffer handed to the port holds the length as four bytes, most significant first, followed by the
  message, and a host of any byte order reads the length back and is left with the message.
\<close>

theorem codec_frame_roundtrip:
  assumes "length bytes < 2 ^ 31"
  shows "\<exists>buf rest. codec_frame h (StringPiece_string bytes) = Inr buf
    \<and> contents buf = be_bytes 4 (length bytes) @ bytes
    \<and> readInt32 h' buf = Inr (word_of_nat (length bytes), rest) \<and> contents rest = bytes"
proof -
  obtain buf where buf: "codec_frame h (StringPiece_string bytes) = Inr buf" "buf_ok buf"
      "contents buf = be_bytes 4 (length bytes) @ bytes"
    using codec_frame_ok [OF assms] by blast
  have "unat (word_of_nat (length bytes) :: 32 word) = length bytes"
    using assms by (simp add: unat_of_nat)
  then have "contents buf = be_bytes 4 (unat (word_of_nat (length bytes) :: 32 word)) @ bytes"
    using buf(3) by simp
  then show ?thesis using readInt32_ok [OF buf(2)] buf by metis
qed

theorem codec_frame_roundtrip_witness:
  "\<exists>buf. codec_frame Little_Endian (StringPiece_string [0x41, 0x42]) = Inr buf
     \<and> contents buf = [0, 0, 0, 2, 0x41, 0x42]"
  using codec_frame_roundtrip [of "[0x41, 0x42]" Little_Endian] by (auto simp: be_bytes_def)

section \<open>Sending\<close>

text \<open>
  C38: An opened port never sends anything.  The guard that should stop writing to a port that is not
  opened is inverted: whatever \<^verbatim>\<open>write\<close> would do, a call in the loop thread and the functor of a call
  from another thread write no byte and queue no completion; a framed message below 2 GiB is
  dropped, and its buffer is emptied as if it had been sent.
\<close>

theorem opened_port_sends_nothing:
  assumes "ce_state ce = kOpened" "length bytes < 2 ^ 31" "isInLoopThread tid w"
  shows "sendInLoop write tid data ce w = Inr (w, [])
    \<and> send_data write tid data ce w = Inr (w, [])
    \<and> (\<exists>buf. codec_send h write tid (StringPiece_string bytes) ce w = Inr (w, [], buf) \<and> contents buf = [])"
proof -
  obtain buf where buf: "codec_frame h (StringPiece_string bytes) = Inr buf" "buf_ok buf"
    using codec_frame_ok [OF assms(2)] by blast
  have "mem_read (buf_data buf) (peek buf) (readableBytes buf) = Inr (contents buf)"
    using mem_read_contents [OF buf(2), of "length (contents buf)"] buf(2)
    by (simp add: peek_def length_contents)
  then show ?thesis
    using assms buf retrieveAll_ok [OF buf(2)]
    by (simp add: sendInLoop_def send_data_def codec_send_def send_buffer_def)
qed

definition com_timers :: "com_cb TimerQueue" where
  "com_timers = \<lparr>tq_timerfd = 5, tq_timers = [], tq_activeTimers = {}, tq_callingExpired = False,
     tq_cancelingTimers = {}, tq_heap = (\<lambda>_. None), tq_counter = Atomic_new, tq_settime = None, tq_armed = None\<rparr>"

definition com_loop0 :: com_loop where
  "com_loop0 = \<lparr>chans = (\<lambda>_. None), owners = {}, el_this = 0, el_looping = True, el_quit = False,
     el_eventHandling = False, el_callingPendingFunctors = False, el_iteration = 0, el_threadId = 10,
     el_pollReturnTime = Timestamp_default, el_poller = Poll PollPoller_new, el_timerQueue = com_timers,
     el_wakeupFd = 6, el_wakeupChannel = 9, el_activeChannels = [], el_currentActiveChannel = None,
     el_pendingFunctors = [], el_clock = Timestamp_of 0\<rparr>"

definition empty_buffer0 :: Buffer where
  "empty_buffer0 = \<lparr>buf_data = replicate 1032 0, readerIndex = 8, writerIndex = 8\<rparr>"

definition open_entity :: ComEntity where
  "open_entity = \<lparr>ce_id = 1, ce_util = \<lparr>cu_portName = ''/dev/ttyS0'', cu_baudRate = 9600, cu_dataBits = 8,
       cu_eParity = MB_PAR_NONE, cu_comFd = 4, cu_bRxEnabled = False, cu_bTxEnabled = False\<rparr>,
     ce_state = kOpened, ce_channel = 2, ce_messageCallback = None, ce_writeCompleteCallback = True,
     ce_inputBuffer = empty_buffer0, ce_outputBuffer = empty_buffer0\<rparr>"

theorem opened_port_sends_nothing_witness:
  "\<exists>buf. codec_send Little_Endian (\<lambda>fd data. int (length data)) 10 (StringPiece_string [0x41, 0x42])
       open_entity com_loop0 = Inr (com_loop0, [], buf) \<and> contents buf = []"
  using opened_port_sends_nothing [of open_entity "[0x41, 0x42]" 10 com_loop0 "\<lambda>fd data. int (length data)" "[]"
      Little_Endian]
  by (simp add: open_entity_def com_loop0_def isInLoopThread_def)

section \<open>The server's ports\<close>

text \<open>
  The server opens the same port for every entity, whatever it is asked for.  A new entity on a loop
  of the calling thread is \<^verbatim>\<open>/dev/ttyS0\<close> with 8 data bits, 9600 baud and no parity for every name and all
  parameters; and when that port cannot be opened, the process ends with a failed assertion.
\<close>

theorem server_ignores_parameters:
  assumes "sv_comEntities sv entityName = None" "getNextLoop (sv_threadPool sv) = Inr (pool, ioLoop)"
    and "isInLoopThread tid (sv_loops sv ioLoop)"
  shows "(sc_open sc ''/dev/ttyS0'' < 0 \<longrightarrow>
       createComEntityAndInsert env sc tid chan entityName dataBits baudRate parity sv = Inl Assertion_Failed)
    \<and> (\<forall>sv'. createComEntityAndInsert env sc tid chan entityName dataBits baudRate parity sv = Inr sv' \<longrightarrow>
       (\<exists>ce. sv_comEntities sv' entityName = Some ce \<and> cu_portName (ce_util ce) = ''/dev/ttyS0''
          \<and> cu_dataBits (ce_util ce) = 8 \<and> cu_baudRate (ce_util ce) = 9600
          \<and> cu_eParity (ce_util ce) = MB_PAR_NONE \<and> ce_state ce = kOpened))"
proof -
  obtain u os' where u: "ComUtil_new sc ''/dev/ttyS0'' 9600 8 MB_PAR_NONE (sv_os sv) = (u, os')"
    by (cases "ComUtil_new sc ''/dev/ttyS0'' 9600 8 MB_PAR_NONE (sv_os sv)") auto
  have fields: "cu_portName u = ''/dev/ttyS0''" "cu_dataBits u = 8" "cu_baudRate u = 9600" "cu_eParity u = MB_PAR_NONE"
    using u by (auto simp: ComUtil_new_def serialInit_def Let_def serialEnable_def
        split: if_splits option.splits prod.splits)
  have closed: "cu_comFd u = -1" if "sc_open sc ''/dev/ttyS0'' < 0"
    using u that by (auto simp: ComUtil_new_def serialInit_def Let_def)
  let ?c = "(Channel_new (el_this (sv_loops sv ioLoop)) (cu_comFd u) :: com_cb loop_cb Channel)"
  have thread: "isInLoopThread tid (put_chan chan c (sv_loops sv ioLoop)\<lparr>owners := os\<rparr>)" for c os
    using assms(3) by (simp add: isInLoopThread_def put_chan_def)
  obtain b where b: "Buffer_new = Inr b" by (simp add: Buffer_new_eq)
  show ?thesis
    unfolding createComEntityAndInsert_def assms(1,2) ComEntity_new_def b
    using u fields closed thread
    by (auto simp: Let_def comEstablished_def Channel_new_def outcome_simps cassert_def com_setMessageCallback_def
        com_setWriteCompleteCallback_def split: if_splits)
qed

theorem server_ignores_parameters_witness:
  "createComEntityAndInsert \<lparr>env_rnd = id, env_alloc = (\<lambda>_. 0), env_ctl = (\<lambda>_ _. True)\<rparr>
     \<lparr>sc_open = (\<lambda>_. -1), sc_tcgetattr = (\<lambda>_. None), sc_cfsetispeed = 0, sc_cfsetospeed = 0, sc_tcsetattr = 0\<rparr>
     10 2 ''/dev/ttyS1'' 7 115200 MB_PAR_EVEN (ComServer_new 0 ''ggc'' (\<lambda>_. com_loop0) no_ports) = Inl Assertion_Failed"
  using server_ignores_parameters [of "ComServer_new 0 ''ggc'' (\<lambda>_. com_loop0) no_ports" "''/dev/ttyS1''"
      "EventLoopThreadPool_new 0" 0 10
      "\<lparr>sc_open = (\<lambda>_. -1), sc_tcgetattr = (\<lambda>_. None), sc_cfsetispeed = 0, sc_cfsetospeed = 0, sc_tcsetattr = 0\<rparr>"
      "\<lparr>env_rnd = id, env_alloc = (\<lambda>_. 0), env_ctl = (\<lambda>_ _. True)\<rparr>" 2 7 115200 MB_PAR_EVEN]
  by (simp add: ComServer_new_def getNextLoop_def EventLoopThreadPool_new_def com_loop0_def isInLoopThread_def)

end
