(* ===== verification/Com_Loop.thy ===== *)
theory Com_Loop
  imports Com_Port
begin

text \<open>
  Serial ports in their event loop: the loop of \<open>Event_Loop\<close> runs with the functions of \<open>Com_Port\<close> as its
  user code.  The state adds to the loop the entities that are alive, what the system calls on their
  descriptors return, the bytes written, and the messages that the message callbacks handed on to the
  application.
\<close>

section \<open>The world of a loop with ports\<close>

text \<open>\<open>cw_reads\<close>: for each descriptor, the results of the \<^verbatim>\<open>readv\<close> calls to come.\<close>

record com_world = "com_cb EventLoop" +
  cw_entities :: "nat \<Rightarrow> ComEntity option"
  cw_reads :: "int \<Rightarrow> readv_result list"
  cw_sent :: "(int \<times> byte list) list"
  cw_messages :: "message list"

text \<open>A read with nothing to come fails with \<^verbatim>\<open>EAGAIN\<close>.\<close>

definition next_read :: "int \<Rightarrow> com_world \<Rightarrow> readv_result \<times> com_world" where
  "next_read fd w =
     (case cw_reads w fd of
        [] \<Rightarrow> (Readv_Errno 11, w)
      | r # rs \<Rightarrow> (r, w\<lparr>cw_reads := (cw_reads w)(fd := rs)\<rparr>))"

definition with_entity :: "nat \<Rightarrow> com_world \<Rightarrow> (ComEntity \<Rightarrow> com_world outcome) \<Rightarrow> com_world outcome" where
  "with_entity i w k = (case cw_entities w i of None \<Rightarrow> Inl Dangling_Pointer | Some ce \<Rightarrow> k ce)"

definition put_entity :: "nat \<Rightarrow> ComEntity \<Rightarrow> com_world \<Rightarrow> com_world" where
  "put_entity i ce w = w\<lparr>cw_entities := (cw_entities w)(i \<mapsto> ce)\<rparr>"

definition on_handleRead :: "nat \<Rightarrow> Timestamp \<Rightarrow> com_world \<Rightarrow> com_world outcome" where
  "on_handleRead i t w =
     with_entity i w (\<lambda>ce. with_chan (ce_channel ce) w (\<lambda>c.
       let (res, w) = next_read (ch_fd c) w in
       seq (com_handleRead res t ce) (\<lambda>(ce', ms).
         Inr (put_entity i ce' w\<lparr>cw_messages := cw_messages w @ ms\<rparr>))))"

text \<open>
  The user code of the loop.  \<open>write\<close> is the system call and \<open>wc\<close> the write-complete callback that
  the user of the port sets.
\<close>

fun com_user ::
  "com_cb loop_env \<Rightarrow> write_call \<Rightarrow> (nat \<Rightarrow> com_world \<Rightarrow> com_world outcome)
   \<Rightarrow> com_cb \<Rightarrow> Timestamp option \<Rightarrow> com_world \<Rightarrow> com_world outcome"
where
  "com_user env write wc (i, Com_handleRead) t w =
     on_handleRead i (case t of Some t \<Rightarrow> t | None \<Rightarrow> Timestamp_default) w"
| "com_user env write wc (i, Com_handleWrite) t w =
     with_entity i w (\<lambda>ce. Inr (put_entity i (com_handleWrite ce) w))"
| "com_user env write wc (i, Com_sendInLoop data) t w =
     with_entity i w (\<lambda>ce.
       seq (sendInLoop write (el_threadId w) data ce w) (\<lambda>(w, sent).
         Inr (w\<lparr>cw_sent := cw_sent w @ [(cu_comFd (ce_util ce), sent)]\<rparr>)))"
| "com_user env write wc (i, Com_shutdownInLoop) t w =
     with_entity i w (\<lambda>ce. Inr (put_entity i (shutdownInLoop ce) w))"
| "com_user env write wc (i, Com_writeComplete) t w = wc i w"
| "com_user env write wc (i, Com_comEstablished) t w = with_entity i w (\<lambda>ce. comEstablished env ce w)"
| "com_user env write wc (i, Com_comDestroyed) t w =
     with_entity i w (\<lambda>ce. Inr (put_entity i (comDestroyed ce) w))"

section \<open>Message callbacks that take everything\<close>

text \<open>An input buffer with nothing in it, at the start of its storage.\<close>

definition drained :: "Buffer \<Rightarrow> bool" where
  "drained b \<longleftrightarrow> buf_ok b \<and> readerIndex b = kCheapPrepend \<and> writerIndex b = kCheapPrepend"

text \<open>
  An application that watches a callback: it sets a callback of its own, which hands on what it is called with
  and then does what the other one does.
\<close>

definition watching :: "message_cb \<Rightarrow> message_cb" where
  "watching cb com receiveTime buf =
     seq (cb com receiveTime buf) (\<lambda>(buf', ms). Inr (buf', (com, receiveTime, contents buf) # ms))"

locale message_sink =
  fixes cb :: message_cb
  assumes drains: "buf_ok b \<Longrightarrow> \<exists>b'. cb i t b = Inr (b', []) \<and> drained b'"
begin

lemma handleRead_delivers:
  assumes "ce_messageCallback ce = Some (watching cb)" "drained (ce_inputBuffer ce)" "bs \<noteq> []" "length bs \<le> kExtraBuf"
  shows "\<exists>b. com_handleRead (Readv_Bytes bs) t ce = Inr (ce\<lparr>ce_inputBuffer := b\<rparr>, [(ce_id ce, t, bs)]) \<and> drained b"
proof -
  have "buf_room (ce_inputBuffer ce) (length bs)"
    using assms(2,4) by (simp add: drained_def buf_room_def buf_consts kExtraBuf_def)
  then obtain b1 where b1: "readFd (ce_inputBuffer ce) (Readv_Bytes bs) = Inr (int (length bs), None, b1)" "buf_ok b1"
      "contents b1 = contents (ce_inputBuffer ce) @ bs"
    using readFd_ok assms(2) unfolding drained_def by blast
  obtain b2 where b2: "cb (ce_id ce) t b1 = Inr (b2, [])" "drained b2" using drains [OF b1(2)] by blast
  have "contents (ce_inputBuffer ce) = []" using assms(2) by (simp add: drained_def contents_def)
  then show ?thesis
    using b1 b2 assms(1,3) by (intro exI [of _ b2]) (simp add: com_handleRead_def watching_def)
qed

end

lemma drained_retrieveAll: "buf_ok b \<Longrightarrow> drained (retrieveAll b)"
  using retrieveAll_ok by (simp add: drained_def retrieveAll_def)

interpretation default_sink: message_sink defaultMessageCallback
  by unfold_locales (simp add: defaultMessageCallback_def drained_retrieveAll)

interpretation codec_sink: message_sink codec_onMessage
proof
  fix b i t
  assume ok: "buf_ok b"
  have "mem_read (buf_data b) (peek b) (readableBytes b) = Inr (contents b)"
    using mem_read_contents [OF ok, of "length (contents b)"] ok by (simp add: peek_def length_contents)
  then show "\<exists>b'. codec_onMessage i t b = Inr (b', []) \<and> drained b'"
    using drained_retrieveAll [OF ok]
    by (simp add: codec_onMessage_def retrieveAllAsString_def retriveAsString_def retrieve_def)
qed

section \<open>A port that is ready\<close>

text \<open>Entity \<open>i\<close> with its channel at \<open>p\<close> and its descriptor, as \<^verbatim>\<open>comEstablished\<close> leaves them.\<close>

type_synonym port = "nat \<times> chan_addr \<times> int"

definition read_events :: events where
  "read_events = POLLIN OR POLLPRI OR POLLRDHUP"

definition port_channel :: "nat \<Rightarrow> int \<Rightarrow> com_cb loop_cb Channel \<Rightarrow> bool" where
  "port_channel i fd c \<longleftrightarrow> ch_fd c = fd \<and> ch_tied c \<and> ch_tie c = Some i
     \<and> ch_readCallback c = Some (User (i, Com_handleRead)) \<and> ch_writeCallback c = Some (User (i, Com_handleWrite))
     \<and> ch_closeCallback c = None \<and> ch_errorCallback c = None"

definition port_entity :: "nat \<Rightarrow> chan_addr \<Rightarrow> ComEntity \<Rightarrow> bool" where
  "port_entity i p ce \<longleftrightarrow> ce_id ce = i \<and> ce_channel ce = p \<and> drained (ce_inputBuffer ce)
     \<and> (\<exists>cb. ce_messageCallback ce = Some (watching cb) \<and> message_sink cb)"

definition registered :: "Poller \<Rightarrow> int \<Rightarrow> bool" where
  "registered po fd \<longleftrightarrow> (case po of EPoll ep \<Rightarrow> ep_channels ep fd \<noteq> None | Poll pp \<Rightarrow> False)"

definition port_ready :: "com_world \<Rightarrow> port \<Rightarrow> bool" where
  "port_ready w = (\<lambda>(i, p, fd). (\<exists>ce. cw_entities w i = Some ce \<and> port_entity i p ce)
     \<and> (\<exists>c. chans w p = Some c \<and> port_channel i fd c) \<and> i \<in> owners w \<and> registered (el_poller w) fd)"

text \<open>The parts of the world that handling port \<open>(i, p, fd)\<close> leaves as they are.\<close>

definition only_port :: "port \<Rightarrow> com_world \<Rightarrow> com_world \<Rightarrow> bool" where
  "only_port = (\<lambda>(i, p, fd) w w'.
     (\<forall>j. j \<noteq> i \<longrightarrow> cw_entities w' j = cw_entities w j) \<and> (\<forall>q. q \<noteq> p \<longrightarrow> chans w' q = chans w q)
     \<and> (\<forall>f. f \<noteq> fd \<longrightarrow> cw_reads w' f = cw_reads w f)
     \<and> owners w' = owners w \<and> el_poller w' = el_poller w \<and> el_pollReturnTime w' = el_pollReturnTime w
     \<and> el_pendingFunctors w' = el_pendingFunctors w \<and> el_quit w' = el_quit w)"

lemma on_handleRead_ready:
  assumes "cw_entities w i = Some ce" "port_entity i p ce" "chans w p = Some c" "ch_fd c = fd"
    and "cw_reads w fd = Readv_Bytes bs # rs" "bs \<noteq> []" "length bs \<le> kExtraBuf"
  shows "\<exists>ce'. on_handleRead i t w = Inr (w\<lparr>cw_reads := (cw_reads w)(fd := rs),
        cw_entities := (cw_entities w)(i \<mapsto> ce'), cw_messages := cw_messages w @ [(i, t, bs)]\<rparr>)
    \<and> port_entity i p ce'"
proof -
  obtain cb where cb: "ce_messageCallback ce = Some (watching cb)" "message_sink cb"
    using assms(2) by (auto simp: port_entity_def)
  obtain b where "com_handleRead (Readv_Bytes bs) t ce = Inr (ce\<lparr>ce_inputBuffer := b\<rparr>, [(i, t, bs)])" "drained b"
    using message_sink.handleRead_delivers [OF cb(2,1) _ assms(6,7), of t] assms(2) by (auto simp: port_entity_def)
  then show ?thesis
    using assms cb by (intro exI [of _ "ce\<lparr>ce_inputBuffer := b\<rparr>"])
      (simp add: on_handleRead_def with_entity_def with_chan_def next_read_def put_entity_def port_entity_def)
qed

lemma handle_port:
  assumes "port_ready w (i, p, fd)" "chans w p = Some c" "has (ch_revents c) read_events"
    and "cw_reads w fd = Readv_Bytes bs # rs" "bs \<noteq> []" "length bs \<le> kExtraBuf"
  shows "\<exists>w'. loop_step env (com_user env write wc) rep (At_Handle (p # ps), w) = Inr ((At_Handle ps, w'), [])
    \<and> port_ready w' (i, p, fd) \<and> only_port (i, p, fd) w w' \<and> cw_reads w' fd = rs
    \<and> cw_messages w' = cw_messages w @ [(i, el_pollReturnTime w, bs)]"
proof -
  let ?w = "put_chan p (c\<lparr>ch_eventHandling := True\<rparr>) (w\<lparr>el_currentActiveChannel := Some p\<rparr>)"
  obtain ce where ce: "cw_entities w i = Some ce" "port_entity i p ce" "port_channel i fd c" "i \<in> owners w"
    using assms(1,2) by (auto simp: port_ready_def)
  obtain ce' where ce': "on_handleRead i (el_pollReturnTime w) ?w = Inr (?w\<lparr>cw_reads := (cw_reads w)(fd := rs),
        cw_entities := (cw_entities w)(i \<mapsto> ce'), cw_messages := cw_messages w @ [(i, el_pollReturnTime w, bs)]\<rparr>)"
      "port_entity i p ce'"
    using on_handleRead_ready [of ?w i ce p "c\<lparr>ch_eventHandling := True\<rparr>" fd bs rs] ce assms(4-6)
    by (auto simp: port_channel_def put_chan_def)
  show ?thesis
    using ce ce' assms(1-3)
    by (auto simp: handleEvent_def handleEventWithGuard_def with_chan_def port_channel_def set_handling_def call_if_def
        put_chan_def with_entity_def put_entity_def com_handleWrite_def read_events_def port_ready_def only_port_def)
qed

section \<open>What arrives in an iteration of the loop\<close>

text \<open>A port on which something arrives, the events reported for it and the bytes to be read.\<close>

type_synonym arrival = "port \<times> events \<times> byte list"

definition arrival_chan :: "arrival \<Rightarrow> chan_addr" where
  "arrival_chan = (\<lambda>((i, p, fd), e, bs). p)"

definition arrival_report :: "arrival \<Rightarrow> events \<times> chan_addr" where
  "arrival_report = (\<lambda>((i, p, fd), e, bs). (e, p))"

definition arrival_message :: "Timestamp \<Rightarrow> arrival \<Rightarrow> message" where
  "arrival_message t = (\<lambda>((i, p, fd), e, bs). (i, t, bs))"

definition arrival_ok :: "arrival \<Rightarrow> bool" where
  "arrival_ok = (\<lambda>(q, e, bs). has e read_events \<and> bs \<noteq> [] \<and> length bs \<le> kExtraBuf)"

definition incoming :: "int \<Rightarrow> arrival list \<Rightarrow> readv_result list" where
  "incoming fd arr = map (\<lambda>((i, p, f), e, bs). Readv_Bytes bs) (filter (\<lambda>((i, p, f), e, bs). f = fd) arr)"

lemmas arrival_defs = arrival_chan_def arrival_report_def arrival_message_def

lemma incoming_simps [simp]:
  "incoming fd [] = []"
  "incoming fd (((i, p, f), e, bs) # arr) = (if f = fd then Readv_Bytes bs # incoming fd arr else incoming fd arr)"
  "incoming fd (xs @ ys) = incoming fd xs @ incoming fd ys"
  by (simp_all add: incoming_def)

text \<open>Different ports are different entities with different channels and descriptors.\<close>

definition apart :: "port set \<Rightarrow> bool" where
  "apart P \<longleftrightarrow> inj_on fst P \<and> inj_on (fst \<circ> snd) P \<and> inj_on (snd \<circ> snd) P"

lemma apartD:
  assumes "apart P" "(i, p, fd) \<in> P" "(j, q, f) \<in> P" "(i, p, fd) \<noteq> (j, q, f)"
  shows "i \<noteq> j" "p \<noteq> q" "fd \<noteq> f"
  using assms unfolding apart_def inj_on_def by force+

lemma only_port_ready:
  assumes "only_port (i, p, fd) w w'" "port_ready w (j, q, f)" "i \<noteq> j" "p \<noteq> q"
  shows "port_ready w' (j, q, f)"
  using assms by (simp add: only_port_def port_ready_def)

text \<open>What stays while the events of one iteration are handled.\<close>

definition same_loop :: "com_world \<Rightarrow> com_world \<Rightarrow> bool" where
  "same_loop w w' \<longleftrightarrow> el_poller w' = el_poller w \<and> el_pendingFunctors w' = el_pendingFunctors w \<and> el_quit w' = el_quit w"

lemma handle_ports:
  assumes "apart P" "distinct (map fst arr)" "fst ` set arr \<subseteq> P"
    and "\<forall>q\<in>P. port_ready w q" "\<forall>a\<in>set arr. arrival_ok a"
    and "\<forall>(q, e, bs)\<in>set arr. \<exists>c. chans w (fst (snd q)) = Some c \<and> ch_revents c = e"
    and "\<forall>(i, p, fd)\<in>P. cw_reads w fd = incoming fd arr @ rest fd"
  shows "\<exists>w'. loop_run env (com_user env write wc) (replicate (length arr) (Loop_Thread rep))
        (At_Handle (map arrival_chan arr), w) = Inr ((At_Handle [], w'), [])
    \<and> (\<forall>q\<in>P. port_ready w' q) \<and> same_loop w w' \<and> (\<forall>(i, p, fd)\<in>P. cw_reads w' fd = rest fd)
    \<and> cw_messages w' = cw_messages w @ map (arrival_message (el_pollReturnTime w)) arr"
  using assms(2-7)
proof (induction arr arbitrary: w)
  case Nil
  then show ?case by (simp add: same_loop_def)
next
  case (Cons a arr)
  obtain i p fd e bs where a: "a = ((i, p, fd), e, bs)" by (metis prod_cases3 surj_pair)
  have P: "(i, p, fd) \<in> P" using Cons.prems(2) a by auto
  obtain c where c: "chans w p = Some c" "ch_revents c = e" using Cons.prems(5) a by auto
  have reads: "cw_reads w fd = Readv_Bytes bs # incoming fd arr @ rest fd" using Cons.prems(6) a P by auto
  have ok: "has e read_events" "bs \<noteq> []" "length bs \<le> kExtraBuf" using Cons.prems(4) a by (auto simp: arrival_ok_def)
  obtain w1 where w1: "loop_step env (com_user env write wc) rep (At_Handle (p # map arrival_chan arr), w)
        = Inr ((At_Handle (map arrival_chan arr), w1), [])" "port_ready w1 (i, p, fd)" "only_port (i, p, fd) w w1"
      "cw_reads w1 fd = incoming fd arr @ rest fd" "cw_messages w1 = cw_messages w @ [(i, el_pollReturnTime w, bs)]"
    using handle_port [OF _ c(1) _ reads ok(2,3)] Cons.prems(3) P c(2) ok(1) by blast
  have other: "p \<noteq> q \<and> fd \<noteq> f \<and> port_ready w1 (j, q, f)" if "(j, q, f) \<in> P" "(j, q, f) \<noteq> (i, p, fd)" for j q f
  proof -
    note ne = apartD [OF assms(1) P that(1) that(2) [symmetric]]
    have "port_ready w (j, q, f)" using Cons.prems(3) that(1) by blast
    from only_port_ready [OF w1(3) this ne(1,2)] show ?thesis using ne(2,3) by simp
  qed
  have "\<forall>q\<in>P. port_ready w1 q" using other w1(2) by (metis prod_cases3)
  moreover have "\<forall>(q, e, bs)\<in>set arr. \<exists>c. chans w1 (fst (snd q)) = Some c \<and> ch_revents c = e"
  proof clarify
    fix j q f e' bs'
    assume m: "((j, q, f), e', bs') \<in> set arr"
    then have "(j, q, f) \<noteq> (i, p, fd)" "(j, q, f) \<in> P" using Cons.prems(1,2) a by force+
    with other have "p \<noteq> q" by blast
    then have "chans w1 q = chans w q" using w1(3) by (simp add: only_port_def)
    moreover have "\<exists>c. chans w q = Some c \<and> ch_revents c = e'" using Cons.prems(5) m by auto
    ultimately show "\<exists>c. chans w1 (fst (snd (j, q, f))) = Some c \<and> ch_revents c = e'" by simp
  qed
  moreover have "\<forall>(j, q, f)\<in>P. cw_reads w1 f = incoming f arr @ rest f"
  proof clarify
    fix j q f
    assume m: "(j, q, f) \<in> P"
    show "cw_reads w1 f = incoming f arr @ rest f"
    proof (cases "(j, q, f) = (i, p, fd)")
      case False
      then have "fd \<noteq> f" using other m by blast
      then show ?thesis using w1(3) Cons.prems(6) m a by (auto simp: only_port_def)
    qed (use w1(4) in simp)
  qed
  ultimately obtain w' where w': "loop_run env (com_user env write wc) (replicate (length arr) (Loop_Thread rep))
        (At_Handle (map arrival_chan arr), w1) = Inr ((At_Handle [], w'), [])"
      "\<forall>q\<in>P. port_ready w' q" "same_loop w1 w'" "\<forall>(i, p, fd)\<in>P. cw_reads w' fd = rest fd"
      "cw_messages w' = cw_messages w1 @ map (arrival_message (el_pollReturnTime w1)) arr"
    using Cons.IH [of w1] Cons.prems(1,2,4) by (simp; blast)
  have same: "el_pollReturnTime w1 = el_pollReturnTime w" "same_loop w w1"
    using w1(3) by (auto simp: only_port_def same_loop_def)
  have "loop_run env (com_user env write wc) (replicate (length (a # arr)) (Loop_Thread rep))
        (At_Handle (map arrival_chan (a # arr)), w) = Inr ((At_Handle [], w'), [])"
    using w1(1) w'(1) a by (simp add: arrival_chan_def)
  moreover have "same_loop w w'" using w'(3) same(2) by (simp add: same_loop_def)
  moreover have "cw_messages w' = cw_messages w @ map (arrival_message (el_pollReturnTime w)) (a # arr)"
    using w'(5) same(1) w1(5) a by (simp add: arrival_message_def)
  ultimately show ?case using w'(2,4) by blast
qed

section \<open>Iterations of the loop\<close>

lemma fill_ports:
  assumes "distinct (map arrival_chan arr)"
    and "\<forall>((i, p, fd), e, bs)\<in>set arr. (\<exists>c. chans w p = Some c \<and> port_channel i fd c) \<and> ep_channels ep fd \<noteq> None"
  shows "\<exists>ch. ep_fillActive (map arrival_report arr) ep (w, act) = Inr (w\<lparr>chans := ch\<rparr>, act @ map arrival_chan arr)
    \<and> (\<forall>q c. chans w q = Some c \<longrightarrow> (\<exists>e. ch q = Some (c\<lparr>ch_revents := e\<rparr>)))
    \<and> (\<forall>q. q \<notin> arrival_chan ` set arr \<longrightarrow> ch q = chans w q)
    \<and> (\<forall>(q, e, bs)\<in>set arr. \<exists>c. ch (fst (snd q)) = Some c \<and> ch_revents c = e)"
  using assms
proof (induction arr arbitrary: w act)
  case Nil
  have "chans w q = Some c \<Longrightarrow> \<exists>e. chans w q = Some (c\<lparr>ch_revents := e\<rparr>)" for q c
    by (intro exI [of _ "ch_revents c"]) simp
  then show ?case by (intro exI [of _ "chans w"]) simp
next
  case (Cons a arr)
  obtain i p fd e bs where a: "a = ((i, p, fd), e, bs)" by (metis prod_cases3 surj_pair)
  obtain c where c: "chans w p = Some c" "ch_fd c = fd" "ep_channels ep fd \<noteq> None"
    using Cons.prems(2) a by (auto simp: port_channel_def)
  let ?w = "put_chan p (set_revents e c) w"
  have p: "p \<notin> arrival_chan ` set arr" using Cons.prems(1) a by (simp add: arrival_chan_def)
  have "\<forall>((j, q, f), e, bs)\<in>set arr. (\<exists>d. chans ?w q = Some d \<and> port_channel j f d) \<and> ep_channels ep f \<noteq> None"
  proof clarify
    fix j q f e' bs'
    assume m: "((j, q, f), e', bs') \<in> set arr"
    then have "p \<noteq> q" using p by (force simp: arrival_chan_def)
    then show "(\<exists>d. chans ?w q = Some d \<and> port_channel j f d) \<and> ep_channels ep f \<noteq> None"
      using Cons.prems(2) m by (auto simp: put_chan_def)
  qed
  then obtain ch where ch: "ep_fillActive (map arrival_report arr) ep (?w, act @ [p])
        = Inr (?w\<lparr>chans := ch\<rparr>, (act @ [p]) @ map arrival_chan arr)"
      "\<forall>q c. chans ?w q = Some c \<longrightarrow> (\<exists>e. ch q = Some (c\<lparr>ch_revents := e\<rparr>))"
      "\<forall>q. q \<notin> arrival_chan ` set arr \<longrightarrow> ch q = chans ?w q"
      "\<forall>(q, e, bs)\<in>set arr. \<exists>c. ch (fst (snd q)) = Some c \<and> ch_revents c = e"
    using Cons.IH [of ?w "act @ [p]"] Cons.prems(1) by auto
  have "\<exists>e'. ch q = Some (d\<lparr>ch_revents := e'\<rparr>)" if d: "chans w q = Some d" for q d
  proof (cases "q = p")
    case True
    then show ?thesis using p ch(3) c(1) d by (intro exI [of _ e]) (simp add: put_chan_def)
  next
    case False
    then show ?thesis using ch(2) d by (simp add: put_chan_def)
  qed
  moreover have "ch p = Some (c\<lparr>ch_revents := e\<rparr>)" using p ch(3) by (simp add: put_chan_def)
  ultimately show ?case
    using ch c a p by (intro exI [of _ ch]) (auto simp: arrival_chan_def arrival_report_def with_chan_def put_chan_def)
qed

text \<open>
  The ports \<open>P\<close> wait in a loop at the top of its iteration, with room for \<open>n\<close> events in the array of the
  poller and no functor queued.
\<close>

definition ports_wait :: "nat \<Rightarrow> port set \<Rightarrow> com_world \<Rightarrow> bool" where
  "ports_wait n P w \<longleftrightarrow> (\<forall>q\<in>P. port_ready w q) \<and> el_pendingFunctors w = [] \<and> \<not> el_quit w
     \<and> (case el_poller w of EPoll ep \<Rightarrow> n \<le> ep_eventsSize ep | Poll pp \<Rightarrow> False)"

definition round_ok :: "nat \<Rightarrow> port set \<Rightarrow> poll_report \<Rightarrow> arrival list \<Rightarrow> bool" where
  "round_ok n P rep arr \<longleftrightarrow> distinct (map fst arr) \<and> fst ` set arr \<subseteq> P \<and> length arr \<le> n
     \<and> (\<forall>a\<in>set arr. arrival_ok a) \<and> rep_epoll rep = Some (map arrival_report arr)"

lemma round_chans_distinct:
  assumes "apart P" "round_ok n P rep arr"
  shows "distinct (map arrival_chan arr)"
proof -
  have "distinct (map (fst \<circ> snd) (map fst arr))"
    using assms unfolding round_ok_def apart_def
    by (subst distinct_map) (auto intro: inj_on_subset)
  moreover have "map arrival_chan arr = map (fst \<circ> snd) (map fst arr)"
    by (auto simp: arrival_chan_def)
  ultimately show ?thesis by (simp only:)
qed

lemma poll_ports:
  assumes "apart P" "ports_wait n P w" "round_ok n P rep arr"
  shows "\<exists>w'. loop_poll rep w = Inr (At_Handle (map arrival_chan arr), w')
    \<and> ports_wait n P w' \<and> (\<forall>(q, e, bs)\<in>set arr. \<exists>c. chans w' (fst (snd q)) = Some c \<and> ch_revents c = e)
    \<and> cw_reads w' = cw_reads w \<and> cw_messages w' = cw_messages w \<and> el_pollReturnTime w' = rep_time rep"
proof -
  obtain ep where ep: "el_poller w = EPoll ep" "n \<le> ep_eventsSize ep"
    using assms(2) by (auto simp: ports_wait_def split: Poller.splits)
  let ?w = "w\<lparr>el_activeChannels := []\<rparr>"
  have "\<forall>((i, p, fd), e, bs)\<in>set arr. (\<exists>c. chans ?w p = Some c \<and> port_channel i fd c) \<and> ep_channels ep fd \<noteq> None"
    using assms(2,3) ep(1) by (fastforce simp: ports_wait_def round_ok_def port_ready_def registered_def)
  from fill_ports [OF round_chans_distinct [OF assms(1,3)] this, of "[]"]
  obtain ch where ch: "ep_fillActive (map arrival_report arr) ep (?w, []) = Inr (?w\<lparr>chans := ch\<rparr>, map arrival_chan arr)"
      "\<forall>q c. chans w q = Some c \<longrightarrow> (\<exists>e. ch q = Some (c\<lparr>ch_revents := e\<rparr>))"
      "\<forall>q. q \<notin> arrival_chan ` set arr \<longrightarrow> ch q = chans w q"
      "\<forall>(q, e, bs)\<in>set arr. \<exists>c. ch (fst (snd q)) = Some c \<and> ch_revents c = e"
    by auto
  have poll: "\<exists>ep'. ep_poll (rep_epoll rep) (?w, ep) = Inr (?w\<lparr>chans := ch\<rparr>, ep', map arrival_chan arr)
      \<and> ep_channels ep' = ep_channels ep \<and> n \<le> ep_eventsSize ep'"
  proof (cases "arr = []")
    case True
    then have "ch = chans w" using ch(3) by auto
    then show ?thesis using True assms(3) ep(2) by (simp add: ep_poll_def round_ok_def)
  next
    case False
    then show ?thesis using ch(1) assms(3) ep(2) by (simp add: ep_poll_def round_ok_def Let_def)
  qed
  then obtain ep' where ep': "ep_poll (rep_epoll rep) (?w, ep) = Inr (?w\<lparr>chans := ch\<rparr>, ep', map arrival_chan arr)"
      "ep_channels ep' = ep_channels ep" "n \<le> ep_eventsSize ep'" by blast
  have ready: "port_ready v q" if q: "port_ready w q" and v: "cw_entities v = cw_entities w" "chans v = ch"
      "owners v = owners w" "el_poller v = EPoll ep'" for v q
  proof -
    obtain i p fd where q': "q = (i, p, fd)" by (metis prod_cases3)
    obtain c where c: "chans w p = Some c" "port_channel i fd c" using q by (auto simp: q' port_ready_def)
    obtain e where "ch p = Some (c\<lparr>ch_revents := e\<rparr>)" using ch(2) c(1) by blast
    then show ?thesis
      using q v ep(1) ep'(2) c(2) by (simp add: q' port_ready_def registered_def port_channel_def)
  qed
  show ?thesis
    using ep(1) ep' ch(4) assms(2) ready by (simp add: loop_poll_def Poller_poll_def ports_wait_def)
qed

text \<open>An iteration: the test, the poll, one step for each active channel, and the functors.\<close>

definition round_steps :: "poll_report \<times> arrival list \<Rightarrow> com_cb loop_action list" where
  "round_steps = (\<lambda>(rep, arr). replicate (2 + (length arr + 3)) (Loop_Thread rep))"

definition round_messages :: "poll_report \<times> arrival list \<Rightarrow> message list" where
  "round_messages = (\<lambda>(rep, arr). map (arrival_message (rep_time rep)) arr)"

lemma loop_round:
  assumes "apart P" "ports_wait n P w" "round_ok n P rep arr"
    and "\<forall>(i, p, fd)\<in>P. cw_reads w fd = incoming fd arr @ rest fd"
  shows "\<exists>w'. loop_run env (com_user env write wc) (round_steps (rep, arr)) (At_Test, w) = Inr ((At_Test, w'), [])
    \<and> ports_wait n P w' \<and> (\<forall>(i, p, fd)\<in>P. cw_reads w' fd = rest fd)
    \<and> cw_messages w' = cw_messages w @ round_messages (rep, arr)"
proof -
  let ?user = "com_user env write wc"
  obtain w1 where w1: "loop_poll rep w = Inr (At_Handle (map arrival_chan arr), w1)" "ports_wait n P w1"
      "\<forall>(q, e, bs)\<in>set arr. \<exists>c. chans w1 (fst (snd q)) = Some c \<and> ch_revents c = e"
      "cw_reads w1 = cw_reads w" "cw_messages w1 = cw_messages w" "el_pollReturnTime w1 = rep_time rep"
    using poll_ports [OF assms(1-3)] by blast
  have arr: "distinct (map fst arr)" "fst ` set arr \<subseteq> P" "\<forall>a\<in>set arr. arrival_ok a"
    using assms(3) by (simp_all add: round_ok_def)
  have ready: "\<forall>q\<in>P. port_ready w1 q" using w1(2) by (simp add: ports_wait_def)
  have reads: "\<forall>(i, p, fd)\<in>P. cw_reads w1 fd = incoming fd arr @ rest fd" using assms(4) w1(4) by simp
  obtain w2 where w2: "loop_run env ?user (replicate (length arr) (Loop_Thread rep))
        (At_Handle (map arrival_chan arr), w1) = Inr ((At_Handle [], w2), [])"
      "\<forall>q\<in>P. port_ready w2 q" "same_loop w1 w2" "\<forall>(i, p, fd)\<in>P. cw_reads w2 fd = rest fd"
      "cw_messages w2 = cw_messages w1 @ map (arrival_message (rep_time rep)) arr"
    using handle_ports [OF assms(1) arr(1,2) ready arr(3) w1(3) reads] unfolding w1(6) by blast
  let ?w3 = "w2\<lparr>el_currentActiveChannel := None, el_eventHandling := False, el_callingPendingFunctors := False,
      el_pendingFunctors := []\<rparr>"
  have pend: "el_pendingFunctors w = []" "el_pendingFunctors w1 = []" "el_pendingFunctors w2 = []" "\<not> el_quit w"
    using assms(2) w1(2) w2(3) by (simp_all add: ports_wait_def same_loop_def)
  have start: "loop_run env ?user (replicate 2 (Loop_Thread rep)) (At_Test, w)
      = Inr ((At_Handle (map arrival_chan arr), w1), [])"
    using w1(1) pend by (simp add: numeral_2_eq_2)
  have "loop_run env ?user (replicate 3 (Loop_Thread rep)) (At_Handle [], w2) = Inr ((At_Test, ?w3), [])"
    using pend by (simp add: numeral_3_eq_3)
  then have "loop_run env ?user (round_steps (rep, arr)) (At_Test, w) = Inr ((At_Test, ?w3), [])"
    using start w2(1) unfolding round_steps_def prod.case replicate_add loop_run_append by simp
  moreover have "port_ready ?w3 q = port_ready w2 q" for q by (simp add: port_ready_def)
  then have "ports_wait n P ?w3"
    using w1(2) w2(2,3) pend by (simp add: ports_wait_def same_loop_def)
  ultimately show ?thesis
    using w2(4,5) w1(5) by (intro exI [of _ ?w3]) (simp add: round_messages_def)
qed

text \<open>
  C11: Serial ports in a loop deliver what arrives.  Take any number of established ports on a loop with
  the default poller and no functors queued, with message callbacks that take all of the buffer (the server's codec and the
  default callback do) and that the application watches, and any number of iterations, in each of which the
  poll reports some of the ports, each once, and a read of at most 64 KiB succeeds on each.  The loop thread
  runs these iterations to the end without a fault, and the callbacks have been called with exactly the bytes
  read, each with its port and the time of its poll, in the order of the reports; nothing is left to
  be read and all ports are ready again.
\<close>

theorem ports_deliver:
  assumes "apart P" "ports_wait n P w" "\<forall>(rep, arr)\<in>set rounds. round_ok n P rep arr"
    and "\<forall>(i, p, fd)\<in>P. cw_reads w fd = incoming fd (concat (map snd rounds)) @ rest fd"
  shows "\<exists>w'. loop_run env (com_user env write wc) (concat (map round_steps rounds)) (At_Test, w)
        = Inr ((At_Test, w'), [])
    \<and> ports_wait n P w' \<and> (\<forall>(i, p, fd)\<in>P. cw_reads w' fd = rest fd)
    \<and> cw_messages w' = cw_messages w @ concat (map round_messages rounds)"
  using assms(2-4)
proof (induction rounds arbitrary: w)
  case (Cons r rounds)
  obtain rep arr where r: "r = (rep, arr)" by (cases r) auto
  let ?left = "\<lambda>fd. incoming fd (concat (map snd rounds)) @ rest fd"
  have "round_ok n P rep arr" "\<forall>(i, p, fd)\<in>P. cw_reads w fd = incoming fd arr @ ?left fd"
    using Cons.prems(2,3) r by auto
  from loop_round [OF assms(1) Cons.prems(1) this, of env "write" wc]
  obtain w1 where w1: "loop_run env (com_user env write wc) (round_steps r) (At_Test, w) = Inr ((At_Test, w1), [])"
      "ports_wait n P w1" "\<forall>(i, p, fd)\<in>P. cw_reads w1 fd = ?left fd"
      "cw_messages w1 = cw_messages w @ round_messages r"
    unfolding r by blast
  obtain w' where "loop_run env (com_user env write wc) (concat (map round_steps rounds)) (At_Test, w1)
        = Inr ((At_Test, w'), [])" "ports_wait n P w'" "\<forall>(i, p, fd)\<in>P. cw_reads w' fd = rest fd"
      "cw_messages w' = cw_messages w1 @ concat (map round_messages rounds)"
    using Cons.IH [OF w1(2) _ w1(3)] Cons.prems(2) by auto
  then show ?case using w1(1,4) by (intro exI [of _ w']) (simp add: loop_run_append)
qed (auto simp: split_beta)

section \<open>Ports of the server\<close>

text \<open>A loop of the server with the entities of the server and the reads to come.\<close>

definition com_world_of :: "(nat \<Rightarrow> ComEntity option) \<Rightarrow> (int \<Rightarrow> readv_result list) \<Rightarrow> com_loop \<Rightarrow> com_world" where
  "com_world_of ents reads w = EventLoop.extend w (com_world.fields ents reads [] [])"

lemma com_world_of_simps [simp]:
  "chans (com_world_of ents reads w) = chans w" "owners (com_world_of ents reads w) = owners w"
  "el_poller (com_world_of ents reads w) = el_poller w" "el_quit (com_world_of ents reads w) = el_quit w"
  "el_pendingFunctors (com_world_of ents reads w) = el_pendingFunctors w"
  "el_timerQueue (com_world_of ents reads w) = el_timerQueue w"
  "cw_entities (com_world_of ents reads w) = ents" "cw_reads (com_world_of ents reads w) = reads"
  "cw_messages (com_world_of ents reads w) = []"
  by (simp_all add: com_world_of_def EventLoop.defs com_world.defs)

lemma comEstablished_epoll:
  assumes "comEstablished env ce w = Inr w'" "chans w (ce_channel ce) = Some c" "ch_index c = kNew" "ch_events c = 0"
    and "el_poller w = EPoll ep"
  shows "\<exists>ep'. w' = w\<lparr>chans := (chans w)(ce_channel ce \<mapsto>
        c\<lparr>ch_tie := Some (ce_id ce), ch_tied := True, ch_events := kReadEvent, ch_index := kAdded\<rparr>), el_poller := EPoll ep'\<rparr>
    \<and> ce_state ce = kOpened \<and> ep_eventsSize ep' = ep_eventsSize ep \<and> ep_channels ep' (ch_fd c) \<noteq> None
    \<and> ep_kernel ep' (ch_fd c) = Some (kReadEvent, ce_channel ce)
    \<and> (\<forall>f. ep_channels ep f \<noteq> None \<longrightarrow> ep_channels ep' f \<noteq> None)"
  using assms
  by (auto simp: comEstablished_def outcome_simps with_chan_def put_chan_def ch_do_tie_def enableReading_def set_events_def
      EventLoop_updateChannel_def Poller_updateChannel_def ep_update_def ep_ctl_def Let_def split: if_splits)

text \<open>The constructor, for a descriptor that could be opened.\<close>

lemma ComEntity_new_opened:
  assumes "ComEntity_new sc loop i chan portName dataBits baudRate parity os w = Inr (ce, os', w')"
    and "ce_state ce = kOpened"
  shows "ce_id ce = i \<and> ce_channel ce = chan \<and> drained (ce_inputBuffer ce)
    \<and> w' = put_chan chan ((Channel_new loop (cu_comFd (ce_util ce)))\<lparr>ch_readCallback := Some (User (i, Com_handleRead)),
          ch_writeCallback := Some (User (i, Com_handleWrite))\<rparr>) w"
  using assms
  by (auto simp: ComEntity_new_def Buffer_new_eq drained_def buf_ok_def buf_consts Let_def Channel_new_def
      split: prod.splits if_splits)

text \<open>What \<^verbatim>\<open>createComEntityAndInsert\<close> leaves in a loop of the calling thread.\<close>

lemma created_port:
  assumes "createComEntityAndInsert env sc tid chan nm dataBits baudRate parity sv = Inr sv'"
    and "sv_comEntities sv nm = None" "getNextLoop (sv_threadPool sv) = Inr (pool, l)"
    and "isInLoopThread tid (sv_loops sv l)" "el_poller (sv_loops sv l) = EPoll ep"
  shows "\<exists>ce c ep'. sv_comEntities sv' = (sv_comEntities sv)(nm \<mapsto> ce) \<and> ce_id ce = sv_nextEntityId sv
    \<and> ce_channel ce = chan \<and> ce_messageCallback ce = Some (sv_messageCallback sv) \<and> drained (ce_inputBuffer ce)
    \<and> ce_writeCompleteCallback ce = sv_writeCompleteCallback sv
    \<and> (let w = sv_loops sv' l in chans w chan = Some c \<and> \<not> ch_eventHandling c
        \<and> port_channel (ce_id ce) (cu_comFd (ce_util ce)) c \<and> ce_id ce \<in> owners w \<and> isInLoopThread tid w
        \<and> el_pendingFunctors w = el_pendingFunctors (sv_loops sv l) \<and> el_quit w = el_quit (sv_loops sv l)
        \<and> el_poller w = EPoll ep' \<and> ep_eventsSize ep' = ep_eventsSize ep
        \<and> ep_channels ep' (cu_comFd (ce_util ce)) \<noteq> None
        \<and> ep_kernel ep' (cu_comFd (ce_util ce)) = Some (kReadEvent, chan)
        \<and> (\<forall>f. ep_channels ep f \<noteq> None \<longrightarrow> ep_channels ep' f \<noteq> None)
        \<and> (\<forall>q. q \<noteq> chan \<longrightarrow> chans w q = chans (sv_loops sv l) q)
        \<and> el_timerQueue w = el_timerQueue (sv_loops sv l))"
proof -
  let ?w = "sv_loops sv l" and ?i = "sv_nextEntityId sv"
  obtain ce os w where new: "ComEntity_new sc (el_this ?w) ?i chan ''/dev/ttyS0'' 8 9600 MB_PAR_NONE (sv_os sv) ?w
      = Inr (ce, os, w)"
    using assms(1-3) by (auto simp: createComEntityAndInsert_def Let_def outcome_simps)
  define ce' where
    "ce' = com_setWriteCompleteCallback (sv_writeCompleteCallback sv) (com_setMessageCallback (Some (sv_messageCallback sv)) ce)"
  let ?v = "w\<lparr>owners := insert ?i (owners w)\<rparr>"
  have ce': "ce_state ce' = ce_state ce" "ce_id ce' = ce_id ce" "ce_channel ce' = ce_channel ce" "ce_util ce' = ce_util ce"
      "ce_messageCallback ce' = Some (sv_messageCallback sv)" "ce_inputBuffer ce' = ce_inputBuffer ce"
      "ce_writeCompleteCallback ce' = sv_writeCompleteCallback sv"
    by (simp_all add: ce'_def com_setWriteCompleteCallback_def com_setMessageCallback_def)
  have "isInLoopThread tid w"
    using new assms(4) by (auto simp: ComEntity_new_def Let_def outcome_simps isInLoopThread_def put_chan_def split: prod.splits)
  then obtain v where v: "comEstablished env ce' ?v = Inr v"
      "sv' = sv\<lparr>sv_threadPool := pool, sv_nextEntityId := ?i + 1, sv_comEntities := (sv_comEntities sv)(nm \<mapsto> ce'),
         sv_os := os, sv_loops := (sv_loops sv)(l := v)\<rparr>"
    using assms(1-3) new by (auto simp: createComEntityAndInsert_def Let_def outcome_simps isInLoopThread_def ce'_def)
  then have "ce_state ce = kOpened" using ce'(1) by (simp add: comEstablished_def outcome_simps)
  note ce = ComEntity_new_opened [OF new this]
  let ?c = "(Channel_new (el_this ?w) (cu_comFd (ce_util ce)))\<lparr>ch_readCallback := Some (User (?i, Com_handleRead)),
          ch_writeCallback := Some (User (?i, Com_handleWrite))\<rparr>"
  have "chans ?v (ce_channel ce') = Some ?c" "ch_index ?c = kNew" "ch_events ?c = 0" "el_poller ?v = EPoll ep"
    using ce ce'(3) assms(5) by (simp_all add: put_chan_def Channel_new_def kNew_def)
  from comEstablished_epoll [OF v(1) this] show ?thesis
    using ce ce' v(2) assms(4) by (auto simp: put_chan_def Channel_new_def port_channel_def isInLoopThread_def Let_def)
qed

text \<open>
  C39: Destroying the server leaves its ports registered.  After a port has been created in a loop of the
  calling thread that uses the default poller, and the server is destroyed in that thread, the port's
  \<^verbatim>\<open>Channel\<close> has been deleted but \<^verbatim>\<open>epoll\<close> still waits for its descriptor, which nobody closed, with the
  address of that channel; the next poll that reports the port reads the deleted channel.
\<close>

theorem destroyed_port_dangles:
  assumes "createComEntityAndInsert env sc tid chan nm dataBits baudRate parity sv = Inr sv'"
    and "sv_comEntities sv = (\<lambda>n. None)" "getNextLoop (sv_threadPool sv) = Inr (pool, l)"
    and "isInLoopThread tid (sv_loops sv l)" "el_poller (sv_loops sv l) = EPoll ep" "0 < ep_eventsSize ep"
    and "home (sv_nextEntityId sv) = l"
  shows "\<exists>ce sv'' ep'. sv_comEntities sv' = [nm \<mapsto> ce] \<and> ComServer_destroy home tid [nm] sv' = Inr sv''
    \<and> sv_comEntities sv'' = (\<lambda>n. None) \<and> sv_os sv'' = sv_os sv'
    \<and> chans (sv_loops sv'' l) chan = None \<and> el_poller (sv_loops sv'' l) = EPoll ep'
    \<and> ep_kernel ep' (cu_comFd (ce_util ce)) = Some (kReadEvent, chan)
    \<and> (\<forall>rep e. rep_epoll rep = Some [(e, chan)] \<longrightarrow> loop_poll rep (sv_loops sv'' l) = Inl Dangling_Pointer)"
proof -
  obtain ce c ep' where ce: "sv_comEntities sv' = (sv_comEntities sv)(nm \<mapsto> ce)" "ce_id ce = sv_nextEntityId sv"
      "ce_channel ce = chan" "chans (sv_loops sv' l) chan = Some c" "\<not> ch_eventHandling c"
      "isInLoopThread tid (sv_loops sv' l)" "el_poller (sv_loops sv' l) = EPoll ep'" "ep_eventsSize ep' = ep_eventsSize ep"
      "ep_kernel ep' (cu_comFd (ce_util ce)) = Some (kReadEvent, chan)"
    using created_port [OF assms(1) _ assms(3-5)] assms(2) unfolding Let_def by auto
  let ?w = "sv_loops sv' l" and ?n = "\<lambda>n. None"
  let ?w' = "?w\<lparr>owners := owners ?w - {ce_id ce}, chans := (chans ?w)(chan := None)\<rparr>"
  let ?sv = "sv'\<lparr>sv_comEntities := ?n, sv_loops := (sv_loops sv')(l := ?w')\<rparr>"
  have "ComServer_destroy home tid [nm] sv' = Inr ?sv"
    using ce assms(2,7) by (simp add: ComEntity_destroy_def Channel_destroy_def comDestroyed_def with_chan_def Let_def)
  moreover have "loop_poll rep (sv_loops ?sv l) = Inl Dangling_Pointer" if "rep_epoll rep = Some [(e, chan)]" for rep e
    using that ce(7,8) assms(6) by (simp add: loop_poll_def Poller_poll_def ep_poll_def with_chan_def)
  ultimately show ?thesis
    using ce assms(2) by (intro exI [of _ ce] exI [of _ ?sv] exI [of _ ep']) simp
qed

text \<open>
  Both theorems at work on a server that opens one port: it delivers what arrives, and is left
  registered when the server is destroyed.
\<close>

definition one_port_calls :: serial_calls where
  "one_port_calls = \<lparr>sc_open = (\<lambda>n. 7), sc_tcgetattr = (\<lambda>fd. Some \<lparr>c_iflag = 0, c_cflag = 0, c_ispeed = 0, c_ospeed = 0\<rparr>),
     sc_cfsetispeed = 0, sc_cfsetospeed = 0, sc_tcsetattr = 0\<rparr>"

definition epoll_loop :: com_loop where
  "epoll_loop = com_loop0\<lparr>el_poller := EPoll \<lparr>ep_epollfd = 3, ep_eventsSize = 16, ep_channels = (\<lambda>fd. None),
     ep_kernel = (\<lambda>fd. None)\<rparr>\<rparr>"

definition one_port_env :: "com_cb loop_env" where
  "one_port_env = \<lparr>env_rnd = id, env_alloc = bump_alloc, env_ctl = (\<lambda>op fd. True)\<rparr>"

definition one_port_server :: ComServer where
  "one_port_server = sv_setMessageCallback (watching codec_onMessage) (ComServer_new 0 ''ggc'' (\<lambda>l. epoll_loop) no_ports)"

lemma one_port_setup:
  "\<exists>sv. createComEntityAndInsert one_port_env one_port_calls 10 2 ''port'' 8 9600 MB_PAR_NONE one_port_server = Inr sv"
  "sv_comEntities one_port_server = (\<lambda>n. None)" "sv_comEntities one_port_server ''port'' = None"
  "getNextLoop (sv_threadPool one_port_server) = Inr (EventLoopThreadPool_new 0, 0)"
  "isInLoopThread 10 (sv_loops one_port_server 0)" "sv_nextEntityId one_port_server = 1"
  "sv_messageCallback one_port_server = watching codec_onMessage" "sv_loops one_port_server 0 = epoll_loop"
  by (simp_all add: createComEntityAndInsert_def one_port_server_def sv_setMessageCallback_def ComServer_new_def getNextLoop_def EventLoopThreadPool_new_def
      ComEntity_new_def Buffer_new_eq ComUtil_new_def serialInit_def one_port_calls_def serialEnable_def Let_def data_bits_flags_def
      baud_speed_def com_setMessageCallback_def com_setWriteCompleteCallback_def comEstablished_def isInLoopThread_def
      epoll_loop_def com_loop0_def with_chan_def put_chan_def ch_do_tie_def enableReading_def set_events_def Channel_new_def
      EventLoop_updateChannel_def Poller_updateChannel_def ep_update_def ep_ctl_def kNew_def one_port_env_def)

lemma watched_codec: "\<exists>cb. watching codec_onMessage = watching cb \<and> message_sink cb"
  using codec_sink.message_sink_axioms by blast

theorem ports_deliver_witness:
  "\<exists>sv ce w'. createComEntityAndInsert one_port_env one_port_calls 10 2 ''port'' 8 9600 MB_PAR_NONE one_port_server = Inr sv
    \<and> sv_comEntities sv ''port'' = Some ce
    \<and> loop_run one_port_env (com_user one_port_env (\<lambda>fd bs. 0) (\<lambda>i w. Inr w))
        (replicate 6 (Loop_Thread \<lparr>rep_poll = (0, \<lambda>n. 0), rep_epoll = Some [(POLLIN, 2)], rep_time = Timestamp_of 5, rep_clock = Timestamp_of 5\<rparr>))
        (At_Test, com_world_of [1 \<mapsto> ce] (\<lambda>fd. [Readv_Bytes [0x41, 0x42]]) (sv_loops sv 0)) = Inr ((At_Test, w'), [])
    \<and> cw_messages w' = [(1, Timestamp_of 5, [0x41, 0x42])]"
proof -
  obtain sv where sv: "createComEntityAndInsert one_port_env one_port_calls 10 2 ''port'' 8 9600 MB_PAR_NONE one_port_server
      = Inr sv"
    using one_port_setup(1) by blast
  obtain ce where ce: "sv_comEntities sv ''port'' = Some ce" and
      ready: "ports_wait 16 {(1, 2, cu_comFd (ce_util ce))} (com_world_of [1 \<mapsto> ce] (\<lambda>fd. [Readv_Bytes [0x41, 0x42]]) (sv_loops sv 0))"
    using created_port [OF sv one_port_setup(3-5)]
    by (auto simp: watched_codec one_port_setup epoll_loop_def com_loop0_def ports_wait_def port_ready_def port_entity_def registered_def Let_def)
  let ?rep = "\<lparr>rep_poll = (0, \<lambda>n. 0), rep_epoll = Some [(POLLIN, 2)], rep_time = Timestamp_of 5, rep_clock = Timestamp_of 5\<rparr>"
  let ?q = "(1, 2, cu_comFd (ce_util ce))" and ?bs = "[0x41, 0x42]"
  have "round_ok 16 {?q} ?rep [(?q, POLLIN, ?bs)]"
    by (simp add: round_ok_def arrival_ok_def arrival_report_def read_events_def has_def poll_bits kExtraBuf_def)
  then show ?thesis
    using ports_deliver [OF _ ready, of "[(?rep, [(?q, POLLIN, ?bs)])]" "\<lambda>fd. []" one_port_env "\<lambda>fd bs. 0" "\<lambda>i w. Inr w"] sv ce
    by (auto simp: apart_def round_steps_def round_messages_def arrival_message_def)
qed

theorem destroyed_port_dangles_witness:
  "\<exists>sv sv'. createComEntityAndInsert one_port_env one_port_calls 10 2 ''port'' 8 9600 MB_PAR_NONE one_port_server = Inr sv
    \<and> ComServer_destroy (\<lambda>i. 0) 10 [''port''] sv = Inr sv'
    \<and> loop_poll \<lparr>rep_poll = (0, \<lambda>n. 0), rep_epoll = Some [(POLLIN, 2)], rep_time = Timestamp_of 5, rep_clock = Timestamp_of 5\<rparr> (sv_loops sv' 0)
        = Inl Dangling_Pointer"
proof -
  obtain sv where sv: "createComEntityAndInsert one_port_env one_port_calls 10 2 ''port'' 8 9600 MB_PAR_NONE one_port_server
      = Inr sv"
    using one_port_setup(1) by blast
  then show ?thesis
    using destroyed_port_dangles [OF sv one_port_setup(2,4,5), of _ "\<lambda>i. 0"]
    by (auto simp: one_port_setup epoll_loop_def simp del: ComServer_destroy.simps)
qed

end
