(* ===== verification/Loop_Safety.thy ===== *)
theory Loop_Safety
  imports Loop_Timers
begin

text \<open>
  A loop with the default poller never faults by itself: as long as the poller reports channels that exist
  and are registered, and the functions of the users do not fault in states that the loop keeps, no
  assertion of the loop, its channels, its poller or its timer queue fails and no deleted object is used.  The locale
  \<open>safe_loop\<close> states what the users' functions promise.
\<close>

section \<open>What the loop keeps\<close>

text \<open>
  A user keeps the list of functors to functions that do not fault; \<^verbatim>\<open>addTimerInLoop\<close>, which is only queued
  together with the creation of a timer, is left out.  \<open>U\<close> are the users' functions that may be bound.
\<close>

fun safe_cb :: "'u set \<Rightarrow> 'u loop_cb \<Rightarrow> bool" where
  "safe_cb U (Timer_addInLoop a) = False"
| "safe_cb U (User u) = (u \<in> U)"
| "safe_cb U f = True"

definition safe_channel :: "'u set \<Rightarrow> 'u loop_cb Channel \<Rightarrow> bool" where
  "safe_channel U c \<longleftrightarrow>
     (\<forall>f\<in>set_option (ch_readCallback c) \<union> set_option (ch_writeCallback c) \<union> set_option (ch_closeCallback c)
        \<union> set_option (ch_errorCallback c). safe_cb U f)"

definition safe_timers :: "'u set \<Rightarrow> 'u TimerQueue \<Rightarrow> bool" where
  "safe_timers U q \<longleftrightarrow> dom (tq_heap q) \<subseteq> {..<UINT32_MAX} \<and> tr_callback ` ran (tq_heap q) \<subseteq> U"

text \<open>
  The channels \<open>A\<close> exist and are registered, \<open>n\<close> events fit the array of the poller, and \<open>J\<close> holds of what lies
  outside the loop.
\<close>

definition safe_channels :: "chan_addr set \<Rightarrow> nat \<Rightarrow> 'u set \<Rightarrow> ('u, 'm) EventLoop_scheme \<Rightarrow> bool" where
  "safe_channels A n U w \<longleftrightarrow>
     (\<exists>ep. el_poller w = EPoll ep \<and> n \<le> ep_eventsSize ep
        \<and> (\<forall>p\<in>A. \<exists>c. chans w p = Some c \<and> safe_channel U c \<and> ep_channels ep (ch_fd c) \<noteq> None))"

type_synonym ('u, 'm) loop_pred = "('u, 'm) EventLoop_scheme \<Rightarrow> bool"

definition safe_world :: "chan_addr set \<Rightarrow> nat \<Rightarrow> 'u set \<Rightarrow> ('u, 'm) loop_pred \<Rightarrow> ('u, 'm) loop_pred" where
  "safe_world A n U J w \<longleftrightarrow> safe_channels A n U w \<and> list_all (safe_cb U) (el_pendingFunctors w)
     \<and> safe_timers U (el_timerQueue w) \<and> J w"

text \<open>
  What \<^verbatim>\<open>epoll_wait\<close> may report (registered channels, no more than fit the array), what other threads may do,
  and where the loop thread may be.
\<close>

definition report_ok :: "chan_addr set \<Rightarrow> nat \<Rightarrow> poll_report \<Rightarrow> bool" where
  "report_ok A n rep \<longleftrightarrow> (case rep_epoll rep of None \<Rightarrow> True | Some evs \<Rightarrow> snd ` set evs \<subseteq> A \<and> length evs \<le> n)"

fun action_ok :: "chan_addr set \<Rightarrow> nat \<Rightarrow> 'u set \<Rightarrow> 'u loop_action \<Rightarrow> bool" where
  "action_ok A n U (Loop_Thread rep) = report_ok A n rep"
| "action_ok A n U (Queue_From tid f) = safe_cb U f"
| "action_ok A n U (Quit_From tid) = True"

fun pc_ok :: "chan_addr set \<Rightarrow> 'u set \<Rightarrow> 'u loop_pc \<Rightarrow> bool" where
  "pc_ok A U (At_Handle ps) = (set ps \<subseteq> A)"
| "pc_ok A U (At_Functors fs) = list_all (safe_cb U) fs"
| "pc_ok A U pc = True"

definition loop_ok :: "chan_addr set \<Rightarrow> nat \<Rightarrow> 'u set \<Rightarrow> ('u, 'm) loop_pred \<Rightarrow> 'u loop_pc \<times> ('u, 'm) EventLoop_scheme \<Rightarrow> bool" where
  "loop_ok A n U J = (\<lambda>(pc, w). pc_ok A U pc \<and> safe_world A n U J w \<and> tq_inv [] (el_timerQueue w))"

lemma safe_timers_heap:
  "safe_timers U q \<Longrightarrow> tq_heap q' = tq_heap q \<Longrightarrow> safe_timers U q'"
  by (simp add: safe_timers_def)

lemma safe_timers_upd:
  assumes "safe_timers U q" "tq_heap q a = Some t" "tr_callback t' = tr_callback t"
  shows "safe_timers U (q\<lparr>tq_heap := (tq_heap q)(a \<mapsto> t')\<rparr>)"
  using assms by (auto simp: safe_timers_def ran_def image_subset_iff)

lemma reset_expired_safe:
  "reset_expired rnd now es q = Inr q' \<Longrightarrow> safe_timers U q \<Longrightarrow> safe_timers U q'"
proof (induction es arbitrary: q)
  case (Cons e es)
  obtain t where t: "tq_heap q (snd e) = Some t"
    using Cons.prems(1) by (auto simp: deref_def outcome_simps split: option.splits)
  have del: "safe_timers U (q\<lparr>tq_heap := (tq_heap q)(snd e := None)\<rparr>)"
    using Cons.prems(2) by (auto simp: safe_timers_def ran_def image_subset_iff split: if_splits)
  have upd: "safe_timers U (q\<lparr>tq_heap := (tq_heap q)(snd e \<mapsto> Timer_restart rnd now t)\<rparr>)"
    using safe_timers_upd [OF Cons.prems(2) t] by (simp add: Timer_restart_def)
  show ?case
  proof (cases "tr_repeat t \<and> (snd e, tr_sequence t) \<notin> tq_cancelingTimers q")
    case True
    then obtain r b where r: "tq_insert (snd e) (q\<lparr>tq_heap := (tq_heap q)(snd e \<mapsto> Timer_restart rnd now t)\<rparr>) = Inr (r, b)"
        "reset_expired rnd now es r = Inr q'"
      using Cons.prems(1) t by (auto simp: deref_def outcome_simps)
    then have "tq_heap r = (tq_heap q)(snd e \<mapsto> Timer_restart rnd now t)"
      by (auto simp: tq_insert_def outcome_simps Let_def)
    then show ?thesis using Cons.IH [OF r(2)] safe_timers_heap [OF upd] by simp
  next
    case False
    then have "reset_expired rnd now es (q\<lparr>tq_heap := (tq_heap q)(snd e := None)\<rparr>) = Inr q'"
      using Cons.prems(1) t by (auto simp: deref_def outcome_simps)
    then show ?thesis using Cons.IH del by blast
  qed
qed simp

lemma tq_reset_safe:
  assumes "tq_reset rnd es now q = Inr q'" "safe_timers U q"
  shows "safe_timers U q'"
proof -
  obtain x where x: "reset_expired rnd now es q = Inr x" using assms(1) by (auto simp: tq_reset_def outcome_simps)
  have "tq_heap q' = tq_heap x"
    using assms(1) x by (cases "tq_timers x")
      (auto simp: tq_reset_def outcome_simps Let_def resetTimerfd_def split: if_splits)
  then show ?thesis using reset_expired_safe [OF x assms(2)] safe_timers_heap by blast
qed

lemma safe_no_tie:
  assumes "safe_timers U q" "tq_inv [] q"
  shows "\<not> address_tie now q"
proof
  assume "address_tie now q"
  then obtain e where "e \<in> set (tq_timers q)" "UINT32_MAX \<le> snd e" unfolding address_tie_def by blast
  moreover from this(1) have "snd e \<in> dom (tq_heap q)" using assms(2) by (auto simp: tq_inv_def)
  ultimately show False using assms(1) by (auto simp: safe_timers_def)
qed

section \<open>Loops whose users do not fault\<close>

text \<open>
  What the users' functions promise: called in a state that the loop keeps, also from a timer (while the
  timers \<open>fl\<close> are out of the queue), they return and leave such a state.  Of the loop, \<open>J\<close> looks only
  at the descriptors of the channels.
\<close>

locale safe_loop =
  fixes user :: "('u, 'm) user_code"
    and A :: "chan_addr set"
    and n :: nat
    and U :: "'u set"
    and J :: "('u, 'm) loop_pred"
  assumes J_outside: "J w \<Longrightarrow> EventLoop.more w' = EventLoop.more w \<Longrightarrow>
      map_option ch_fd \<circ> chans w' = map_option ch_fd \<circ> chans w \<Longrightarrow> J w'"
    and user_safe: "u \<in> U \<Longrightarrow> safe_world A n U J w \<Longrightarrow> tq_inv fl (el_timerQueue w) \<Longrightarrow>
      \<exists>w'. user u t w = Inr w' \<and> safe_world A n U J w' \<and> keeps_timers (el_timerQueue w) (el_timerQueue w')"
begin

definition world :: "address list \<Rightarrow> ('u, 'm) loop_pred" where
  "world fl w \<longleftrightarrow> safe_world A n U J w \<and> tq_inv fl (el_timerQueue w)"

lemma world_field:
  assumes "world fl w" "safe_channels A n U w'" "list_all (safe_cb U) (el_pendingFunctors w')"
    "el_timerQueue w' = el_timerQueue w" "EventLoop.more w' = EventLoop.more w"
    "map_option ch_fd \<circ> chans w' = map_option ch_fd \<circ> chans w"
  shows "world fl w'"
  using assms J_outside unfolding world_def safe_world_def by auto

lemma world_timers:
  assumes "world fl w" "safe_timers U q" "tq_inv fl' q"
  shows "world fl' (w\<lparr>el_timerQueue := q\<rparr>)"
  using assms J_outside [of w "w\<lparr>el_timerQueue := q\<rparr>"] by (simp add: world_def safe_world_def safe_channels_def)

lemma world_put:
  assumes "world fl w" "chans w p = Some c" "ch_fd d = ch_fd c" "safe_channel U c \<Longrightarrow> safe_channel U d"
  shows "world fl (put_chan p d w)"
proof (rule world_field [OF assms(1)])
  show "safe_channels A n U (put_chan p d w)"
    using assms unfolding world_def safe_world_def safe_channels_def by (fastforce simp: put_chan_def)
qed (use assms in \<open>simp_all add: world_def safe_world_def put_chan_def fun_eq_iff\<close>)

lemma world_chan: "world fl w \<Longrightarrow> p \<in> A \<Longrightarrow> \<exists>c. chans w p = Some c \<and> safe_channel U c"
  by (auto simp: world_def safe_world_def safe_channels_def)

lemma run_timers_safe:
  assumes "world fl w" "snd ` set es \<subseteq> set fl"
  shows "yields (run_timers user es w) (world fl)"
  using assms
proof (induction es arbitrary: w)
  case (Cons e es)
  obtain t where t: "tq_heap (el_timerQueue w) (snd e) = Some t"
    using Cons.prems by (auto simp: world_def tq_inv_def)
  then have "tr_callback t \<in> U"
    using Cons.prems(1) by (auto simp: world_def safe_world_def safe_timers_def ran_def)
  then obtain v where v: "user (tr_callback t) None w = Inr v" "world fl v"
    using user_safe [of "tr_callback t" w fl None] Cons.prems(1) by (auto simp: world_def keeps_timers_def)
  then show ?case using t Cons.IH [OF v(2)] Cons.prems(2) by (simp add: deref_def)
qed simp

lemma loop_timerRead_safe:
  assumes "world [] w"
  shows "yields (loop_timerRead env user w) (world [])"
proof -
  let ?q = "el_timerQueue w" and ?now = "el_clock w"
  let ?due = "due_timers ?now ?q" and ?w = "w\<lparr>el_timerQueue := taken_out ?now ?q\<rparr>"
  have q: "tq_inv [] ?q" "safe_timers U ?q" using assms by (simp_all add: world_def safe_world_def)
  have expired: "loop_timerRead env user w = seq (run_timers user ?due ?w) (timers_finish env ?due ?now)"
    using getExpired_eq(1) [OF q(1), of ?now] safe_no_tie [OF q(2,1)]
    by (simp add: loop_timerRead_def timers_finish_def Let_def due_timers_def taken_out_def)
  have "world (map snd ?due) ?w"
    using world_timers [OF assms safe_timers_heap [OF q(2)] taken_out_inv [OF q(1)]] by (simp add: taken_out_def)
  from run_timers_safe [OF this, of ?due] show ?thesis
    unfolding expired
  proof (rule yields_seq [OF _ _])
    fix v
    assume v: "world (map snd ?due) v"
    let ?r = "(el_timerQueue v)\<lparr>tq_callingExpired := False\<rparr>"
    have r: "tq_inv (map snd ?due) ?r" "safe_timers U ?r"
      using v by (simp_all add: world_def safe_world_def safe_timers_def tq_inv_def)
    obtain q' where "tq_reset (env_rnd env) ?due ?now ?r = Inr q'" "tq_inv [] q'"
      using tq_reset_ok [OF r(1)] by blast
    then show "yields (timers_finish env ?due ?now v) (world [])"
      using world_timers [OF v tq_reset_safe [OF _ r(2)]] by (simp add: timers_finish_def on_timers_def)
  qed simp
qed

lemma timerRead_keeps:
  assumes "safe_world A n U J w" "tq_inv [] (el_timerQueue w)" "loop_timerRead env user w = Inr w'"
  shows "safe_world A n U J w'" "tq_inv [] (el_timerQueue w')"
  using loop_timerRead_safe [of w env] assms by (simp_all add: world_def)

lemma call_cb_safe:
  assumes "world [] w" "safe_cb U f"
  shows "yields (call_cb env user f t w) (world [])"
proof (cases f)
  case Timer_handleRead
  then show ?thesis using loop_timerRead_safe [OF assms(1)] by simp
next
  case (Timer_cancelInLoop i)
  let ?q = "el_timerQueue w"
  have q: "tq_inv [] ?q" "safe_timers U ?q" using assms by (simp_all add: world_def safe_world_def)
  then obtain r where r: "cancelInLoop i ?q = Inr r" "tq_inv [] r" "tq_heap r = tq_heap ?q"
    using cancelInLoop_inactive [of ?q i] by (simp add: tq_inv_def)
  then show ?thesis
    using world_timers [OF assms(1) safe_timers_heap [OF q(2)]] Timer_cancelInLoop by (simp add: on_timers_def)
next
  case (User u)
  then show ?thesis using user_safe [of u w "[]" t] assms by (auto simp: world_def keeps_timers_def)
qed (use assms in \<open>simp_all add: EventLoop_handleRead_def\<close>)

lemma set_handling_safe: "world fl w \<Longrightarrow> p \<in> A \<Longrightarrow> yields (set_handling b p w) (world fl)"
  using world_chan [of fl w p] world_put [of fl w p _ "_\<lparr>ch_eventHandling := b\<rparr>"]
  by (fastforce simp: set_handling_def with_chan_def safe_channel_def)

lemma call_if_safe:
  assumes "world [] w" "p \<in> A"
    and cb: "cb \<in> {ch_readCallback, ch_writeCallback, ch_closeCallback, ch_errorCallback}"
  shows "yields (call_if (call_cb env user) p b cb t w) (world [])"
proof -
  obtain c where c: "chans w p = Some c" "safe_channel U c" using world_chan [OF assms(1,2)] by blast
  have "yields (call_cb env user f t w) (world [])" if "cb c = Some f" for f
    using that c(2) cb by (intro call_cb_safe [OF assms(1)]) (auto simp: safe_channel_def)
  then show ?thesis using c(1) assms(1) by (auto simp: call_if_def with_chan_def split: option.splits)
qed

lemma handleEvent_safe:
  assumes "world [] w" "p \<in> A"
  shows "yields (handleEvent (call_cb env user) t p w) (world [])"
proof -
  have "yields (handleEventWithGuard (call_cb env user) t p w) (world [])"
    unfolding handleEventWithGuard_def
    by (intro yields_seq [where P = "world []"] set_handling_safe call_if_safe assms) auto
  then show ?thesis
    using world_chan [OF assms] assms(1) by (auto simp: handleEvent_def with_chan_def split: option.split)
qed

lemma fill_safe:
  assumes "world fl w" "el_poller w = EPoll ep" "snd ` set evs \<subseteq> A"
  shows "yields (ep_fillActive evs ep (w, as))
    (\<lambda>(w', bs). world fl w' \<and> el_poller w' = EPoll ep \<and> bs = as @ map snd evs)"
  using assms
proof (induction evs arbitrary: w as)
  case (Cons e evs)
  obtain ev p where e: "e = (ev, p)" by (cases e)
  obtain c where c: "chans w p = Some c" "safe_channel U c" "ep_channels ep (ch_fd c) \<noteq> None"
    using Cons.prems e by (auto simp: world_def safe_world_def safe_channels_def)
  have "world fl (put_chan p (set_revents ev c) w)"
    by (rule world_put [OF Cons.prems(1) c(1)]) (simp_all add: safe_channel_def)
  from Cons.IH [OF this, of "as @ [p]"] show ?case
    using c Cons.prems(2,3) e by (simp add: with_chan_def put_chan_def)
qed simp

lemma loop_poll_safe:
  assumes "world [] w" "report_ok A n rep"
  shows "yields (loop_poll rep w) (\<lambda>(pc, w'). world [] w' \<and> (\<exists>ps. pc = At_Handle ps \<and> set ps \<subseteq> A))"
proof -
  let ?w = "w\<lparr>el_activeChannels := []\<rparr>"
  obtain ep where ep: "el_poller w = EPoll ep" "n \<le> ep_eventsSize ep"
    using assms(1) by (auto simp: world_def safe_world_def safe_channels_def)
  have w: "world [] ?w"
    by (rule world_field [OF assms(1)]) (use assms(1) in \<open>simp_all add: world_def safe_world_def safe_channels_def\<close>)
  have grown: "world [] (v\<lparr>el_poller := EPoll ep', el_activeChannels := ps, el_pollReturnTime := t, el_clock := t',
        el_iteration := k, el_eventHandling := True\<rparr>)"
    if v: "world [] v" "el_poller v = EPoll ep" "ep' = ep \<or> ep' = ep\<lparr>ep_eventsSize := ep_eventsSize ep * 2\<rparr>" for v ep' ps t t' k
    by (rule world_field [OF v(1)]) (use v in \<open>auto simp: world_def safe_world_def safe_channels_def\<close>)
  show ?thesis
  proof (cases "rep_epoll rep")
    case None
    then show ?thesis using ep grown [OF w] by (simp add: loop_poll_def Poller_poll_def ep_poll_def)
  next
    case (Some evs)
    have evs: "snd ` set evs \<subseteq> A" "length evs \<le> ep_eventsSize ep"
      using assms(2) ep(2) by (auto simp: report_ok_def Some)
    obtain w' where "ep_fillActive evs ep (?w, []) = Inr (w', map snd evs)" "world [] w'" "el_poller w' = EPoll ep"
      using fill_safe [OF w _ evs(1), of ep "[]"] ep(1) by (auto simp: yields_def)
    then show ?thesis
      using ep evs grown grown [OF w] Some by (simp add: loop_poll_def Poller_poll_def ep_poll_def Let_def)
  qed
qed

lemma loop_ok_world: "loop_ok A n U J (pc, w) \<longleftrightarrow> pc_ok A U pc \<and> world [] w"
  by (simp add: loop_ok_def world_def)

text \<open>Fields that nothing here depends on.\<close>

lemma world_flags:
  assumes "world fl w"
  shows "world fl (w\<lparr>el_looping := b\<rparr>)" "world fl (w\<lparr>el_quit := b\<rparr>)" "world fl (w\<lparr>el_currentActiveChannel := p\<rparr>)"
    "world fl (w\<lparr>el_eventHandling := b\<rparr>)" "world fl (w\<lparr>el_callingPendingFunctors := b\<rparr>)"
    "list_all (safe_cb U) fs \<Longrightarrow> world fl (w\<lparr>el_pendingFunctors := fs\<rparr>)"
  by (rule world_field [OF assms]; use assms in \<open>simp add: world_def safe_world_def safe_channels_def\<close>)+

lemma loop_step_safe:
  assumes "loop_ok A n U J (pc, w)" "report_ok A n rep"
  shows "yields (loop_step env user rep (pc, w)) (\<lambda>(s, called). loop_ok A n U J s)"
proof -
  have w: "world [] w" "pc_ok A U pc" using assms(1) by (simp_all add: loop_ok_world)
  have pend: "list_all (safe_cb U) (el_pendingFunctors w)" using w(1) by (simp add: world_def safe_world_def)
  show ?thesis
  proof (cases pc)
    case At_Test
    then show ?thesis using w world_flags by (simp add: loop_ok_world)
  next
    case At_Poll
    then show ?thesis
      using loop_poll_safe [OF w(1) assms(2)] by (auto simp: loop_ok_world yields_def)
  next
    case (At_Handle ps)
    show ?thesis
    proof (cases ps)
      case (Cons p ps')
      then show ?thesis
        using handleEvent_safe [OF world_flags(3) [OF w(1)], of p env "el_pollReturnTime w" "Some p"] w(2) At_Handle
        by (auto simp: loop_ok_world yields_def)
    qed (use w world_flags At_Handle in \<open>simp add: loop_ok_world\<close>)
  next
    case At_Swap
    then show ?thesis using w pend world_flags by (simp add: loop_ok_world)
  next
    case (At_Functors fs)
    show ?thesis
    proof (cases fs)
      case (Cons f fs')
      then show ?thesis
        using call_cb_safe [OF w(1), of f env None] w(2) At_Functors by (auto simp: loop_ok_world yields_def)
    qed (use w world_flags At_Functors in \<open>simp add: loop_ok_world\<close>)
  next
    case Loop_Left
    then show ?thesis using w by (simp add: loop_ok_world)
  qed
qed

lemma loop_act_safe:
  assumes "loop_ok A n U J s" "action_ok A n U a"
  shows "yields (loop_act env user a s) (\<lambda>(s', called). loop_ok A n U J s')"
proof -
  obtain pc w where s: "s = (pc, w)" by (cases s)
  have w: "world [] w" "pc_ok A U pc" using assms(1) by (simp_all add: loop_ok_world s)
  then have pend: "list_all (safe_cb U) (el_pendingFunctors w)" by (simp add: world_def safe_world_def)
  show ?thesis
  proof (cases a)
    case (Loop_Thread rep)
    then show ?thesis using loop_step_safe [of pc w rep env] assms s by (auto simp: yields_def)
  next
    case (Queue_From tid f)
    then show ?thesis
      using world_flags(6) [OF w(1)] pend w(2) assms(2) s
      by (simp add: queueInLoop_def wakeup_def loop_ok_world Let_def)
  next
    case (Quit_From tid)
    then show ?thesis using world_flags(2) [OF w(1)] w(2) s by (simp add: EventLoop_quit_def wakeup_def loop_ok_world Let_def)
  qed
qed

lemma run_safe:
  assumes "loop_ok A n U J s" "list_all (action_ok A n U) acts"
  shows "yields (loop_run env user acts s) (\<lambda>(s', called). loop_ok A n U J s')"
  using assms
proof (induction acts arbitrary: s)
  case (Cons a acts)
  obtain s1 c where s1: "loop_act env user a s = Inr (s1, c)" "loop_ok A n U J s1"
    using loop_act_safe [OF Cons.prems(1), of a env] Cons.prems(2) by (auto simp: yields_def)
  then show ?case using Cons.IH [OF s1(2)] Cons.prems(2) by (auto simp: yields_def)
qed simp

text \<open>With such users, a loop that is asked to quit leaves, and without a fault.\<close>

lemma quit_safe:
  assumes "loop_ok A n U J (pc, w)" "el_quit w" "user_keeps_quit user" "fair acts" "\<forall>k. action_ok A n U (acts k)"
  shows "\<exists>k w' c. loop_run env user (map acts [0..<k]) (pc, w) = Inr ((Loop_Left, w'), c)
    \<and> loop_ok A n U J (Loop_Left, w')"
proof -
  obtain k where k: "(\<exists>e. loop_run env user (map acts [0..<k]) (pc, w) = Inl e)
      \<or> (\<exists>w' c. loop_run env user (map acts [0..<k]) (pc, w) = Inr ((Loop_Left, w'), c))"
    using quit_leaves [OF assms(3,4,2)] unfolding leaves_def by blast
  have "list_all (action_ok A n U) (map acts [0..<k])" using assms(5) by (simp add: list_all_iff)
  from run_safe [OF assms(1) this, of env] show ?thesis using k by (intro exI [of _ k]) (auto simp: yields_def)
qed

end

section \<open>The loop's own channels\<close>

text \<open>Users that act only outside the loop.\<close>

interpretation quiet: safe_loop "outside g" A n UNIV "\<lambda>w. True" for g A n
  by unfold_locales (auto simp: outside_def safe_world_def safe_channels_def keeps_timers_refl)

text \<open>More functions may be bound, and nothing else changes.\<close>

lemma safe_cb_mono: "safe_cb U f \<Longrightarrow> U \<subseteq> V \<Longrightarrow> safe_cb V f"
  by (cases f) auto

lemma safe_channel_mono: "safe_channel U c \<Longrightarrow> U \<subseteq> V \<Longrightarrow> safe_channel V c"
  by (auto simp: safe_channel_def intro: safe_cb_mono)

text \<open>A new loop with the default poller: the timer channel and the wakeup channel call no user.\<close>

lemma new_loop_safe:
  assumes "EventLoop_new env getenv ep tfd efd counter this tid tchan wchan clock h t_loop = Inr (w, l)"
    and "getenv ''DBDKY_USE_POLL'' = None" "tchan \<noteq> wchan"
  shows "safe_world {tchan, wchan} kInitEventListSize {} (\<lambda>w. True) w" "tq_inv [] (el_timerQueue w)"
  using assms
  by (auto simp: EventLoop_new_def newDefaultPoller_def EPollPoller_new_def TimerQueue_new_def createTimerfd_def
      createEventfd_def enableReading_def set_events_def with_chan_def put_chan_def EventLoop_updateChannel_def
      Poller_updateChannel_def ep_update_def ep_ctl_def Let_def outcome_simps Channel_new_def kNew_def kAdded_def
      safe_world_def safe_channels_def safe_channel_def safe_timers_def tq_inv_def split: if_splits)

end
