(* ===== verification/Com_Safety.thy ===== *)
theory Com_Safety
  imports Com_Loop Loop_Safety
begin

text \<open>
  Serial ports under every interleaving: the functions of \<open>Com_Port\<close> are users that the loop is safe with, also
  when reads fail or return nothing, when events are spurious and when other threads queue sends and
  shutdowns.  No byte that is read is lost, repeated or out of order.
\<close>

section \<open>What the ports keep\<close>

text \<open>
  The bytes that the message callback of entity \<open>i\<close>, which the application watches, has been called with, and what
  is still to be read.
\<close>

definition delivered :: "nat \<Rightarrow> com_world \<Rightarrow> byte list" where
  "delivered i w = concat (map (snd \<circ> snd) (filter (\<lambda>m. fst m = i) (cw_messages w)))"

fun read_bytes :: "readv_result \<Rightarrow> byte list" where
  "read_bytes (Readv_Bytes bs) = bs"
| "read_bytes (Readv_Errno e) = []"

definition to_come :: "int \<Rightarrow> com_world \<Rightarrow> byte list" where
  "to_come fd w = concat (map read_bytes (cw_reads w fd))"

text \<open>
  The ports \<open>P\<close>, each with an entity that has no write-complete callback (nothing in the program sets one)
  and with its descriptor; no read returns more than the spare buffer of \<^verbatim>\<open>readFd\<close> takes, and what was and will be
  read from port \<open>i\<close> is \<open>S i\<close>.
\<close>

definition port_kept :: "(nat \<Rightarrow> byte list) \<Rightarrow> com_world \<Rightarrow> port \<Rightarrow> bool" where
  "port_kept S w = (\<lambda>(i, p, fd). (\<exists>ce. cw_entities w i = Some ce \<and> port_entity i p ce \<and> \<not> ce_writeCompleteCallback ce)
     \<and> map_option ch_fd (chans w p) = Some fd
     \<and> list_all (\<lambda>r. length (read_bytes r) \<le> kExtraBuf) (cw_reads w fd)
     \<and> delivered i w @ to_come fd w = S i)"

definition ports_kept :: "port set \<Rightarrow> (nat \<Rightarrow> byte list) \<Rightarrow> com_world \<Rightarrow> bool" where
  "ports_kept P S w \<longleftrightarrow> apart P \<and> (\<forall>q\<in>P. port_kept S w q)"

text \<open>The functions of the ports that the loop may be asked to call.\<close>

definition port_functions :: "port set \<Rightarrow> com_cb set" where
  "port_functions P = {(i, f). i \<in> fst ` P \<and> f \<noteq> Com_writeComplete \<and> f \<noteq> Com_comEstablished}"

lemma com_world_more:
  fixes w w' :: com_world
  assumes "EventLoop.more w' = EventLoop.more w"
  shows "cw_entities w' = cw_entities w" "cw_reads w' = cw_reads w" "cw_messages w' = cw_messages w"
  using assms by (cases w, cases w', simp)+

lemma ports_kept_outside:
  assumes "ports_kept P S w" "EventLoop.more w' = EventLoop.more w"
    "map_option ch_fd \<circ> chans w' = map_option ch_fd \<circ> chans w"
  shows "ports_kept P S w'"
proof -
  have "map_option ch_fd (chans w' p) = map_option ch_fd (chans w p)" for p using assms(3) by (metis comp_apply)
  then show ?thesis
    using assms(1) com_world_more [OF assms(2)]
    by (simp add: ports_kept_def port_kept_def delivered_def to_come_def)
qed

section \<open>Every read\<close>

lemma handleRead_kept:
  assumes "port_entity i p ce" "length (read_bytes r) \<le> kExtraBuf"
  shows "\<exists>b ms. com_handleRead r t ce = Inr (ce\<lparr>ce_inputBuffer := b\<rparr>, ms) \<and> drained b
    \<and> (\<forall>m\<in>set ms. fst m = i) \<and> concat (map (snd \<circ> snd) ms) = read_bytes r"
proof -
  obtain cb where cb: "ce_messageCallback ce = Some (watching cb)" "message_sink cb" and b: "drained (ce_inputBuffer ce)"
      "ce_id ce = i"
    using assms(1) by (auto simp: port_entity_def)
  consider (bytes) bs where "r = Readv_Bytes bs" "bs \<noteq> []" | (eof) "r = Readv_Bytes []" | (errno) e where "r = Readv_Errno e"
    by (metis readv_result.exhaust)
  then show ?thesis
  proof cases
    case bytes
    then show ?thesis
      using message_sink.handleRead_delivers [OF cb(2,1) b(1) bytes(2), of t] assms(2) b(2) by fastforce
  next
    case eof
    have "readFd (ce_inputBuffer ce) r = Inr (0, None, ce_inputBuffer ce)"
      using b(1) buf_ok_bounds [of "ce_inputBuffer ce"]
      by (simp add: eof readFd_def Let_def mem_write_def drained_def beginWrite_def size_add_small)
    then show ?thesis
      using b by (intro exI [of _ "ce_inputBuffer ce"] exI [of _ "[]"]) (simp add: eof com_handleRead_def com_handleClose_def)
  next
    case errno
    then show ?thesis
      using b by (intro exI [of _ "ce_inputBuffer ce"] exI [of _ "[]"])
        (simp add: readFd_def com_handleRead_def com_handleError_def)
  qed
qed

text \<open>
  A handled read changes the reads to come of its descriptor, its entity and the messages.
\<close>

lemma on_handleRead_kept:
  assumes kept: "ports_kept P S w" and P: "(i, p, fd) \<in> P"
  shows "\<exists>rs ce ms. on_handleRead i t w = Inr (w\<lparr>cw_entities := ce, cw_reads := rs, cw_messages := ms\<rparr>)
    \<and> ports_kept P S (w\<lparr>cw_entities := ce, cw_reads := rs, cw_messages := ms\<rparr>)"
proof -
  have q: "port_kept S w (i, p, fd)" and apart: "apart P" using kept P by (auto simp: ports_kept_def)
  obtain ce c where ce: "cw_entities w i = Some ce" "port_entity i p ce" "\<not> ce_writeCompleteCallback ce"
    and c: "chans w p = Some c" "ch_fd c = fd" using q by (auto simp: port_kept_def)
  define r where "r = fst (next_read fd w)"
  define rs where "rs = tl (cw_reads w fd)"
  have r: "length (read_bytes r) \<le> kExtraBuf" "read_bytes r @ concat (map read_bytes rs) = to_come fd w"
      "list_all (\<lambda>r. length (read_bytes r) \<le> kExtraBuf) rs"
    using q by (cases "cw_reads w fd"; auto simp: r_def rs_def next_read_def to_come_def port_kept_def)+
  have reads: "next_read fd w = (r, w\<lparr>cw_reads := (cw_reads w)(fd := rs)\<rparr>)"
    by (cases "cw_reads w fd") (simp_all add: r_def rs_def next_read_def fun_upd_idem)
  obtain b ms where b: "com_handleRead r t ce = Inr (ce\<lparr>ce_inputBuffer := b\<rparr>, ms)" "drained b"
      "\<forall>m\<in>set ms. fst m = i" "concat (map (snd \<circ> snd) ms) = read_bytes r"
    using handleRead_kept [OF ce(2) r(1)] by blast
  let ?ce = "ce\<lparr>ce_inputBuffer := b\<rparr>"
  let ?w = "w\<lparr>cw_entities := (cw_entities w)(i \<mapsto> ?ce), cw_reads := (cw_reads w)(fd := rs),
      cw_messages := cw_messages w @ ms\<rparr>"
  have run: "on_handleRead i t w = Inr ?w"
    using ce(1,2) c b(1) reads
    by (simp add: on_handleRead_def with_entity_def with_chan_def port_entity_def put_entity_def)
  have given: "delivered j ?w = delivered j w @ (if j = i then read_bytes r else [])" for j
  proof -
    have "filter (\<lambda>m. fst m = j) ms = (if j = i then ms else [])" using b(3) by (auto simp: filter_id_conv filter_empty_conv)
    then show ?thesis using b(4) by (simp add: delivered_def)
  qed
  have "port_kept S ?w (j, u, f)" if j: "(j, u, f) \<in> P" for j u f
  proof (cases "(j, u, f) = (i, p, fd)")
    case True
    then show ?thesis
      using q ce b(2) r(2,3) given [of i] by (auto simp: port_kept_def port_entity_def to_come_def)
  next
    case False
    then have "(i, p, fd) \<noteq> (j, u, f)" by metis
    note ne = apartD [OF apart P j this]
    moreover have "port_kept S w (j, u, f)" using kept j by (auto simp: ports_kept_def)
    ultimately show ?thesis using ne(1,3) given [of j] by (simp add: port_kept_def to_come_def)
  qed
  then have "ports_kept P S ?w" using apart by (auto simp: ports_kept_def)
  then show ?thesis using run by blast
qed

text \<open>Only the entities, the reads, the messages and the bytes sent change.\<close>

lemma safe_world_com:
  assumes "safe_world A n U J w" "J' (w\<lparr>cw_entities := ce, cw_reads := rs, cw_sent := ss, cw_messages := ms\<rparr>)"
  shows "safe_world A n U J' (w\<lparr>cw_entities := ce, cw_reads := rs, cw_sent := ss, cw_messages := ms\<rparr>)"
  using assms by (simp add: safe_world_def safe_channels_def)

lemma put_entity_same: "cw_entities w i = Some ce \<Longrightarrow> put_entity i ce w = w"
  by (simp add: put_entity_def fun_upd_idem)

lemma com_user_kept:
  assumes "u \<in> port_functions P" "ports_kept P S w"
  shows "\<exists>ce rs ss ms. com_user env write wc u t w
      = Inr (w\<lparr>cw_entities := ce, cw_reads := rs, cw_sent := ss, cw_messages := ms\<rparr>)
    \<and> ports_kept P S (w\<lparr>cw_entities := ce, cw_reads := rs, cw_sent := ss, cw_messages := ms\<rparr>)"
proof -
  obtain i f p fd where u: "u = (i, f)" "f \<noteq> Com_writeComplete" "f \<noteq> Com_comEstablished" and P: "(i, p, fd) \<in> P"
    using assms(1) by (auto simp: port_functions_def)
  obtain ce c where ce: "cw_entities w i = Some ce" "port_entity i p ce" "\<not> ce_writeCompleteCallback ce"
    and c: "chans w p = Some c" using assms(2) P by (fastforce simp: ports_kept_def port_kept_def)
  have same: "ports_kept P S (w\<lparr>cw_sent := ss\<rparr>)" for ss
    using assms(2) by (simp add: ports_kept_def port_kept_def delivered_def to_come_def)
  have idle: ?thesis if "com_user env write wc u t w = Inr w"
    using that assms(2)
    by (intro exI [of _ "cw_entities w"] exI [of _ "cw_reads w"] exI [of _ "cw_sent w"] exI [of _ "cw_messages w"]) simp
  have other: "com_user env write wc u t w = Inr w" if "f \<noteq> Com_handleRead" "f \<notin> range Com_sendInLoop"
    using that u ce(1)
    by (cases f) (simp_all add: with_entity_def com_handleWrite_def shutdownInLoop_def comDestroyed_def put_entity_same)
  show ?thesis
  proof (cases f)
    case Com_handleRead
    obtain rs es ms where "on_handleRead i (case t of Some t \<Rightarrow> t | None \<Rightarrow> Timestamp_default) w
          = Inr (w\<lparr>cw_entities := es, cw_reads := rs, cw_messages := ms\<rparr>)"
        "ports_kept P S (w\<lparr>cw_entities := es, cw_reads := rs, cw_messages := ms\<rparr>)"
      using on_handleRead_kept [OF assms(2) P] by blast
    then show ?thesis
      using Com_handleRead u(1)
      by (intro exI [of _ es] exI [of _ rs] exI [of _ "cw_sent w"] exI [of _ ms]) simp
  next
    case (Com_sendInLoop data)
    obtain sent where "sendInLoop write (el_threadId w) data ce w = Inr (w, sent)"
      using ce(2,3) c by (fastforce simp: sendInLoop_def with_chan_def port_entity_def Let_def)
    then show ?thesis
      using Com_sendInLoop u(1) ce(1) same
      by (intro exI [of _ "cw_entities w"] exI [of _ "cw_reads w"] exI [of _ "cw_sent w @ [(cu_comFd (ce_util ce), sent)]"]
          exI [of _ "cw_messages w"])
        (simp add: with_entity_def)
  qed (rule idle, rule other; auto)+
qed

interpretation ports: safe_loop "com_user env write wc" A n "port_functions P" "ports_kept P S" for env "write" wc A n P S
proof
  fix w w' :: com_world
  assume "ports_kept P S w" "EventLoop.more w' = EventLoop.more w"
    "map_option ch_fd \<circ> chans w' = map_option ch_fd \<circ> chans w"
  then show "ports_kept P S w'" by (rule ports_kept_outside)
next
  fix u fl t and w :: com_world
  let ?safe = "safe_world A n (port_functions P) (ports_kept P S)"
  assume w: "u \<in> port_functions P" "?safe w"
  then have "ports_kept P S w" by (simp add: safe_world_def)
  then obtain ce rs ss ms where run: "com_user env write wc u t w
        = Inr (w\<lparr>cw_entities := ce, cw_reads := rs, cw_sent := ss, cw_messages := ms\<rparr>)"
      "ports_kept P S (w\<lparr>cw_entities := ce, cw_reads := rs, cw_sent := ss, cw_messages := ms\<rparr>)"
    using com_user_kept [OF w(1)] by blast
  show "\<exists>w'. com_user env write wc u t w = Inr w' \<and> ?safe w' \<and> keeps_timers (el_timerQueue w) (el_timerQueue w')"
    using run(1) safe_world_com [OF w(2), where J' = "ports_kept P S", OF run(2)] by (simp add: keeps_timers_refl)
qed

section \<open>A port of the server\<close>

text \<open>
  A loop that was safe before the server created a port in it is safe with the port, whatever the reads to
  come are.
\<close>

lemma created_port_safe:
  assumes "createComEntityAndInsert env sc tid chan nm dataBits baudRate parity sv = Inr sv'"
    and "sv_comEntities sv nm = None" "getNextLoop (sv_threadPool sv) = Inr (pool, l)"
    and loop: "isInLoopThread tid (sv_loops sv l)" "safe_world A n {} (\<lambda>w. True) (sv_loops sv l)"
      "tq_inv [] (el_timerQueue (sv_loops sv l))" "el_pendingFunctors (sv_loops sv l) = []"
    and server: "sv_messageCallback sv = watching cb" "message_sink cb" "\<not> sv_writeCompleteCallback sv"
    and reads: "\<forall>fd. list_all (\<lambda>r. length (read_bytes r) \<le> kExtraBuf) (reads fd)"
  shows "\<exists>ce. sv_comEntities sv' nm = Some ce \<and> (let P = {(ce_id ce, chan, cu_comFd (ce_util ce))} in
    loop_ok (insert chan A) n (port_functions P) (ports_kept P (\<lambda>i. concat (map read_bytes (reads (cu_comFd (ce_util ce))))))
      (At_Test, com_world_of [ce_id ce \<mapsto> ce] reads (sv_loops sv' l)))"
proof -
  obtain ep where ep: "el_poller (sv_loops sv l) = EPoll ep" "n \<le> ep_eventsSize ep"
      "\<forall>p\<in>A. \<exists>c. chans (sv_loops sv l) p = Some c \<and> safe_channel {} c \<and> ep_channels ep (ch_fd c) \<noteq> None"
    and timers: "safe_timers {} (el_timerQueue (sv_loops sv l))"
    using loop(2) by (auto simp: safe_world_def safe_channels_def)
  let ?w = "sv_loops sv' l"
  obtain ce c ep' where ce: "sv_comEntities sv' = (sv_comEntities sv)(nm \<mapsto> ce)" "ce_channel ce = chan"
      "ce_messageCallback ce = Some (sv_messageCallback sv)" "drained (ce_inputBuffer ce)" "\<not> ce_writeCompleteCallback ce"
    and c: "chans ?w chan = Some c" "port_channel (ce_id ce) (cu_comFd (ce_util ce)) c"
      "\<forall>q. q \<noteq> chan \<longrightarrow> chans ?w q = chans (sv_loops sv l) q"
    and w: "el_pendingFunctors ?w = []" "el_timerQueue ?w = el_timerQueue (sv_loops sv l)" "el_poller ?w = EPoll ep'"
      "ep_eventsSize ep' = ep_eventsSize ep" "ep_channels ep' (cu_comFd (ce_util ce)) \<noteq> None"
      "\<forall>f. ep_channels ep f \<noteq> None \<longrightarrow> ep_channels ep' f \<noteq> None"
    using created_port [OF assms(1-3) loop(1) ep(1)] loop(4) server(3) by (auto simp: Let_def)
  define P where "P = {(ce_id ce, chan, cu_comFd (ce_util ce))}"
  let ?U = "port_functions P" and ?v = "com_world_of [ce_id ce \<mapsto> ce] reads ?w"
  have "\<exists>d. chans ?w p = Some d \<and> safe_channel ?U d \<and> ep_channels ep' (ch_fd d) \<noteq> None" if p: "p \<in> insert chan A" for p
  proof (cases "p = chan")
    case True
    moreover have "safe_channel ?U c" using c(2) by (auto simp: safe_channel_def port_channel_def port_functions_def P_def)
    ultimately show ?thesis using c w(5) by (simp add: port_channel_def)
  next
    case False
    then obtain d where "chans ?w p = Some d" "safe_channel {} d" "ep_channels ep (ch_fd d) \<noteq> None"
      using p ep(3) c(3) by auto
    then show ?thesis using safe_channel_mono [of "{}" d ?U] w(6) by auto
  qed
  moreover have "safe_timers ?U (el_timerQueue ?w)" using timers w(2) by (auto simp: safe_timers_def)
  moreover have "ports_kept P (\<lambda>i. concat (map read_bytes (reads (cu_comFd (ce_util ce))))) ?v"
    using ce c server(1,2) reads
    by (auto simp: ports_kept_def apart_def port_kept_def P_def port_entity_def port_channel_def delivered_def to_come_def)
  ultimately have "loop_ok (insert chan A) n ?U (ports_kept P (\<lambda>i. concat (map read_bytes (reads (cu_comFd (ce_util ce))))))
      (At_Test, ?v)"
    using w(1-4) ep(2) loop(3) by (simp add: loop_ok_def safe_world_def safe_channels_def)
  then show ?thesis using ce(1) by (simp add: P_def)
qed

section \<open>Every interleaving\<close>

text \<open>
  C15: Serial ports never bring their loop down and lose nothing.  Take any number of ports on a loop with the
  default poller, with message callbacks that take all of the buffer and that the application watches, and
  without write-complete callbacks; the timers of the loop, if any, call functions of the ports and lie at addresses
  below \<^verbatim>\<open>UINT32_MAX\<close> (above it, the assertion of \<^verbatim>\<open>getExpired\<close> can fail).  Take any interleaving of the loop
  thread with threads that queue functions of the ports (sends, shutdowns) and cancellations of timers or ask the
  loop to quit; let the poll report any events on registered channels, and let each read return up to 64 KiB,
  nothing, or an error.  No step faults, and at every moment the bytes with which the message callback of a
  port has been called followed by those still to be read are what was to be read at the start, in order.
\<close>

theorem ports_never_fault:
  assumes "loop_ok A n (port_functions P) (ports_kept P S) (pc, w)"
    and "list_all (action_ok A n (port_functions P)) acts"
  shows "\<exists>pc' w' called. loop_run env (com_user env write wc) acts (pc, w) = Inr ((pc', w'), called)
    \<and> loop_ok A n (port_functions P) (ports_kept P S) (pc', w')
    \<and> (\<forall>(i, p, fd)\<in>P. delivered i w' @ to_come fd w' = delivered i w @ to_come fd w)"
proof -
  obtain pc' w' called where
      run: "loop_run env (com_user env write wc) acts (pc, w) = Inr ((pc', w'), called)"
        "loop_ok A n (port_functions P) (ports_kept P S) (pc', w')"
    using ports.run_safe [OF assms, of env env "write" wc] by (auto simp: yields_def)
  have "\<forall>q\<in>P. port_kept S w q \<and> port_kept S w' q"
    using assms(1) run(2) by (simp add: loop_ok_def safe_world_def ports_kept_def)
  then show ?thesis using run by (fastforce simp: port_kept_def)
qed


text \<open>Only the write-complete callback could clear \<^verbatim>\<open>quit_\<close>; the functions of the ports do not.\<close>

lemma com_user_keeps_quit:
  assumes "\<And>i w w'. wc i w = Inr w' \<Longrightarrow> keeps_quit w w'"
  shows "user_keeps_quit (com_user env write wc)"
  unfolding user_keeps_quit_def
proof (intro allI impI)
  fix u t w w'
  assume run: "com_user env write wc u t w = Inr w'"
  obtain i f where u: "u = (i, f)" by (cases u)
  show "keeps_quit w w'"
  proof (cases f)
    case Com_handleRead
    then show ?thesis
      using run u by (auto simp: keeps_quit_def on_handleRead_def with_entity_def with_chan_def next_read_def put_entity_def
          outcome_simps split: option.splits list.splits)
  next
    case (Com_sendInLoop data)
    then show ?thesis
      using run u by (auto simp: keeps_quit_def sendInLoop_def with_entity_def with_chan_def outcome_simps Let_def
          queueInLoop_def wakeup_def split: option.splits if_splits)
  next
    case Com_comEstablished
    have "el_quit v' = el_quit v" if "EventLoop_updateChannel env p v = Inr v'" for p and v v' :: com_world
      using that by (auto simp: EventLoop_updateChannel_def with_chan_def outcome_simps
          Poller_updateChannel_def pp_update_def ep_update_def
          ep_ctl_def put_chan_def Let_def split: option.splits Poller.splits if_splits)
    then show ?thesis
      using run u Com_comEstablished
      by (auto simp: keeps_quit_def with_entity_def comEstablished_def ch_do_tie_def enableReading_def set_events_def
          with_chan_def put_chan_def outcome_simps split: option.splits)
  qed (use run u assms in \<open>auto simp: keeps_quit_def with_entity_def put_entity_def split: option.splits\<close>)
qed

text \<open>
  C14: Asked to quit, a loop with serial ports leaves, without a fault.  The ports, the loop and what other threads do
  are those of the theorem on faults: the timers lie at addresses below \<^verbatim>\<open>UINT32_MAX\<close>, and the message callbacks take all of the buffer.
  Wherever the loop thread is when some thread calls \<^verbatim>\<open>quit\<close>, in every schedule that lets the loop thread go on, and
  whatever is read, reported and queued meanwhile, after finitely many steps the loop is left, and the bytes
  with which the message callbacks have been called followed by those still to be read are what was to
  be read at the start.
\<close>

theorem ports_quit_cleanly:
  assumes "loop_ok A n (port_functions P) (ports_kept P S) (pc, w)" "\<forall>i w w'. wc i w = Inr w' \<longrightarrow> keeps_quit w w'"
    and "fair acts" "\<forall>k. action_ok A n (port_functions P) (acts k)"
  shows "\<exists>k w' called.
      loop_run env (com_user env write wc) (map acts [0..<k]) (pc, EventLoop_quit tid w) = Inr ((Loop_Left, w'), called)
    \<and> (\<forall>(i, p, fd)\<in>P. delivered i w' @ to_come fd w' = delivered i w @ to_come fd w)"
proof -
  have quit: "el_quit (EventLoop_quit tid w)" by (simp add: EventLoop_quit_def wakeup_def Let_def)
  have ok: "loop_ok A n (port_functions P) (ports_kept P S) (pc, EventLoop_quit tid w)"
    using ports.loop_act_safe [OF assms(1), of "Quit_From tid"] by simp
  obtain k w' called where
      run: "loop_run env (com_user env write wc) (map acts [0..<k]) (pc, EventLoop_quit tid w)
          = Inr ((Loop_Left, w'), called)"
        "loop_ok A n (port_functions P) (ports_kept P S) (Loop_Left, w')"
    using ports.quit_safe [OF ok quit com_user_keeps_quit assms(3,4), of wc env env "write"] assms(2) by blast
  have "\<forall>q\<in>P. port_kept S w q \<and> port_kept S w' q"
    using assms(1) run(2) by (simp add: loop_ok_def safe_world_def ports_kept_def)
  then show ?thesis using run(1) by (fastforce simp: port_kept_def)
qed

text \<open>
  Both theorems at work on the port of the server: one read is interrupted, one returns two bytes and
  one returns nothing, while another thread queues a send and asks the loop to quit.
\<close>

definition flaky_reads :: "int \<Rightarrow> readv_result list" where
  "flaky_reads fd = [Readv_Errno 4, Readv_Bytes [0x41, 0x42], Readv_Bytes []]"

definition port_report :: poll_report where
  "port_report = \<lparr>rep_poll = (0, \<lambda>n. 0), rep_epoll = Some [(POLLIN OR POLLHUP, 2)], rep_time = Timestamp_of 5, rep_clock = Timestamp_of 5\<rparr>"

lemma flaky_bytes: "concat (map read_bytes (flaky_reads fd)) = [0x41, 0x42]"
  by (simp add: flaky_reads_def)

definition one_port_world :: "ComServer \<Rightarrow> ComEntity \<Rightarrow> com_world" where
  "one_port_world sv ce = com_world_of [ce_id ce \<mapsto> ce] flaky_reads (sv_loops sv 0)"

definition one_port :: "ComEntity \<Rightarrow> port" where
  "one_port ce = (ce_id ce, 2, cu_comFd (ce_util ce))"

lemma one_port_safe:
  "\<exists>sv ce. createComEntityAndInsert one_port_env one_port_calls 10 2 ''port'' 8 9600 MB_PAR_NONE one_port_server = Inr sv
    \<and> sv_comEntities sv ''port'' = Some ce
    \<and> loop_ok {2} 16 (port_functions {one_port ce}) (ports_kept {one_port ce} (\<lambda>i. [0x41, 0x42]))
        (At_Test, one_port_world sv ce)
    \<and> delivered (ce_id ce) (one_port_world sv ce) @ to_come (cu_comFd (ce_util ce)) (one_port_world sv ce) = [0x41, 0x42]"
proof -
  obtain sv where sv: "createComEntityAndInsert one_port_env one_port_calls 10 2 ''port'' 8 9600 MB_PAR_NONE one_port_server
      = Inr sv"
    using one_port_setup(1) by blast
  have loop: "safe_world {} 16 {} (\<lambda>w. True) (sv_loops one_port_server 0)"
      "tq_inv [] (el_timerQueue (sv_loops one_port_server 0))" "el_pendingFunctors (sv_loops one_port_server 0) = []"
    by (simp_all add: one_port_setup epoll_loop_def com_loop0_def com_timers_def safe_world_def safe_channels_def
        safe_timers_def tq_inv_def)
  have server: "\<not> sv_writeCompleteCallback one_port_server"
    by (simp add: one_port_server_def sv_setMessageCallback_def ComServer_new_def)
  have "\<forall>fd. list_all (\<lambda>r. length (read_bytes r) \<le> kExtraBuf) (flaky_reads fd)"
    by (simp add: flaky_reads_def kExtraBuf_def)
  from created_port_safe [OF sv one_port_setup(3-5) loop one_port_setup(7) codec_sink.message_sink_axioms server this] show ?thesis
    using sv by (auto simp: one_port_def one_port_world_def Let_def flaky_bytes delivered_def to_come_def)
qed

lemma port_report_ok: "action_ok {2} 16 U (Loop_Thread port_report)"
  by (simp add: report_ok_def port_report_def)

theorem ports_never_fault_witness:
  "\<exists>sv ce pc w' called.
     createComEntityAndInsert one_port_env one_port_calls 10 2 ''port'' 8 9600 MB_PAR_NONE one_port_server = Inr sv
   \<and> sv_comEntities sv ''port'' = Some ce
   \<and> loop_run one_port_env (com_user one_port_env (\<lambda>fd bs. 0) (\<lambda>i w. Inr w))
       (replicate 9 (Loop_Thread port_report) @ [Queue_From 11 (User (ce_id ce, Com_sendInLoop [0x43])), Quit_From 11]
        @ replicate 9 (Loop_Thread port_report)) (At_Test, one_port_world sv ce) = Inr ((pc, w'), called)
   \<and> delivered (ce_id ce) w' @ to_come (cu_comFd (ce_util ce)) w' = [0x41, 0x42]"
proof -
  obtain sv ce where
      sv: "createComEntityAndInsert one_port_env one_port_calls 10 2 ''port'' 8 9600 MB_PAR_NONE one_port_server = Inr sv"
      "sv_comEntities sv ''port'' = Some ce"
      "loop_ok {2} 16 (port_functions {one_port ce}) (ports_kept {one_port ce} (\<lambda>i. [0x41, 0x42])) (At_Test, one_port_world sv ce)"
      "delivered (ce_id ce) (one_port_world sv ce) @ to_come (cu_comFd (ce_util ce)) (one_port_world sv ce) = [0x41, 0x42]"
    using one_port_safe by blast
  let ?acts = "replicate 9 (Loop_Thread port_report) @ [Queue_From 11 (User (ce_id ce, Com_sendInLoop [0x43])), Quit_From 11]
        @ replicate 9 (Loop_Thread port_report)"
  have "list_all (action_ok {2} 16 (port_functions {one_port ce})) ?acts"
    using port_report_ok by (auto simp: list_all_iff port_functions_def one_port_def)
  from ports_never_fault [OF sv(3) this, of one_port_env "\<lambda>fd bs. 0" "\<lambda>i w. Inr w"] show ?thesis
    using sv(1,2,4) by (auto simp: one_port_def)
qed

theorem ports_quit_cleanly_witness:
  "\<exists>sv ce k w' called.
     createComEntityAndInsert one_port_env one_port_calls 10 2 ''port'' 8 9600 MB_PAR_NONE one_port_server = Inr sv
   \<and> loop_run one_port_env (com_user one_port_env (\<lambda>fd bs. 0) (\<lambda>i w. Inr w)) (map (\<lambda>n. Loop_Thread port_report) [0..<k])
       (At_Test, EventLoop_quit 11 (one_port_world sv ce)) = Inr ((Loop_Left, w'), called)
   \<and> delivered (ce_id ce) w' @ to_come (cu_comFd (ce_util ce)) w' = [0x41, 0x42]"
proof -
  obtain sv ce where
      sv: "createComEntityAndInsert one_port_env one_port_calls 10 2 ''port'' 8 9600 MB_PAR_NONE one_port_server = Inr sv"
      "loop_ok {2} 16 (port_functions {one_port ce}) (ports_kept {one_port ce} (\<lambda>i. [0x41, 0x42])) (At_Test, one_port_world sv ce)"
      "delivered (ce_id ce) (one_port_world sv ce) @ to_come (cu_comFd (ce_util ce)) (one_port_world sv ce) = [0x41, 0x42]"
    using one_port_safe by blast
  have wc: "\<forall>i w w'. Inr w = (Inr w' :: com_world outcome) \<longrightarrow> keeps_quit w w'" by (simp add: keeps_quit_def)
  have acts: "fair (\<lambda>n. Loop_Thread port_report)"
      "\<forall>k. action_ok {2} 16 (port_functions {one_port ce}) ((\<lambda>n. Loop_Thread port_report) k)"
    using port_report_ok by (auto simp: fair_def)
  from ports_quit_cleanly [OF sv(2) wc acts, of one_port_env "\<lambda>fd bs. 0" 11] show ?thesis
    using sv(1,3) by (fastforce simp: one_port_def)
qed




end
