(* ===== verification/File_Util.thy ===== *)
theory File_Util
  imports Text_Format Time_Stamp "HOL-Library.Multiset"
begin

text \<open>
  \<^verbatim>\<open>src/src/utils/FileUtil.h\<close>, \<^verbatim>\<open>FileUtil.cpp\<close>, \<^verbatim>\<open>ProcessInfo.h\<close>, \<^verbatim>\<open>ProcessInfo.cpp\<close>, \<^verbatim>\<open>Exception.h\<close> and
  \<^verbatim>\<open>Exception.cpp\<close>: reading small files, what the process can say about itself, and the exception class
  with its stack trace.  What the system calls return are parameters.
\<close>

section \<open>SmallFile\<close>

definition kBufferSize :: nat where
  "kBufferSize = 65536"

record SmallFile =
  sf_fd :: int
  sf_err :: int
  sf_buf :: string

text \<open>\<open>fd\<close> is the result of \<^verbatim>\<open>open\<close>, \<open>errno\<close> its error.\<close>

definition SmallFile_new :: "int \<Rightarrow> int \<Rightarrow> SmallFile" where
  "SmallFile_new fd errno = \<lparr>sf_fd = fd, sf_err = (if fd < 0 then errno else 0), sf_buf = []\<rparr>"

definition SmallFile_destroy :: "SmallFile \<Rightarrow> int option" where
  "SmallFile_destroy f = (if sf_fd f \<ge> 0 then Some (sf_fd f) else None)"

datatype file_mode = Regular | Directory | Other_Mode
datatype stat_result = Stat_Failed int | Stat file_mode int int int
datatype read_result = Read_Err int | Read_Data string

definition EISDIR :: int where "EISDIR = 21"

text \<open>
  The loop.  \<open>rd k n\<close> is the call \<^verbatim>\<open>read(fd_, buf_, n)\<close> in the state \<open>k\<close> of the kernel: what it returns, and
  the state after it.  A call that returns no byte ends the loop, so every round adds to the content and
  the loop ends.
\<close>

function readToString_loop ::
  "('k \<Rightarrow> nat \<Rightarrow> read_result \<times> 'k) \<Rightarrow> nat \<Rightarrow> string \<Rightarrow> int \<Rightarrow> 'k \<Rightarrow> string \<times> int \<times> 'k" where
  "readToString_loop rd maxSize content err k =
     (if length content < maxSize then
        let toRead = min (maxSize - length content) kBufferSize in
        (case rd k toRead of
           (Read_Data bs, k) \<Rightarrow>
             if length bs > 0 then readToString_loop rd maxSize (content @ bs) err k else (content, err, k)
         | (Read_Err e, k) \<Rightarrow> (content, e, k))
      else (content, err, k))"
  by pat_completeness auto
termination
  by (relation "measure (\<lambda>(rd, maxSize, content, err, k). maxSize - length content)")
    (auto intro!: diff_less_mono2)

declare readToString_loop.simps [simp del]

record read_file =
  rf_err :: int
  rf_content :: string
  rf_fileSize :: "int option"
  rf_modifyTime :: "int option"
  rf_createTime :: "int option"

text \<open>
  The part before the loop.  The three flags say which of the output pointers are given.  \<^verbatim>\<open>reserve\<close> of
  a negative number converts it to a size that no string has.
\<close>

definition readToString_stat ::
  "int \<Rightarrow> bool \<Rightarrow> bool \<Rightarrow> bool \<Rightarrow> stat_result \<Rightarrow> int \<Rightarrow> read_file outcome" where
  "readToString_stat maxSize fileSize modifyTime createTime fstat err =
     (let r = \<lparr>rf_err = err, rf_content = [], rf_fileSize = None, rf_modifyTime = None, rf_createTime = None\<rparr> in
      if fileSize then
        (case fstat of
           Stat_Failed e \<Rightarrow> Inr (r\<lparr>rf_err := e\<rparr>)
         | Stat mode sz mt ct \<Rightarrow>
             if mode = Regular \<and> min maxSize sz < 0 then Inl Length_Error
             else Inr (r\<lparr>rf_err := (if mode = Directory then EISDIR else err),
                         rf_fileSize := (if mode = Regular then Some sz else None),
                         rf_modifyTime := (if modifyTime then Some mt else None),
                         rf_createTime := (if createTime then Some ct else None)\<rparr>))
      else Inr r)"

text \<open>\<open>content\<close> is what the caller's string holds before; it is kept when the file could not be opened.\<close>

definition readToString ::
  "int \<Rightarrow> bool \<Rightarrow> bool \<Rightarrow> bool \<Rightarrow> stat_result \<Rightarrow> ('k \<Rightarrow> nat \<Rightarrow> read_result \<times> 'k) \<Rightarrow> 'k \<Rightarrow> string
   \<Rightarrow> SmallFile \<Rightarrow> (read_file \<times> 'k) outcome" where
  "readToString maxSize fileSize modifyTime createTime fstat rd k content f =
     (if sf_fd f \<ge> 0 then
        seq (readToString_stat maxSize fileSize modifyTime createTime fstat (sf_err f)) (\<lambda>r.
          let (content, err, k) = readToString_loop rd (size_of_int maxSize) [] (rf_err r) k
          in Inr (r\<lparr>rf_content := content, rf_err := err\<rparr>, k))
      else Inr (\<lparr>rf_err = sf_err f, rf_content = content, rf_fileSize = None, rf_modifyTime = None,
                 rf_createTime = None\<rparr>, k))"

definition readFile ::
  "int \<Rightarrow> int \<Rightarrow> int \<Rightarrow> bool \<Rightarrow> bool \<Rightarrow> bool \<Rightarrow> stat_result \<Rightarrow> ('k \<Rightarrow> nat \<Rightarrow> read_result \<times> 'k) \<Rightarrow> 'k
   \<Rightarrow> string \<Rightarrow> (read_file \<times> 'k) outcome" where
  "readFile fd errno maxSize fileSize modifyTime createTime fstat rd k content =
     readToString maxSize fileSize modifyTime createTime fstat rd k content (SmallFile_new fd errno)"

text \<open>\<^verbatim>\<open>readToBuffer\<close>; \<open>pread n\<close> is the call that asks for \<open>n\<close> bytes from the start of the file.\<close>

definition readToBuffer :: "(nat \<Rightarrow> read_result) \<Rightarrow> SmallFile \<Rightarrow> SmallFile \<times> int \<times> int option" where
  "readToBuffer pread f =
     (if sf_fd f \<ge> 0 then
        (case pread (kBufferSize - 1) of
           Read_Data bs \<Rightarrow> (f\<lparr>sf_buf := bs\<rparr>, sf_err f, Some (int32 (int (length bs))))
         | Read_Err e \<Rightarrow> (f, e, None))
      else (f, sf_err f, None))"

section \<open>Reading the whole file\<close>

text \<open>
  What POSIX says of \<^verbatim>\<open>read\<close> on a file of which \<open>rest k\<close> is still to be read: it returns the next bytes, at
  most as many as are asked for and none only at the end of the file (or when none is asked for); or it
  fails, sets \<^verbatim>\<open>errno\<close> to a number other than 0 and leaves the offset.
\<close>

definition reads_file :: "('k \<Rightarrow> nat \<Rightarrow> read_result \<times> 'k) \<Rightarrow> ('k \<Rightarrow> string) \<Rightarrow> bool" where
  "reads_file rd rest \<longleftrightarrow>
     (\<forall>k n. case rd k n of
        (Read_Data bs, k') \<Rightarrow> rest k = bs @ rest k' \<and> length bs \<le> n \<and> (bs = [] \<longrightarrow> n = 0 \<or> rest k = [])
      | (Read_Err e, k') \<Rightarrow> e \<noteq> 0 \<and> rest k' = rest k)"

lemma reads_file_data:
  "reads_file rd rest \<Longrightarrow> rd k n = (Read_Data bs, k') \<Longrightarrow>
     rest k = bs @ rest k' \<and> length bs \<le> n \<and> (bs = [] \<longrightarrow> n = 0 \<or> rest k = [])"
  unfolding reads_file_def by (drule spec [of _ k], drule spec [of _ n]) auto

lemma reads_file_err:
  "reads_file rd rest \<Longrightarrow> rd k n = (Read_Err e, k') \<Longrightarrow> e \<noteq> 0 \<and> rest k' = rest k"
  unfolding reads_file_def by (drule spec [of _ k], drule spec [of _ n]) simp

definition read_fails :: "('k \<Rightarrow> nat \<Rightarrow> read_result \<times> 'k) \<Rightarrow> int \<Rightarrow> bool" where
  "read_fails rd e \<longleftrightarrow> (\<exists>q n q'. rd q n = (Read_Err e, q'))"

text \<open>What the loop leaves: no byte beyond the limit is taken from the file, and none is dropped.\<close>

definition prefix_read ::
  "('k \<Rightarrow> nat \<Rightarrow> read_result \<times> 'k) \<Rightarrow> ('k \<Rightarrow> string) \<Rightarrow> nat \<Rightarrow> string \<Rightarrow> int \<Rightarrow> string \<times> int \<times> 'k \<Rightarrow> bool" where
  "prefix_read rd rest m whole err out =
     (case out of (content, err', k') \<Rightarrow>
        content @ rest k' = whole \<and> length content \<le> m
        \<and> (err' = err \<and> content = take m whole \<or> err' \<noteq> 0 \<and> read_fails rd err'))"

lemma readToString_loop_prefix:
  assumes "reads_file rd rest" "length content \<le> m"
  shows "prefix_read rd rest m (content @ rest k) err (readToString_loop rd m content err k)"
  using assms
proof (induction rd m content err k rule: readToString_loop.induct)
  case (1 rd m content err k)
  show ?case
  proof (cases "length content < m")
    case False
    with "1.prems"(2) have "content = take m (content @ rest k)" by simp
    with False "1.prems"(2) show ?thesis
      by (simp add: readToString_loop.simps [of rd m content] prefix_read_def)
  next
    case True
    define toRead where "toRead = min (m - length content) kBufferSize"
    obtain res k' where rd: "rd k toRead = (res, k')" by (cases "rd k toRead")
    show ?thesis
    proof (cases res)
      case (Read_Err e)
      with rd have e: "e \<noteq> 0" "rest k' = rest k" "read_fails rd e"
        using reads_file_err [OF "1.prems"(1), of k toRead e k'] by (auto simp: read_fails_def intro: exI [of _ k])
      then show ?thesis
        using True rd Read_Err
        by (auto simp: readToString_loop.simps [of rd m content] prefix_read_def Let_def toRead_def)
    next
      case (Read_Data bs)
      with rd have bs: "rest k = bs @ rest k'" "length bs \<le> toRead" "bs = [] \<longrightarrow> toRead = 0 \<or> rest k = []"
        using reads_file_data [OF "1.prems"(1), of k toRead bs k'] by auto
      have pos: "0 < toRead" "toRead \<le> m - length content"
        using True by (simp_all add: toRead_def kBufferSize_def)
      show ?thesis
      proof (cases "bs = []")
        case True
        then show ?thesis
          using bs pos rd Read_Data \<open>length content < m\<close>
          by (auto simp: readToString_loop.simps [of rd m content] prefix_read_def Let_def toRead_def)
      next
        case False
        then have "prefix_read rd rest m ((content @ bs) @ rest k') err
            (readToString_loop rd m (content @ bs) err k')"
          using True rd Read_Data bs(2) pos "1.prems"
          by (intro "1.IH") (auto simp: toRead_def)
        then show ?thesis
          using True False rd Read_Data bs(1)
          by (simp add: readToString_loop.simps [of rd m content] Let_def toRead_def)
      qed
    qed
  qed
qed

text \<open>
  C30: Reading a regular file returns its beginning, up to the given size, and ends.  However the kernel
  cuts the file into pieces, and whichever of the output pointers are given: the bytes returned followed
  by what is left unread are the file, there are at most \<^verbatim>\<open>maxSize\<close> of them, and when no error is returned
  they are the first \<^verbatim>\<open>maxSize\<close> bytes, or the whole file.  An error that is returned is one that a
  \<^verbatim>\<open>read\<close> reported.  The size and the times are those of \<^verbatim>\<open>fstat\<close>.
\<close>

theorem readFile_prefix:
  assumes "reads_file rd rest" "0 \<le> fd" "0 \<le> maxSize" "maxSize < 2 ^ 31"
    "fstat = Stat Regular sz mt ct" "0 \<le> sz"
  shows "\<exists>r k'. readFile fd errno maxSize fileSize modifyTime createTime fstat rd k old = Inr (r, k')
    \<and> rf_content r @ rest k' = rest k \<and> length (rf_content r) \<le> nat maxSize
    \<and> (rf_err r = 0 \<longrightarrow> rf_content r = take (nat maxSize) (rest k))
    \<and> (rf_err r \<noteq> 0 \<longrightarrow> read_fails rd (rf_err r))
    \<and> rf_fileSize r = (if fileSize then Some sz else None)
    \<and> rf_modifyTime r = (if fileSize \<and> modifyTime then Some mt else None)
    \<and> rf_createTime r = (if fileSize \<and> createTime then Some ct else None)"
proof -
  have "size_of_int maxSize = nat maxSize"
    using size_of_int_nat [of "nat maxSize"] assms(3,4) by simp
  moreover obtain content err k' where l: "readToString_loop rd (nat maxSize) [] 0 k = (content, err, k')"
    by (metis prod_cases3)
  moreover have "prefix_read rd rest (nat maxSize) (rest k) 0 (content, err, k')"
    using readToString_loop_prefix [OF assms(1), of "[]" "nat maxSize" k 0] l by simp
  ultimately show ?thesis
    using assms
    by (auto simp: readFile_def readToString_def SmallFile_new_def readToString_stat_def Let_def prefix_read_def)
qed

text \<open>A kernel that serves a file in pieces, at most so many bytes a call, or fails.\<close>

datatype read_choice = Serve nat | Fail int

fun file_read :: "string \<times> read_choice list \<Rightarrow> nat \<Rightarrow> read_result \<times> string \<times> read_choice list" where
  "file_read (rest, []) n = (Read_Data (take n rest), drop n rest, [])"
| "file_read (rest, Serve s # cs) n =
     (Read_Data (take (min (Suc s) n) rest), drop (min (Suc s) n) rest, cs)"
| "file_read (rest, Fail e # cs) n =
     (if e = 0 then (Read_Data (take n rest), drop n rest, cs) else (Read_Err e, rest, cs))"

lemma file_read_reads: "reads_file file_read fst"
  unfolding reads_file_def
proof (intro allI)
  fix k :: "string \<times> read_choice list" and n
  show "case file_read k n of
      (Read_Data bs, k') \<Rightarrow> fst k = bs @ fst k' \<and> length bs \<le> n \<and> (bs = [] \<longrightarrow> n = 0 \<or> fst k = [])
    | (Read_Err e, k') \<Rightarrow> e \<noteq> 0 \<and> fst k' = fst k"
    by (cases "(k, n)" rule: file_read.cases) auto
qed

theorem readFile_prefix_witness:
  "(\<exists>r k'. readFile 3 0 4 True False False (Stat Regular 6 10 20) file_read
       (''abcdef'', [Serve 1, Serve 0, Serve 5]) ''xyz'' = Inr (r, k')
     \<and> rf_content r = ''abcd'' \<and> rf_err r = 0 \<and> fst k' = ''ef'' \<and> rf_fileSize r = Some 6)
   \<and> (\<exists>r k'. readFile 3 0 4 False False False (Stat Regular 6 10 20) file_read
       (''abcdef'', [Serve 1, Fail 5]) ''xyz'' = Inr (r, k')
     \<and> rf_content r = ''ab'' \<and> rf_err r = 5 \<and> fst k' = ''cdef'')"
proof -
  have run: "readFile 3 0 4 True False False (Stat Regular 6 10 20) file_read
      (''abcdef'', [Serve 1, Serve 0, Serve 5]) ''xyz''
     = Inr (\<lparr>rf_err = 0, rf_content = ''abcd'', rf_fileSize = Some 6, rf_modifyTime = None,
            rf_createTime = None\<rparr>, ''ef'', [])"
    "readFile 3 0 4 False False False (Stat Regular 6 10 20) file_read (''abcdef'', [Serve 1, Fail 5]) ''xyz''
     = Inr (\<lparr>rf_err = 5, rf_content = ''ab'', rf_fileSize = None, rf_modifyTime = None,
            rf_createTime = None\<rparr>, ''cdef'', [])"
    using size_of_int_nat [of 4]
    by (simp_all add: readFile_def readToString_def SmallFile_new_def readToString_stat_def
        readToString_loop.simps Let_def kBufferSize_def)
  show ?thesis
    using readFile_prefix [OF file_read_reads, of 3 4 "Stat Regular 6 10 20" 6 10 20 0 True False False
        "(''abcdef'', [Serve 1, Serve 0, Serve 5])" "''xyz''"]
      readFile_prefix [OF file_read_reads, of 3 4 "Stat Regular 6 10 20" 6 10 20 0 False False False
        "(''abcdef'', [Serve 1, Fail 5])" "''xyz''"]
    unfolding run by simp
qed

section \<open>ProcessInfo\<close>

definition pidString :: "int \<Rightarrow> string" where
  "pidString getpid = snprintf_buf 32 (dec_int getpid)"

definition username :: "string option \<Rightarrow> string" where
  "username getpwuid = (case getpwuid of Some nm \<Rightarrow> nm | None \<Rightarrow> ''unknownuser'')"

text \<open>
  \<^verbatim>\<open>gethostname\<close> of glibc fills the array without a terminator when the name has 64 characters or more,
  and the string is then built from memory past the array; when it fails otherwise the initial text
  stays.
\<close>

definition hostname :: "string option \<Rightarrow> string outcome" where
  "hostname gethostname =
     (case gethostname of
        Some nm \<Rightarrow> if length nm < 64 then Inr nm else Inl Out_Of_Range
      | None \<Rightarrow> Inr ''unknownhost'')"

definition startTime :: "Timestamp \<Rightarrow> Timestamp" where
  "startTime g_startTime = g_startTime"

text \<open>
  \<^verbatim>\<open>scanDir\<close>: the filters always return 0, so \<^verbatim>\<open>scandir\<close> selects nothing; they work by their side
  effects on a counter and a list.
\<close>

definition fdDirFilter :: "string \<Rightarrow> int \<Rightarrow> int" where
  "fdDirFilter d_name t_numOpenedFiles =
     (if d_name \<noteq> [] \<and> is_digit (hd d_name) then t_numOpenedFiles + 1 else t_numOpenedFiles)"

definition taskDirFilter :: "string \<Rightarrow> int list \<Rightarrow> int list" where
  "taskDirFilter d_name t_pids =
     (if d_name \<noteq> [] \<and> is_digit (hd d_name) then t_pids @ [c_atoi d_name] else t_pids)"

definition scanDir :: "(string \<Rightarrow> 's \<Rightarrow> 's) \<Rightarrow> string list \<Rightarrow> 's \<Rightarrow> 's" where
  "scanDir filt entries s = fold filt entries s"

definition procStatus :: "int \<Rightarrow> ('k \<Rightarrow> nat \<Rightarrow> read_result \<times> 'k) \<Rightarrow> 'k \<Rightarrow> (string \<times> 'k) outcome" where
  "procStatus fd rd k =
     seq (readFile fd 0 65536 False False False (Stat_Failed 0) rd k []) (\<lambda>(r, k). Inr (rf_content r, k))"

definition openedFiles :: "string list \<Rightarrow> int" where
  "openedFiles entries = scanDir fdDirFilter entries 0"

definition maxOpenFiles :: "nat option \<Rightarrow> string list \<Rightarrow> int" where
  "maxOpenFiles getrlimit entries =
     (case getrlimit of None \<Rightarrow> openedFiles entries | Some cur \<Rightarrow> int32 (int cur))"

definition numThreads :: "string \<Rightarrow> int" where
  "numThreads status =
     (case first_match ''Threads:'' status of None \<Rightarrow> 0 | Some pos \<Rightarrow> c_atoi (drop (pos + 8) status))"

definition threads :: "string list \<Rightarrow> int list" where
  "threads entries = sort (scanDir taskDirFilter entries [])"

lemma scan_fds: "scanDir fdDirFilter es n = n + int (length (filter (\<lambda>e. e \<noteq> [] \<and> is_digit (hd e)) es))"
  by (induction es arbitrary: n) (auto simp: scanDir_def fdDirFilter_def)

lemma scan_tasks:
  "scanDir taskDirFilter es ps = ps @ map c_atoi (filter (\<lambda>e. e \<noteq> [] \<and> is_digit (hd e)) es)"
  by (induction es arbitrary: ps) (auto simp: scanDir_def taskDirFilter_def)

text \<open>The number of open files and of threads are those of the entries that begin with a digit.\<close>

lemma openedFiles_count: "openedFiles es = int (length (filter (\<lambda>e. e \<noteq> [] \<and> is_digit (hd e)) es))"
  by (simp add: openedFiles_def scan_fds)

lemma threads_sorted:
  "sorted (threads es)"
  "mset (threads es) = mset (map c_atoi (filter (\<lambda>e. e \<noteq> [] \<and> is_digit (hd e)) es))"
  by (simp_all add: threads_def scan_tasks)

section \<open>Exception\<close>

record Exception =
  ex_message :: string
  ex_stack :: string

text \<open>\<open>symbols\<close> is what \<^verbatim>\<open>backtrace_symbols\<close> returns for at most 200 frames, or null.\<close>

definition fillStackTrace :: "string list option \<Rightarrow> Exception \<Rightarrow> Exception" where
  "fillStackTrace symbols e =
     (case symbols of
        Some ss \<Rightarrow> fold (\<lambda>s e. e\<lparr>ex_stack := ex_stack e @ s @ [CHR 0x0A]\<rparr>) ss e
      | None \<Rightarrow> e)"

definition Exception_new :: "string list option \<Rightarrow> string \<Rightarrow> Exception" where
  "Exception_new symbols msg = fillStackTrace symbols \<lparr>ex_message = msg, ex_stack = []\<rparr>"

lemma fold_stack: "ex_stack (fold (\<lambda>s e. e\<lparr>ex_stack := ex_stack e @ s @ [CHR 0x0A]\<rparr>) ss e)
    = ex_stack e @ concat (map (\<lambda>s. s @ [CHR 0x0A]) ss)"
  by (induction ss arbitrary: e) simp_all

lemma exception_stack:
  "ex_stack (Exception_new (Some ss) msg) = concat (map (\<lambda>s. s @ [CHR 0x0A]) ss)"
  by (simp add: Exception_new_def fillStackTrace_def fold_stack)

end
