(* ===== verification/Config.thy ===== *)
theory Config
  imports Com_Port File_Util "HOL-Library.Monad_Syntax"
begin

text \<open>
  \<^verbatim>\<open>src/src/bussiness_logic/ConfigMgr.h\<close>, \<^verbatim>\<open>ConfigMgr.cpp\<close>, \<^verbatim>\<open>MonitorUnit.h\<close>, \<^verbatim>\<open>MonitorUnit.cpp\<close>, \<^verbatim>\<open>MeasurePoint.h\<close>
  and \<^verbatim>\<open>MeasurePoint.cpp\<close>: reading the configuration, and the units it describes.  TinyXML is not part of
  the repository: the functions the code calls are a parameter.  Its loops may not end, and a
  function with such a loop is a partial one: \<open>None\<close> means that it does not return.
\<close>

section \<open>MeasureParam, MeasurePoint and MonitorUnit\<close>

record MeasureParam =
  mp_name :: string
  mp_value :: string

definition MeasureParam_new :: "string \<Rightarrow> string \<Rightarrow> MeasureParam" where
  "MeasureParam_new nm v = \<lparr>mp_name = nm, mp_value = v\<rparr>"

definition MeasureParam_setName :: "string \<Rightarrow> MeasureParam \<Rightarrow> MeasureParam" where
  "MeasureParam_setName nm p = p\<lparr>mp_name := nm\<rparr>"

definition MeasureParam_setValue :: "string \<Rightarrow> MeasureParam \<Rightarrow> MeasureParam" where
  "MeasureParam_setValue v p = p\<lparr>mp_value := v\<rparr>"

definition MeasureParam_getName :: "MeasureParam \<Rightarrow> string" where
  "MeasureParam_getName p = mp_name p"

definition MeasureParam_getValue :: "MeasureParam \<Rightarrow> string" where
  "MeasureParam_getValue p = mp_value p"

record MeasurePoint =
  mpt_iedname :: string
  mpt_deviceid :: string
  mpt_id :: string
  mpt_checktime :: string
  mpt_params :: "string \<Rightarrow> MeasureParam option"

definition MeasurePoint_new :: MeasurePoint where
  "MeasurePoint_new = \<lparr>mpt_iedname = [], mpt_deviceid = [], mpt_id = [], mpt_checktime = [],
     mpt_params = (\<lambda>_. None)\<rparr>"

definition MeasurePoint_init :: "MeasurePoint \<Rightarrow> MeasurePoint" where
  "MeasurePoint_init p = p"

record MonitorUnit =
  mu_name :: string
  mu_desc :: string
  mu_interval :: string
  mu_protocol :: string
  mu_port :: string
  mu_vendor :: string
  mu_cycleid :: string
  mu_mac :: string
  mu_ytime :: string
  mu_loop :: "nat option"
  mu_tInterval :: TimerId
  mu_ts_interval :: Timestamp
  mu_monitorUnitOnIntervalCallback :: "nat option"
  mu_updateDBCallback :: "nat option"
  mu_measurePoints :: "string \<Rightarrow> MeasurePoint option"

definition MonitorUnit_new where
  "MonitorUnit_new loop nm desc interval protocol prt vendor cycleid mac ytime =
     \<lparr>mu_name = nm, mu_desc = desc, mu_interval = interval, mu_protocol = protocol, mu_port = prt,
      mu_vendor = vendor, mu_cycleid = cycleid, mu_mac = mac, mu_ytime = ytime, mu_loop = loop,
      mu_tInterval = TimerId_default, mu_ts_interval = Timestamp_of (c_strtol interval),
      mu_monitorUnitOnIntervalCallback = None, mu_updateDBCallback = None, mu_measurePoints = (\<lambda>_. None)\<rparr>"

text \<open>\<^verbatim>\<open>start\<close>, \<^verbatim>\<open>stop\<close> and \<^verbatim>\<open>updateInterval\<close> have empty bodies, and \<^verbatim>\<open>isRunning\<close> is always true.\<close>

definition mu_start :: "MonitorUnit \<Rightarrow> MonitorUnit" where "mu_start u = u"
definition mu_stop :: "MonitorUnit \<Rightarrow> MonitorUnit" where "mu_stop u = u"
definition mu_isRunning :: "MonitorUnit \<Rightarrow> bool" where "mu_isRunning u = True"

definition mu_updateInterval :: "string \<Rightarrow> MonitorUnit \<Rightarrow> MonitorUnit" where
  "mu_updateInterval newInterval u = u"

definition mu_setName :: "string \<Rightarrow> MonitorUnit \<Rightarrow> MonitorUnit" where
  "mu_setName nm u = u\<lparr>mu_name := nm\<rparr>"

definition mu_setDesc :: "string \<Rightarrow> MonitorUnit \<Rightarrow> MonitorUnit" where
  "mu_setDesc desc u = u\<lparr>mu_desc := desc\<rparr>"

definition mu_setInterval :: "string \<Rightarrow> MonitorUnit \<Rightarrow> MonitorUnit \<times> string" where
  "mu_setInterval newInterval u = (mu_updateInterval newInterval u, mu_interval u)"

text \<open>
  \<^verbatim>\<open>updateProtocol\<close> and \<^verbatim>\<open>updatePort\<close> are declared and nowhere defined: they are the argument \<open>upd\<close>.
\<close>

definition mu_setProtocol :: "(string \<Rightarrow> MonitorUnit \<Rightarrow> MonitorUnit) \<Rightarrow> string \<Rightarrow> MonitorUnit \<Rightarrow> MonitorUnit \<times> string" where
  "mu_setProtocol upd newProtocol u = (upd newProtocol u, mu_protocol u)"

definition mu_setPort :: "(string \<Rightarrow> MonitorUnit \<Rightarrow> MonitorUnit) \<Rightarrow> string \<Rightarrow> MonitorUnit \<Rightarrow> MonitorUnit \<times> string" where
  "mu_setPort upd newPort u = (upd newPort u, mu_port u)"

definition mu_setVendor :: "string \<Rightarrow> MonitorUnit \<Rightarrow> MonitorUnit" where
  "mu_setVendor vendor u = u\<lparr>mu_vendor := vendor\<rparr>"

definition mu_setCycleid :: "string \<Rightarrow> MonitorUnit \<Rightarrow> MonitorUnit" where
  "mu_setCycleid cycleid u = u\<lparr>mu_cycleid := cycleid\<rparr>"

definition mu_setMac :: "string \<Rightarrow> MonitorUnit \<Rightarrow> MonitorUnit" where
  "mu_setMac mac u = u\<lparr>mu_mac := mac\<rparr>"

definition mu_setYtime :: "string \<Rightarrow> MonitorUnit \<Rightarrow> MonitorUnit" where
  "mu_setYtime ytime u = u\<lparr>mu_ytime := ytime\<rparr>"

definition setMonitorUnitOnIntervalCallback :: "nat option \<Rightarrow> MonitorUnit \<Rightarrow> MonitorUnit" where
  "setMonitorUnitOnIntervalCallback cb u = u\<lparr>mu_monitorUnitOnIntervalCallback := cb\<rparr>"

definition setUpdateDBCallback :: "nat option \<Rightarrow> MonitorUnit \<Rightarrow> MonitorUnit" where
  "setUpdateDBCallback cb u = u\<lparr>mu_updateDBCallback := cb\<rparr>"

definition mu_getName :: "MonitorUnit \<Rightarrow> string" where "mu_getName u = mu_name u"
definition mu_getDesc :: "MonitorUnit \<Rightarrow> string" where "mu_getDesc u = mu_desc u"
definition mu_getInterval :: "MonitorUnit \<Rightarrow> string" where "mu_getInterval u = mu_interval u"
definition mu_getProtocol :: "MonitorUnit \<Rightarrow> string" where "mu_getProtocol u = mu_protocol u"
definition mu_getPort :: "MonitorUnit \<Rightarrow> string" where "mu_getPort u = mu_port u"
definition mu_getVendor :: "MonitorUnit \<Rightarrow> string" where "mu_getVendor u = mu_vendor u"
definition mu_getCycleid :: "MonitorUnit \<Rightarrow> string" where "mu_getCycleid u = mu_cycleid u"
definition mu_getMac :: "MonitorUnit \<Rightarrow> string" where "mu_getMac u = mu_mac u"
definition mu_getYtime :: "MonitorUnit \<Rightarrow> string" where "mu_getYtime u = mu_ytime u"

lemmas mu_get_defs = mu_getName_def mu_getDesc_def mu_getInterval_def mu_getProtocol_def mu_getPort_def mu_getVendor_def mu_getCycleid_def mu_getMac_def mu_getYtime_def

text \<open>
  A unit answers with what it was given: first by its constructor, then by its setters, which change one
  member each.  Only the interval stays, because \<^verbatim>\<open>updateInterval\<close> does nothing.
\<close>

lemma mu_new_get:
  "mu_getName (MonitorUnit_new l nm d iv pr pt v c m y) = nm" "mu_getDesc (MonitorUnit_new l nm d iv pr pt v c m y) = d"
  "mu_getInterval (MonitorUnit_new l nm d iv pr pt v c m y) = iv" "mu_getProtocol (MonitorUnit_new l nm d iv pr pt v c m y) = pr"
  "mu_getPort (MonitorUnit_new l nm d iv pr pt v c m y) = pt" "mu_getVendor (MonitorUnit_new l nm d iv pr pt v c m y) = v"
  "mu_getCycleid (MonitorUnit_new l nm d iv pr pt v c m y) = c" "mu_getMac (MonitorUnit_new l nm d iv pr pt v c m y) = m"
  "mu_getYtime (MonitorUnit_new l nm d iv pr pt v c m y) = y"
  by (simp_all add: MonitorUnit_new_def mu_get_defs)

lemma mu_setInterval_get: "mu_setInterval iv u = (u, mu_getInterval u)"
  by (simp add: mu_setInterval_def mu_updateInterval_def mu_getInterval_def)

lemma mu_set_new:
  "mu_setYtime y' (mu_setMac m' (mu_setCycleid c' (mu_setVendor v' (mu_setDesc d' (mu_setName nm'
     (MonitorUnit_new l nm d iv pr pt v c m y)))))) = MonitorUnit_new l nm' d' iv pr pt v' c' m' y'"
  by (simp add: MonitorUnit_new_def mu_setName_def mu_setDesc_def mu_setVendor_def mu_setCycleid_def mu_setMac_def mu_setYtime_def)

section \<open>ConfigMgr\<close>


text \<open>What \<^verbatim>\<open>configUpdateCallback_\<close> may hold: \<^verbatim>\<open>onUpdate\<close> of the manager, or a function of the application.\<close>

datatype config_callback = On_Update | User_Update nat

text \<open>
  The manager, with the serial ports of the system and the heap of channels in which it creates
  entities; \<open>cm_chan\<close> is the next free address there.  The loop of these entities is \<^verbatim>\<open>NULL\<close>, written 0.
\<close>

record ConfigMgr =
  cm_globalConfigPath :: string
  cm_configUpdateCallback :: "config_callback option"
  cm_comEntityMap :: "string \<Rightarrow> ComEntity option"
  cm_monitorUnitMap :: "string \<Rightarrow> MonitorUnit option"
  cm_os :: serial_os
  cm_heap :: "com_cb loop_cb chan_heap"
  cm_chan :: chan_addr



definition setConfigUpdateCallback :: "config_callback option \<Rightarrow> ConfigMgr \<Rightarrow> ConfigMgr" where
  "setConfigUpdateCallback cb m = m\<lparr>cm_configUpdateCallback := cb\<rparr>"

















section \<open>Reading the configuration\<close>




























end
