(* ===== verification/Timer_Test.thy ===== *)
theory Timer_Test
  imports Loop_Safety
begin

text \<open>
  \<^verbatim>\<open>src/src/unittest/Timer_unittest.cpp\<close>: a program that sets timers, some of which cancel others, and prints.
  It shows what the missing entries of \<^verbatim>\<open>activeTimers_\<close> mean for a user of \<^verbatim>\<open>EventLoop::cancel\<close>.
\<close>

section \<open>The program\<close>

text \<open>The functions that the program binds into timers.\<close>

datatype test_cb = Test_print string | Test_cancel TimerId | Test_printTid

text \<open>The loop, to which \<^verbatim>\<open>g_loop\<close> points, with the counter and the lines printed so far.\<close>

record test_world = "test_cb EventLoop" +
  ut_cnt :: int
  ut_out :: "string list"

definition put_line :: "string \<Rightarrow> test_world \<Rightarrow> test_world" where
  "put_line s w = w\<lparr>ut_out := ut_out w @ [s]\<rparr>"

text \<open>\<open>pid\<close> is what \<^verbatim>\<open>getpid\<close> returns; \<open>tid\<close> is the thread that calls.\<close>

definition test_printTid :: "int \<Rightarrow> int \<Rightarrow> test_world \<Rightarrow> test_world" where
  "test_printTid pid tid w =
     put_line (''now '' @ Timestamp_toString (el_clock w))
       (put_line (''pid = '' @ dec_int pid @ '', tid = '' @ dec_int tid) w)"

definition test_print :: "int \<Rightarrow> string \<Rightarrow> test_world \<Rightarrow> test_world" where
  "test_print tid msg w =
     (let w = put_line (''msg '' @ Timestamp_toString (el_clock w) @ '' '' @ msg) w;
          w = w\<lparr>ut_cnt := ut_cnt w + 1\<rparr>
      in if ut_cnt w = 20 then EventLoop_quit tid w else w)"

text \<open>\<^verbatim>\<open>EventLoop::cancel\<close> calls no function of the program.\<close>

definition test_cancel :: "test_cb loop_env \<Rightarrow> int \<Rightarrow> TimerId \<Rightarrow> test_world \<Rightarrow> test_world outcome" where
  "test_cancel env tid timer w =
     seq (EventLoop_cancel env (\<lambda>u t. Inr) tid timer w) (\<lambda>w.
       Inr (put_line (''cancelled at '' @ Timestamp_toString (el_clock w)) w))"

fun test_user :: "test_cb loop_env \<Rightarrow> int \<Rightarrow> test_cb \<Rightarrow> Timestamp option \<Rightarrow> test_world \<Rightarrow> test_world outcome" where
  "test_user env pid (Test_print msg) t w = Inr (test_print (el_threadId w) msg w)"
| "test_user env pid (Test_cancel timer) t w = test_cancel env (el_threadId w) timer w"
| "test_user env pid Test_printTid t w = Inr (test_printTid pid (el_threadId w) w)"

text \<open>\<^verbatim>\<open>main\<close> from the construction of the loop to its call of \<^verbatim>\<open>loop()\<close>, with \<open>w\<close> the new loop.\<close>

definition test_main :: "test_cb loop_env \<Rightarrow> int \<Rightarrow> int \<Rightarrow> test_world \<Rightarrow> test_world outcome" where
  "test_main env pid tid w =
     (let user = test_user env pid; w = test_print tid ''main'' w in
      seq (runAfter env user tid 1 (Test_print ''once1'') w) (\<lambda>(w, _).
      seq (runAfter env user tid 1.5 (Test_print ''once1.5'') w) (\<lambda>(w, _).
      seq (runAfter env user tid 2.5 (Test_print ''once2.5'') w) (\<lambda>(w, _).
      seq (runAfter env user tid 3.5 (Test_print ''once3.5'') w) (\<lambda>(w, _).
      seq (runAfter env user tid 4.5 (Test_print ''once4.5'') w) (\<lambda>(w, t45).
      seq (runAfter env user tid 4.2 (Test_cancel t45) w) (\<lambda>(w, _).
      seq (runAfter env user tid 4.8 (Test_cancel t45) w) (\<lambda>(w, _).
      seq (runEvery env user tid 2 (Test_print ''every2'') w) (\<lambda>(w, _).
      seq (runEvery env user tid 3 (Test_print ''every3'') w) (\<lambda>(w, t3).
      seq (runAfter env user tid 9.001 (Test_cancel t3) w) (\<lambda>(w, _).
        Inr w)))))))))))"

section \<open>What a timer callback does\<close>

text \<open>The lines that a callback prints at time \<open>now\<close>.\<close>

fun test_lines :: "int \<Rightarrow> int \<Rightarrow> Timestamp \<Rightarrow> test_cb \<Rightarrow> string list" where
  "test_lines pid tid now (Test_print msg) = [''msg '' @ Timestamp_toString now @ '' '' @ msg]"
| "test_lines pid tid now (Test_cancel timer) = [''cancelled at '' @ Timestamp_toString now]"
| "test_lines pid tid now Test_printTid =
     [''pid = '' @ dec_int pid @ '', tid = '' @ dec_int tid, ''now '' @ Timestamp_toString now]"

definition same_timers :: "'cb TimerQueue \<Rightarrow> 'cb TimerQueue \<Rightarrow> bool" where
  "same_timers q q' \<longleftrightarrow> tq_timers q' = tq_timers q \<and> tq_heap q' = tq_heap q"

lemma cancel_same_timers:
  assumes "tq_inv fl q"
  shows "\<exists>r. cancelInLoop i q = Inr r \<and> same_timers q r \<and> tq_inv fl r"
  using assms cancelInLoop_inactive [of q i] by (simp add: tq_inv_def same_timers_def)

lemma test_user_effect:
  assumes "tq_inv fl (el_timerQueue w)"
  shows "\<exists>w'. test_user env pid u t w = Inr w' \<and> tq_inv fl (el_timerQueue w')
    \<and> same_timers (el_timerQueue w) (el_timerQueue w') \<and> el_clock w' = el_clock w \<and> el_threadId w' = el_threadId w
    \<and> chans w' = chans w \<and> el_poller w' = el_poller w \<and> el_pendingFunctors w' = el_pendingFunctors w
    \<and> ut_out w' = ut_out w @ test_lines pid (el_threadId w) (el_clock w) u"
proof (cases u)
  case (Test_cancel i)
  then show ?thesis
    using cancel_same_timers [OF assms, of i]
    by (auto simp: test_cancel_def EventLoop_cancel_def runInLoop_def isInLoopThread_def on_timers_def put_line_def)
qed (use assms in \<open>auto simp: test_print_def test_printTid_def put_line_def same_timers_def EventLoop_quit_def wakeup_def Let_def\<close>)

lemma test_keeps_timers: "user_keeps_timers (test_user env pid)"
  unfolding user_keeps_timers_def keeps_timers_def
  by (metis map_le_refl same_timers_def sum.inject(2) test_user_effect)

text \<open>The loop is safe with the functions of the program.\<close>

interpretation test: safe_loop "test_user env pid" A n UNIV "\<lambda>w. True" for env pid A n
proof
  fix u fl t and w :: test_world
  assume w: "safe_world A n UNIV (\<lambda>w. True) w" "tq_inv fl (el_timerQueue w)"
  obtain w' where w': "test_user env pid u t w = Inr w'" "same_timers (el_timerQueue w) (el_timerQueue w')"
      "chans w' = chans w" "el_poller w' = el_poller w" "el_pendingFunctors w' = el_pendingFunctors w"
    using test_user_effect [OF w(2)] by blast
  have "safe_world A n UNIV (\<lambda>w. True) w'"
    using w(1) w'(2-5) by (simp add: safe_world_def safe_channels_def safe_timers_def same_timers_def)
  then show "\<exists>w'. test_user env pid u t w = Inr w' \<and> safe_world A n UNIV (\<lambda>w. True) w'
      \<and> keeps_timers (el_timerQueue w) (el_timerQueue w')"
    using w'(1) test_keeps_timers by (auto simp: user_keeps_timers_def)
qed simp

lemma test_calls_effect:
  assumes "tq_inv fl (el_timerQueue w)"
  shows "\<exists>w'. run_calls (test_user env pid) (map (\<lambda>u. (u, None)) us) w = Inr w' \<and> tq_inv fl (el_timerQueue w')
    \<and> same_timers (el_timerQueue w) (el_timerQueue w') \<and> el_threadId w' = el_threadId w
    \<and> ut_out w' = ut_out w @ concat (map (test_lines pid (el_threadId w) (el_clock w)) us)"
  using assms
proof (induction us arbitrary: w)
  case (Cons u us)
  obtain v where v: "test_user env pid u None w = Inr v" "tq_inv fl (el_timerQueue v)"
      "same_timers (el_timerQueue w) (el_timerQueue v)" "el_clock v = el_clock w" "el_threadId v = el_threadId w"
      "ut_out v = ut_out w @ test_lines pid (el_threadId w) (el_clock w) u"
    using test_user_effect [OF Cons.prems, of env pid u None] by blast
  then show ?case using Cons.IH [OF v(2)] by (auto simp: same_timers_def)
qed (simp add: same_timers_def)

section \<open>What handling the timer descriptor does\<close>

text \<open>Setting up the repeated timers again touches no other timer.\<close>

lemma reset_expired_keeps:
  assumes "reset_expired rnd now es q = Inr q'" "d \<in> set (tq_timers q)" "snd d \<notin> snd ` set es"
  shows "d \<in> set (tq_timers q') \<and> tq_heap q' (snd d) = tq_heap q (snd d)"
  using assms
proof (induction es arbitrary: q)
  case (Cons e es)
  obtain t where t: "tq_heap q (snd e) = Some t"
    using Cons.prems(1) by (auto simp: deref_def outcome_simps split: option.splits)
  have ne: "snd d \<noteq> snd e" "snd d \<notin> snd ` set es" using Cons.prems(3) by auto
  show ?case
  proof (cases "tr_repeat t \<and> (snd e, tr_sequence t) \<notin> tq_cancelingTimers q")
    case True
    then obtain r b where r: "tq_insert (snd e) (q\<lparr>tq_heap := (tq_heap q)(snd e \<mapsto> Timer_restart rnd now t)\<rparr>) = Inr (r, b)"
        "reset_expired rnd now es r = Inr q'"
      using Cons.prems(1) t by (auto simp: deref_def outcome_simps)
    then have "tq_heap r = (tq_heap q)(snd e \<mapsto> Timer_restart rnd now t)" "set (tq_timers q) \<subseteq> set (tq_timers r)"
      by (auto simp: tq_insert_def outcome_simps Let_def set_insort_key)
    then show ?thesis using Cons.IH [OF r(2) _ ne(2)] Cons.prems(2) ne(1) by auto
  next
    case False
    then have r: "reset_expired rnd now es (q\<lparr>tq_heap := (tq_heap q)(snd e := None)\<rparr>) = Inr q'"
      using Cons.prems(1) t by (auto simp: deref_def outcome_simps)
    show ?thesis using Cons.IH [OF r _ ne(2)] Cons.prems(2) ne(1) by simp
  qed
qed simp

lemma tq_reset_keeps:
  assumes "tq_reset rnd es now q = Inr q'" "d \<in> set (tq_timers q)" "snd d \<notin> snd ` set es"
  shows "d \<in> set (tq_timers q') \<and> tq_heap q' (snd d) = tq_heap q (snd d)"
proof -
  obtain x where x: "reset_expired rnd now es q = Inr x" using assms(1) by (auto simp: tq_reset_def outcome_simps)
  have "tq_heap q' = tq_heap x \<and> tq_timers q' = tq_timers x"
    using assms(1) x by (cases "tq_timers x")
      (auto simp: tq_reset_def outcome_simps Let_def resetTimerfd_def split: if_splits)
  then show ?thesis using reset_expired_keeps [OF x assms(2,3)] by simp
qed

definition due_lines :: "int \<Rightarrow> test_world \<Rightarrow> string list" where
  "due_lines pid w = concat (map (test_lines pid (el_threadId w) (el_clock w) \<circ> tr_callback \<circ> the \<circ> tq_heap (el_timerQueue w) \<circ> snd)
     (due_timers (el_clock w) (el_timerQueue w)))"

lemma due_lines_mem:
  assumes "(us, a) \<in> set (tq_timers (el_timerQueue w))" "us \<le> microSecondsSinceEpoch (el_clock w)"
    "tq_heap (el_timerQueue w) a = Some t" "s \<in> set (test_lines pid (el_threadId w) (el_clock w) (tr_callback t))"
  shows "s \<in> set (due_lines pid w)"
  unfolding due_lines_def set_concat set_map using assms
  by (intro UN_I [of "test_lines pid (el_threadId w) (el_clock w) (tr_callback t)"] image_eqI [of _ _ "(us, a)"])
    (simp_all add: due_timers_def)

lemma test_timerRead:
  assumes "tq_inv [] (el_timerQueue w)" "\<not> address_tie (el_clock w) (el_timerQueue w)"
  defines "q \<equiv> el_timerQueue w" and "due \<equiv> due_timers (el_clock w) (el_timerQueue w)"
  shows "\<exists>w'. loop_timerRead env (test_user env pid) w = Inr w' \<and> tq_inv [] (el_timerQueue w')
    \<and> el_threadId w' = el_threadId w
    \<and> ut_out w' = ut_out w @ due_lines pid w
    \<and> (\<forall>d\<in>set (tq_timers q) - set due. d \<in> set (tq_timers (el_timerQueue w'))
         \<and> tq_heap (el_timerQueue w') (snd d) = tq_heap q (snd d))"
proof -
  let ?w = "w\<lparr>el_timerQueue := taken_out (el_clock w) q\<rparr>"
  let ?us = "map (tr_callback \<circ> the \<circ> tq_heap q \<circ> snd) due"
  have inv: "tq_inv (map snd due) (el_timerQueue ?w)" using taken_out_inv [OF assms(1)] by (simp add: q_def due_def)
  obtain v where v: "run_calls (test_user env pid) (map (\<lambda>u. (u, None)) ?us) ?w = Inr v" "tq_inv (map snd due) (el_timerQueue v)"
      "same_timers (taken_out (el_clock w) q) (el_timerQueue v)" "el_threadId v = el_threadId w"
      "ut_out v = ut_out w @ concat (map (test_lines pid (el_threadId w) (el_clock w)) ?us)"
    using test_calls_effect [OF inv, of env pid ?us] by auto
  have calls: "timer_calls q due = map (\<lambda>u. (u, None)) ?us" by (simp add: timer_calls_def)
  note read = loop_timerRead_calls [OF test_keeps_timers [of env pid] assms(1,2), where env = env, folded q_def due_def, unfolded calls]
  obtain r where r: "timers_finish env due (el_clock w) v = Inr (v\<lparr>el_timerQueue := r\<rparr>)" "tq_inv [] r"
    using read(2) [OF v(1)] by blast
  have reset: "tq_reset (env_rnd env) due (el_clock w) ((el_timerQueue v)\<lparr>tq_callingExpired := False\<rparr>) = Inr r"
    using r(1) by (auto simp: timers_finish_def on_timers_def outcome_simps dest: arg_cong [of _ _ el_timerQueue])
  have "d \<in> set (tq_timers r) \<and> tq_heap r (snd d) = tq_heap q (snd d)" if d: "d \<in> set (tq_timers q) - set due" for d
  proof -
    have "d \<in> set (tq_timers (taken_out (el_clock w) q))"
      using d by (auto simp: taken_out_def due_def due_timers_def q_def)
    moreover from this have "snd d \<notin> snd ` set due" using inv by (auto simp: tq_inv_def)
    ultimately show ?thesis
      using tq_reset_keeps [OF reset, of d] v(3) by (simp add: same_timers_def taken_out_def)
  qed
  then show ?thesis
    using read(1) v(1,4,5) r by (intro exI [of _ "v\<lparr>el_timerQueue := r\<rparr>"]) (simp add: comp_assoc due_lines_def q_def due_def)
qed

section \<open>Cancelling has no effect\<close>

text \<open>
  C35: In the timer test program a timer that was cancelled prints all the same.  Whenever the timer descriptor
  is handled at a time at which a call of \<^verbatim>\<open>cancel\<close> is due and the timer that it names is not, the program
  prints that it cancelled the timer; and when the descriptor is next handled, after the time of that
  timer, the cancelled timer prints its message.
\<close>

theorem cancelled_timer_prints:
  assumes "tq_inv [] (el_timerQueue w)" "\<not> address_tie (el_clock w) (el_timerQueue w)"
    and "(us, a) \<in> set (tq_timers (el_timerQueue w))" "microSecondsSinceEpoch (el_clock w) < us"
    and "tq_heap (el_timerQueue w) a = Some timer" "tr_callback timer = Test_print msg"
    and "(cs, c) \<in> set (tq_timers (el_timerQueue w))" "cs \<le> microSecondsSinceEpoch (el_clock w)"
    and "tq_heap (el_timerQueue w) c = Some canceller" "tr_callback canceller = Test_cancel (TimerId_of a (tr_sequence timer))"
  shows "\<exists>w1 out1. loop_timerRead env (test_user env pid) w = Inr w1 \<and> ut_out w1 = ut_out w @ out1
    \<and> (''cancelled at '' @ Timestamp_toString (el_clock w)) \<in> set out1
    \<and> (\<forall>now. us \<le> microSecondsSinceEpoch now \<longrightarrow> \<not> address_tie now (el_timerQueue w1) \<longrightarrow>
        (\<exists>w2 out2. loop_timerRead env (test_user env pid) (w1\<lparr>el_clock := now\<rparr>) = Inr w2 \<and> ut_out w2 = ut_out w1 @ out2
          \<and> (''msg '' @ Timestamp_toString now @ '' '' @ msg) \<in> set out2))"
proof -
  let ?q = "el_timerQueue w"
  obtain w1 where w1: "loop_timerRead env (test_user env pid) w = Inr w1" "tq_inv [] (el_timerQueue w1)"
      "ut_out w1 = ut_out w @ due_lines pid w"
      "\<forall>d\<in>set (tq_timers ?q) - set (due_timers (el_clock w) ?q). d \<in> set (tq_timers (el_timerQueue w1))
         \<and> tq_heap (el_timerQueue w1) (snd d) = tq_heap ?q (snd d)"
    using test_timerRead [OF assms(1,2)] by blast
  have kept: "(us, a) \<in> set (tq_timers (el_timerQueue w1))" "tq_heap (el_timerQueue w1) a = Some timer"
    using bspec [OF w1(4), of "(us, a)"] assms(3-5) by (auto simp: due_timers_def)
  have "\<exists>w2 out2. loop_timerRead env (test_user env pid) (w1\<lparr>el_clock := now\<rparr>) = Inr w2 \<and> ut_out w2 = ut_out w1 @ out2
      \<and> (''msg '' @ Timestamp_toString now @ '' '' @ msg) \<in> set out2"
    if now: "us \<le> microSecondsSinceEpoch now" "\<not> address_tie now (el_timerQueue w1)" for now
  proof -
    let ?w = "w1\<lparr>el_clock := now\<rparr>"
    obtain w2 where w2: "loop_timerRead env (test_user env pid) ?w = Inr w2" "ut_out w2 = ut_out w1 @ due_lines pid ?w"
      using test_timerRead [of ?w env pid] w1(2) now(2) by auto
    have "(''msg '' @ Timestamp_toString now @ '' '' @ msg) \<in> set (due_lines pid ?w)"
      by (rule due_lines_mem [of us a _ timer]) (use kept now(1) assms(6) in simp_all)
    then show ?thesis using w2 by blast
  qed
  moreover have "(''cancelled at '' @ Timestamp_toString (el_clock w)) \<in> set (due_lines pid w)"
    by (rule due_lines_mem [OF assms(7-9)]) (simp add: assms(10))
  ultimately show ?thesis using w1(1,3) by blast
qed

text \<open>
  The program itself, started at the epoch and called back at 4.3 and at 4.6 seconds: it cancels the timer that is
  set for 4.5 seconds, at 4.2, and prints it.
\<close>

definition test_env :: "test_cb loop_env" where
  "test_env = \<lparr>env_rnd = id, env_alloc = bump_alloc, env_ctl = (\<lambda>op fd. True)\<rparr>"

definition test_start :: test_world where
  "test_start = \<lparr>chans = (\<lambda>p. None), owners = {}, el_this = 0, el_looping = False, el_quit = False, el_eventHandling = False,
     el_callingPendingFunctors = False, el_iteration = 0, el_threadId = 1, el_pollReturnTime = Timestamp_default,
     el_poller = EPoll \<lparr>ep_epollfd = 3, ep_eventsSize = 16, ep_channels = (\<lambda>fd. None), ep_kernel = (\<lambda>fd. None)\<rparr>,
     el_timerQueue = \<lparr>tq_timerfd = 5, tq_timers = [], tq_activeTimers = {}, tq_callingExpired = False,
       tq_cancelingTimers = {}, tq_heap = (\<lambda>p. None), tq_counter = Atomic_new, tq_settime = None, tq_armed = None\<rparr>,
     el_wakeupFd = 6, el_wakeupChannel = 9, el_activeChannels = [], el_currentActiveChannel = None,
     el_pendingFunctors = [], el_clock = Timestamp_of 0, ut_cnt = 0, ut_out = []\<rparr>"

lemmas test_main_defs = test_main_def runAfter_def runAt_def runEvery_def loop_addTimer_def Let_def Timer_new_def
  incrementAndGet_def addAndGet_def getAndAdd_def runInLoop_def isInLoopThread_def on_timers_def addTimerInLoop_def
  tq_insert_def deref_def resetTimerfd_def test_print_def put_line_def bump_alloc_def addTime_def trunc_to_zero_def
  kMicroSecondsPerSecond_def Timestamp_of_def test_env_def test_start_def

lemma test_main_runs:
  "\<exists>w t c. test_main test_env 7 1 test_start = Inr w \<and> tq_inv [] (el_timerQueue w) \<and> safe_world {} 0 UNIV (\<lambda>w. True) w
    \<and> map fst (tq_timers (el_timerQueue w))
        = [1000000, 1500000, 2000000, 2500000, 3000000, 3500000, 4200000, 4500000, 4800000, 9001000]
    \<and> (4500000, 5) \<in> set (tq_timers (el_timerQueue w)) \<and> (4200000, 6) \<in> set (tq_timers (el_timerQueue w))
    \<and> tq_heap (el_timerQueue w) 5 = Some t \<and> tr_callback t = Test_print ''once4.5''
    \<and> tq_heap (el_timerQueue w) 6 = Some c \<and> tr_callback c = Test_cancel (TimerId_of 5 (tr_sequence t))"
  by (simp add: test_main_defs tq_inv_def safe_world_def safe_channels_def safe_timers_def UINT32_MAX_def,
      simp add: eval_nat_numeral)

lemma test_digits: "dec_nat 4 = ''4''" "dec_nat 300000 = ''300000''" "dec_nat 600000 = ''600000''"
  by (simp_all add: dec_nat.simps digit_char_def) code_simp+

lemma test_times:
  "Timestamp_toString (Timestamp_of 4300000) = ''4.300000''" "Timestamp_toString (Timestamp_of 4600000) = ''4.600000''"
  by (simp_all add: Timestamp_toString_def Timestamp_of_def kMicroSecondsPerSecond_def trunc_simps snprintf_buf_def dec_int_def
      fmt_0d_def pad_left_def test_digits)

theorem cancelled_timer_prints_witness:
  "\<exists>w w1 out1 w2 out2. test_main test_env 7 1 test_start = Inr w
    \<and> loop_timerRead test_env (test_user test_env 7) (w\<lparr>el_clock := Timestamp_of 4300000\<rparr>) = Inr w1
    \<and> ut_out w1 = ut_out w @ out1 \<and> ''cancelled at 4.300000'' \<in> set out1
    \<and> loop_timerRead test_env (test_user test_env 7) (w1\<lparr>el_clock := Timestamp_of 4600000\<rparr>) = Inr w2
    \<and> ut_out w2 = ut_out w1 @ out2 \<and> ''msg 4.600000 once4.5'' \<in> set out2"
proof -
  obtain w t c where w: "test_main test_env 7 1 test_start = Inr w" "tq_inv [] (el_timerQueue w)"
      "safe_world {} 0 UNIV (\<lambda>w. True) w" "(4500000, 5) \<in> set (tq_timers (el_timerQueue w))"
      "(4200000, 6) \<in> set (tq_timers (el_timerQueue w))" "tq_heap (el_timerQueue w) 5 = Some t"
      "tr_callback t = Test_print ''once4.5''" "tq_heap (el_timerQueue w) 6 = Some c"
      "tr_callback c = Test_cancel (TimerId_of 5 (tr_sequence t))"
    using test_main_runs by blast
  let ?w = "w\<lparr>el_clock := Timestamp_of 4300000\<rparr>"
  have tie: "\<not> address_tie now (el_timerQueue v)" if "safe_world {} 0 UNIV (\<lambda>w. True) v" "tq_inv [] (el_timerQueue v)"
    for now and v :: test_world
    using that safe_no_tie by (auto simp: safe_world_def)
  from cancelled_timer_prints [of ?w 4500000 5 t "''once4.5''" 4200000 6 c test_env 7]
  obtain w1 out1 where w1: "loop_timerRead test_env (test_user test_env 7) ?w = Inr w1" "ut_out w1 = ut_out w @ out1"
      "''cancelled at 4.300000'' \<in> set out1"
      "\<forall>now. 4500000 \<le> microSecondsSinceEpoch now \<longrightarrow> \<not> address_tie now (el_timerQueue w1) \<longrightarrow>
        (\<exists>w2 out2. loop_timerRead test_env (test_user test_env 7) (w1\<lparr>el_clock := now\<rparr>) = Inr w2 \<and> ut_out w2 = ut_out w1 @ out2
          \<and> (''msg '' @ Timestamp_toString now @ '' '' @ ''once4.5'') \<in> set out2)"
    using w tie [OF w(3,2)] test_times(1) by (auto simp: Timestamp_of_def)
  have "safe_world {} 0 UNIV (\<lambda>w. True) ?w" using w(3) by (simp add: safe_world_def safe_channels_def)
  note v = test.timerRead_keeps [OF this _ w1(1)]
  have "\<not> address_tie (Timestamp_of 4600000) (el_timerQueue w1)" using tie [OF v] w(2) by simp
  then obtain w2 out2 where w2: "loop_timerRead test_env (test_user test_env 7) (w1\<lparr>el_clock := Timestamp_of 4600000\<rparr>) = Inr w2"
      "ut_out w2 = ut_out w1 @ out2" "''msg 4.600000 once4.5'' \<in> set out2"
    using spec [OF w1(4), of "Timestamp_of 4600000"] unfolding test_times by (auto simp: Timestamp_of_def)
  then show ?thesis using w(1) w1(1-3) by blast
qed

end
