(* ===== verification/Spec2Isabelle.thy ===== *)
theory Spec2Isabelle
  imports Net_Buffer Time_Zone Logging Async_Logging Event_Loop Loop_Threads Loop_Timers Thread_Pool Com_Safety Config
    File_Util Timer_Test
begin

text \<open>
  A verification library of ggc, a C++ service that talks to measuring devices over serial ports.
  The program consists of a port of the muduo event loop (\<^verbatim>\<open>src/src/port\<close>), a library of utilities
  (\<^verbatim>\<open>src/src/utils\<close>) and the service (\<^verbatim>\<open>src/src/bussiness_logic\<close>).

  \<^bold>\<open>How the parts work together.\<close>  \<^verbatim>\<open>main\<close> reads the configuration through \<^verbatim>\<open>ConfigMgr\<close>, which is to create
  a \<^verbatim>\<open>ComEntity\<close> for every serial port.  A \<^verbatim>\<open>ComServer\<close> spreads entities over the loops of an
  \<^verbatim>\<open>EventLoopThreadPool\<close>.  In each loop a poller reports the channels that are ready; a channel calls the
  callbacks of its owner; \<^verbatim>\<open>ComEntity::handleRead\<close> fills a \<^verbatim>\<open>Buffer\<close> and hands it to the codec.  Timers
  are one such channel.  Other threads reach a loop only through its queue of functors.  Log
  statements build a line in a fixed buffer and hand it to an output function; the asynchronous logger
  collects lines in buffers that its own thread writes to a rolling file.

  \<^bold>\<open>Conventions.\<close>  The program is built in CMake's Debug configuration, so a failed \<^verbatim>\<open>assert\<close> is a fault.
  A fallible operation returns an \<open>outcome\<close>: \<open>Inl\<close> a fault of \<open>cfault\<close> or \<open>Inr\<close> the result.  Objects are
  records, passed and returned; objects that are shared through pointers (channels, timers) live in a
  heap, a map from addresses.  Integers that can wrap around are words, or integers with the
  reduction written out (\<open>int32\<close>, \<open>add32\<close>, \<open>size_add\<close>, \<open>size_sub\<close>).  Results of system calls, the clock, the
  memory allocator, the content of uninitialised memory and floating-point rounding are parameters.
  Logging from inside a component is not part of its state, except that \<^verbatim>\<open>LOG_SYSFATAL\<close> aborts.

  \<^bold>\<open>The theories.\<close>
  \<^item> \<open>Prelude\<close>, \<open>Text_Format\<close>: faults and outcomes, machine integers, contiguous memory; the decimal
    conversions of the C library.
  \<^item> \<open>Endian_Order\<close> (\<^verbatim>\<open>port/Endian.h\<close>), \<open>String_Piece\<close> (\<^verbatim>\<open>utils/StringPiece.h\<close>), \<open>Net_Buffer\<close>
    (\<^verbatim>\<open>port/Buffer.h\<close>, \<^verbatim>\<open>Buffer.cpp\<close>): the buffer implements a queue of bytes (locales \<open>byte_queue\<close> and
    \<open>byte_deque\<close>), stays well formed, carries integers in network order, and its search for line ends
    finds the first one.
  \<^item> \<open>Calendar\<close> (\<^verbatim>\<open>utils/Date\<close>), \<open>Time_Stamp\<close> (\<^verbatim>\<open>utils/Timestamp\<close>), \<open>Time_Zone\<close> (\<^verbatim>\<open>utils/TimeZone\<close>): the
    conversions of dates and times are inverse to each other, in 32-bit arithmetic up to the last day for
    which it does not overflow, and the binary search in zone data finds the local time in force.
  \<^item> \<open>Log_Stream\<close>, \<open>Logging\<close>, \<open>Log_File\<close>, \<open>Async_Logging\<close> (the files of \<^verbatim>\<open>utils\<close> with these names): number
    formatting against decimal notation, streams that never write outside their array (locale
    \<open>append_buffer\<close>), the layout of a line, files that keep all lines over rolls (locale \<open>log_sink\<close>),
    and the interleaving of logging threads with the writing thread.  The section below connects them.
  \<^item> \<open>Threads\<close> (\<^verbatim>\<open>utils/Atomic.h\<close>, \<^verbatim>\<open>CurrentThread.h\<close>, \<^verbatim>\<open>Thread\<close>), \<open>Monitors\<close> (\<^verbatim>\<open>utils/Mutex.h\<close>,
    \<^verbatim>\<open>Condition\<close>), \<open>Blocking_Queues\<close> (\<^verbatim>\<open>utils/BlockingQueue.h\<close>, \<^verbatim>\<open>BoundedBlockingQueue.h\<close>,
    \<^verbatim>\<open>CountDownLatch\<close>), \<open>Thread_Pool\<close> (\<^verbatim>\<open>utils/ThreadPool\<close>): every run of any number of threads through
    guarded operations; a run is a sequence of single steps, with signals and spurious wake-ups.  The
    locales \<open>broadcast_condition\<close> and \<open>counted_condition\<close> state when no wake-up is lost and are
    interpreted on every condition variable of the queues, the latch and the pool.
  \<^item> \<open>Timers\<close> (\<^verbatim>\<open>port/Timer\<close>, \<^verbatim>\<open>TimerId.h\<close>, \<^verbatim>\<open>TimerQueue\<close>), \<open>Channels\<close> (\<^verbatim>\<open>port/Channel\<close>), \<open>Pollers\<close>
    (\<^verbatim>\<open>port/Poller.h\<close>, \<^verbatim>\<open>PollPoller\<close>, \<^verbatim>\<open>EPollPoller\<close>, \<^verbatim>\<open>DefaultPoller.cpp\<close>), \<open>Event_Loop\<close>
    (\<^verbatim>\<open>port/EventLoop\<close>), \<open>Loop_Threads\<close> (\<^verbatim>\<open>port/EventLoopThread\<close>, \<^verbatim>\<open>EventLoopThreadPool\<close>): which timers
    fire, which callbacks an event leads to, the registration of channels as a map (locale
    \<open>channel_registry\<close>), and the loop thread in single steps, between which other threads act.  The functions
    of the users are a parameter of the loop and may do anything to it.  What is passed to \<^verbatim>\<open>queueInLoop\<close> is
    followed apart from what the loop keeps of it (\<open>functors_called_in_order\<close>).  \<open>Loop_Timers\<close> composes the loop, its
    poller, its timer channel and the queue: a timer that is set fires, from the poll to the callback, and
    a repeated one fires in every iteration that is late enough.  \<open>Loop_Safety\<close> states, in the locale \<open>safe_loop\<close>, what
    the functions of the users have to promise so that no interleaving makes the loop fault and a loop that is
    asked to quit ends; it is interpreted on functions that act outside the loop, on those of the serial
    ports and on those of the timer test program.
  \<^item> \<open>Serial_Port\<close>, \<open>Com_Port\<close> (\<^verbatim>\<open>bussiness_logic/ComEntity\<close>, \<^verbatim>\<open>RS485Codec.h\<close>, \<^verbatim>\<open>ComServer\<close>), \<open>Config\<close>
    (\<^verbatim>\<open>ConfigMgr\<close>, \<^verbatim>\<open>MonitorUnit\<close>, \<^verbatim>\<open>MeasurePoint\<close>, \<^verbatim>\<open>MainService.cpp\<close>): the settings of a port, its write loop,
    framing, sending, creating entities, and reading the configuration.  \<open>Com_Loop\<close> runs entities in their
    loop: its state \<open>com_world\<close> extends the loop by the entities and the reads to come, and the functions of
    the entities are the user code.  The bytes that arrive reach the message callbacks (locale
    \<open>message_sink\<close>, interpreted on the server's codec and the default callback); what they were called with is
    what the callbacks themselves record (\<open>watching\<close> gives a callback that does).  \<open>Com_Safety\<close> covers every interleaving,
    with reads that fail or return nothing: no fault, no byte lost, and an end when the loop is asked to quit.
  \<^item> \<open>Timer_Test\<close> (\<^verbatim>\<open>unittest/Timer_unittest.cpp\<close>): a program of the repository that sets and cancels timers, on the
    model of the loop; what it cancels fires all the same.
  \<^item> \<open>File_Util\<close> (\<^verbatim>\<open>utils/FileUtil\<close>, \<^verbatim>\<open>ProcessInfo\<close>, \<^verbatim>\<open>Exception\<close>): reading files and the process's view of
    itself.

  \<^bold>\<open>Bounds and loops.\<close>  Buffers are considered below 2 GiB of storage, where the program's conversions of
  sizes to \<^verbatim>\<open>int\<close> are exact; a log line leaves 32 characters of its 4000 free.  A loop that ends by
  itself is a total function.  A loop around a system call consumes the list of the call's results
  and returns \<open>None\<close> when the list is used up; the theorems say how many results are enough
  (\<open>serialWrite_sends_all\<close>).  \<^verbatim>\<open>read\<close> on a file is a function of the state of the kernel and the number of bytes
  asked for, and its loop ends by itself.  The event loop runs in steps without a bound; that it ends is
  proved for every schedule that lets its thread go on (\<open>ports_quit_cleanly\<close>).  A loop is shown safe with timers at addresses
  below \<^verbatim>\<open>UINT32_MAX\<close> (all addresses of a 32-bit process): above it a timer that is due at the very microsecond of
  the call fails an assertion of \<^verbatim>\<open>getExpired\<close>.  The loops of \<^verbatim>\<open>ConfigMgr\<close> are partial functions where
  \<open>None\<close> means that the loop does not end; \<open>config_update_returns\<close> says exactly when that is so, and when
  they use a null pointer, for every TinyXML.  The statements about the log file are about runs in which no
  \<^verbatim>\<open>fopen\<close> and no \<^verbatim>\<open>fwrite\<close> fails; a short write, which only an error causes, makes \<^verbatim>\<open>File::append\<close> overrun the line.

  \<^bold>\<open>Properties of faulty code.\<close>  Some parts of the program do not do what they are meant to.  The
  theorems about them state what the code does, for all inputs: no zone file is ever loaded, timers
  cannot be cancelled, the log never rolls by size, the second update of a channel with the default
  poller fails an assertion, a wait for room in a bounded thread pool aborts, destroying a loop thread
  may hang or use a loop that is gone, an opened port sends nothing, destroying the server leaves its ports registered with the
  poller, and no configuration makes a port.

  \<^bold>\<open>Not modelled.\<close>  The templates \<^verbatim>\<open>Singleton\<close>, \<^verbatim>\<open>ThreadLocal\<close> and \<^verbatim>\<open>ThreadLocalSingleton\<close> name functions that
  do not exist and are never instantiated; the functions that \<^verbatim>\<open>setProtocol\<close> and \<^verbatim>\<open>setPort\<close> of \<^verbatim>\<open>MonitorUnit\<close>
  call have no definition and are arguments; the header files of callback types contain no code; \<^verbatim>\<open>MonitorUnitMgr\<close>,
  \<^verbatim>\<open>DefaultComCodec.cpp\<close> and \<^verbatim>\<open>RS485Codec.cpp\<close> are empty.  The vendored MySQL connector is not called.
  Of the test programs only the one for timers is modelled, up to its call of \<^verbatim>\<open>loop()\<close>.
  TinyXML, which the configuration reader needs, is not in the repository: its functions are the
  fields of the parameter \<open>tinyxml\<close>.  Data races on unprotected fields (such as \<^verbatim>\<open>quit_\<close>) are modelled
  as interleavings of whole steps.
\<close>

section \<open>From the log statement to the buffers of the asynchronous logger\<close>

text \<open>
  The calls a \<^verbatim>\<open>Logger\<close> makes of \<^verbatim>\<open>g_output\<close>, \<^verbatim>\<open>g_flush\<close> and \<^verbatim>\<open>abort\<close> in its destructor, when \<^verbatim>\<open>g_output\<close> is
  \<^verbatim>\<open>AsyncLogging::append\<close>.  \<open>junk\<close> is the content of a newly allocated buffer.
\<close>

fun async_effects :: "string \<Rightarrow> log_effect list \<Rightarrow> async_front \<Rightarrow> async_front outcome" where
  "async_effects junk [] a = Inr a"
| "async_effects junk (Output msg # es) a =
     seq (AsyncLogging_append junk msg a) (\<lambda>a. async_effects junk es a)"
| "async_effects junk (Flush # es) a = async_effects junk es a"
| "async_effects junk (Abort # es) a = Inl Fatal_Abort"

text \<open>A log statement with the time at which it runs.\<close>

record log_call =
  lc_now :: "int \<times> int"
  lc_macro :: log_macro
  lc_file :: string
  lc_line :: "32 word"
  lc_func :: string
  lc_errno :: "32 word"
  lc_items :: "log_item list"

fun run_calls ::
  "log_env \<Rightarrow> LogLevel \<Rightarrow> string \<Rightarrow> string \<Rightarrow> log_call list \<Rightarrow> log_thread \<times> async_front
   \<Rightarrow> (log_thread \<times> async_front) outcome"
where
  "run_calls env g sjunk bjunk [] s = Inr s"
| "run_calls env g sjunk bjunk (c # cs) (th, a) =
     seq (log_statement (env\<lparr>env_now := lc_now c\<rparr>) g sjunk (lc_macro c) (lc_file c) (lc_line c) (lc_func c)
            (lc_errno c) (lc_items c) th) (\<lambda>(es, th).
     seq (async_effects bjunk es a) (\<lambda>a. run_calls env g sjunk bjunk cs (th, a)))"

definition call_line :: "log_env \<Rightarrow> log_call \<Rightarrow> string" where
  "call_line env c = log_line (env\<lparr>env_now := lc_now c\<rparr>) (lc_macro c) (lc_file c) (lc_line c) (lc_items c)"

definition call_ok :: "log_env \<Rightarrow> log_call \<Rightarrow> bool" where
  "call_ok env c \<longleftrightarrow>
     lc_macro c \<in> {LOG_INFO, LOG_WARN, LOG_ERROR} \<and> list_all item_ok (lc_items c)
     \<and> 0 < env_seconds (env\<lparr>env_now := lc_now c\<rparr>)
     \<and> tm_ok (env_gmtime_r env (env_seconds (env\<lparr>env_now := lc_now c\<rparr>)))
     \<and> length (call_line env c) + 32 \<le> kSmallBuffer"

text \<open>Every statement fills at most one buffer.\<close>

lemma append_buffers: "AsyncLogging_append junk line a = Inr a' \<Longrightarrow> length (al_buffers a') \<le> Suc (length (al_buffers a))"
  by (auto simp: AsyncLogging_append_def Let_def seq_eq_Inr split: if_splits option.splits)

lemma run_calls_text:
  assumes "0 < env_gettid env" "env_gettid env < 100000" "\<forall>v. length (env_fmt_g env v) < 32"
    and "length sjunk = kSmallBuffer" "length bjunk = kLargeBuffer"
    and "list_all (call_ok env) cs" "thread_ok env th" "front_inv a"
  shows "\<exists>th' a'. run_calls env g sjunk bjunk cs (th, a) = Inr (th', a') \<and> front_inv a'
    \<and> front_text a' = front_text a @ concat (map (call_line env) (filter (\<lambda>c. macro_enabled g (lc_macro c)) cs))
    \<and> length (al_buffers a') \<le> length (al_buffers a) + length cs"
  using assms(6-8)
proof (induction cs arbitrary: th a)
  case Nil
  then show ?case by simp
next
  case (Cons c cs)
  let ?env = "env\<lparr>env_now := lc_now c\<rparr>" and ?line = "call_line env c"
  have c: "call_ok env c" "list_all (call_ok env) cs" using Cons.prems(1) by simp_all
  have ok: "env_ok ?env th"
    using env_ok_thread [of ?env th] c(1) Cons.prems(2) assms(1-3) by (auto simp: call_ok_def thread_ok_def)
  have stm: "if macro_enabled g (lc_macro c)
      then \<exists>th'. log_statement ?env g sjunk (lc_macro c) (lc_file c) (lc_line c) (lc_func c) (lc_errno c) (lc_items c) th
               = Inr ([Output ?line], th') \<and> thread_ok ?env th'
      else log_statement ?env g sjunk (lc_macro c) (lc_file c) (lc_line c) (lc_func c) (lc_errno c) (lc_items c) th
               = Inr ([], th)"
    using log_statement_text [OF ok assms(4), of "lc_macro c" "lc_items c" ?line "lc_file c" "lc_line c" g "lc_func c"
        "lc_errno c"] c(1)
    by (auto simp: call_ok_def call_line_def list_all_iff split: if_splits)
  show ?case
  proof (cases "macro_enabled g (lc_macro c)")
    case True
    then obtain th' where th': "log_statement ?env g sjunk (lc_macro c) (lc_file c) (lc_line c) (lc_func c) (lc_errno c)
        (lc_items c) th = Inr ([Output ?line], th')" "thread_ok env th'"
      using stm by (auto simp: thread_ok_def)
    obtain a' where a': "AsyncLogging_append bjunk ?line a = Inr a'" "front_inv a'"
        "front_text a' = front_text a @ ?line"
      using append_keeps [OF Cons.prems(3) _ assms(5), of ?line] c(1)
      by (auto simp: call_ok_def kSmallBuffer_def kLargeBuffer_def)
    from Cons.IH [OF c(2) th'(2) a'(2)] show ?thesis
      using True th'(1) a'(1,3) append_buffers [OF a'(1)] by auto
  next
    case False
    with Cons.IH [OF c(2) Cons.prems(2,3)] stm show ?thesis by auto
  qed
qed

lemma swap_takes_all:
  assumes "back_inv env b" "ab_pc b = At_Loop" "threadFunc_swap a b = Inr (a', b')"
  shows "front_text a' = []" "ab_pc b' = Swapped" "length (ab_toWrite b') = Suc (length (al_buffers a))"
  using assms
  by (auto simp: threadFunc_swap_def back_inv_def front_text_def cassert_def buf_fresh_empty Let_def
      split: if_splits option.splits)

lemma written_text:
  assumes "back_inv env b" "ab_pc b = Swapped" "length (ab_toWrite b) \<le> 25"
  shows "\<exists>b'. threadFunc_write env now b = Inr b' \<and> lf_text (ab_output b') = back_text b"
proof -
  obtain b' where b': "threadFunc_write env now b = Inr b'" "back_text b' = back_text b"
    using write_keeps [OF assms(1,2)] assms(3) by blast
  moreover have "ab_toWrite b' = []"
    using b'(1) by (auto simp: threadFunc_write_def cassert_def Let_def seq_eq_Inr split: if_splits prod.splits)
  ultimately show ?thesis by (auto simp: back_text_def)
qed

text \<open>
  C17: What a thread logs reaches the log file, line by line and in order.  With \<^verbatim>\<open>AsyncLogging::append\<close> as
  the output function, any sequence of \<^verbatim>\<open>LOG_INFO\<close>, \<^verbatim>\<open>LOG_WARN\<close> and \<^verbatim>\<open>LOG_ERROR\<close> statements runs without a
  fault, whatever the seconds cached by the thread; and when the writing thread then swaps and writes,
  with fewer than 25 full buffers waiting (beyond that the code drops buffers) and no \<^verbatim>\<open>fopen\<close> or \<^verbatim>\<open>fwrite\<close>
  failing, nothing is left in the front end and the file holds what it held, what was waiting, and the
  lines of exactly the statements that the global level enables.  (Each line leaves 32 of the 4000
  characters free; the thread id is below 100000, the limit of \<open>cacheTid_five_digits\<close>; the clock is past the
  first second of 1970, and \<^verbatim>\<open>gmtime_r\<close> fills its fields with two-digit numbers and a four-digit year.)
\<close>

theorem logged_lines_reach_file:
  assumes "0 < env_gettid env" "env_gettid env < 100000" "\<forall>v. length (env_fmt_g env v) < 32"
    and "length sjunk = kSmallBuffer" "length bjunk = kLargeBuffer"
    and "list_all (call_ok env) cs" "thread_ok env th"
    and "front_inv a" "back_inv fenv b" "ab_pc b = At_Loop"
  shows "\<exists>th' a'. run_calls env g sjunk bjunk cs (th, a) = Inr (th', a') \<and>
    (length (al_buffers a') < 25 \<longrightarrow>
      (\<exists>a'' b' b''. threadFunc_swap a' b = Inr (a'', b') \<and> threadFunc_write fenv now b' = Inr b''
        \<and> front_text a'' = []
        \<and> lf_text (ab_output b'') = lf_text (ab_output b) @ front_text a
            @ concat (map (call_line env) (filter (\<lambda>c. macro_enabled g (lc_macro c)) cs))))"
proof -
  obtain th' a' where run: "run_calls env g sjunk bjunk cs (th, a) = Inr (th', a')" "front_inv a'"
      "front_text a' = front_text a @ concat (map (call_line env) (filter (\<lambda>c. macro_enabled g (lc_macro c)) cs))"
    using run_calls_text [OF assms(1-8)] by blast
  obtain a'' b' where swap: "threadFunc_swap a' b = Inr (a'', b')" "back_inv fenv b'"
      "back_text b' @ front_text a'' = back_text b @ front_text a'"
    using swap_keeps [OF run(2) assms(9,10)] by blast
  note taken = swap_takes_all [OF assms(9,10) swap(1)]
  have "back_text b = lf_text (ab_output b)"
    using assms(9,10) by (simp add: back_inv_def back_text_def)
  then show ?thesis
    using run(1,3) swap taken(1,3) written_text [OF swap(2) taken(2), of now] by auto
qed

definition hello_call :: log_call where
  "hello_call = \<lparr>lc_now = (1, 5), lc_macro = LOG_WARN, lc_file = ''src/a.cpp'', lc_line = 7, lc_func = ''f'', lc_errno = 0,
     lc_items = [L_cstr ''hi'']\<rparr>"

lemma hello_call_ok: "call_ok env0 hello_call" "thread_ok env0 thread0"
proof -
  have secs: "env_seconds (env0\<lparr>env_now := lc_now hello_call\<rparr>) = 1"
    by (simp add: env_seconds_def hello_call_def)
  have tm: "tm_ok (env_gmtime_r env0 1)"
    by (simp add: env0_def tm_ok_def)
  have "length (call_line env0 hello_call) = 51"
    unfolding call_line_def hello_call_def env0_def by code_simp
  then show "call_ok env0 hello_call"
    using tm secs by (simp add: call_ok_def) (simp add: hello_call_def kSmallBuffer_def)
  show "thread_ok env0 thread0"
    by (simp add: thread_ok_def thread0_def initial_locals_def)
qed

theorem logged_lines_reach_file_witness:
  "\<exists>output a b th' a' a'' b' b''. LogFile_new file_env0 5 ''ggc'' 0 False 3 = Inr output
     \<and> async_started file_env0 (replicate kLargeBuffer CHR ''?'') output = Running a b [] False
     \<and> run_calls env0 INFO (replicate kSmallBuffer CHR ''?'') (replicate kLargeBuffer CHR ''?'') [hello_call]
         (thread0, a) = Inr (th', a')
     \<and> threadFunc_swap a' b = Inr (a'', b') \<and> threadFunc_write file_env0 (Timestamp_of 0) b' = Inr b''
     \<and> lf_text (ab_output b'') = call_line env0 hello_call"
proof -
  define sj where "sj = replicate kSmallBuffer CHR ''?''"
  define bj where "bj = replicate kLargeBuffer CHR ''?''"
  have junk: "length sj = kSmallBuffer" "length bj = kLargeBuffer"
    by (simp_all add: sj_def bj_def)
  have env: "no_io_error file_env0"
    by (simp add: no_io_error_def file_env0_def)
  obtain lf where out: "LogFile_new file_env0 5 ''ggc'' 0 False 3 = Inr lf" "lf_inv lf" "lf_text lf = []"
    using LogFile_new_opens [OF env, of "''ggc''" 5 0 False 3] by auto
  obtain a b where s0: "async_started file_env0 bj lf = Running a b [] False"
      "ab_pc b = At_Loop" "al_buffers a = []" "ab_output b = lf" "al_running a"
    by (auto simp: async_started_def Let_def AsyncLogging_new_def AsyncLogging_start_def threadFunc_init_def)
  then have inv: "front_inv a" "back_inv file_env0 b" "front_text a = []"
    using async_started_inv [OF env out(2,3) junk(2)] out(3) by (auto simp: back_text_def)
  have settings: "0 < env_gettid env0" "env_gettid env0 < 100000" "\<forall>v. length (env_fmt_g env0 v) < 32"
    by (simp_all add: env0_def)
  have calls: "list_all (call_ok env0) [hello_call]"
    using hello_call_ok(1) by simp
  obtain th' a' where run: "run_calls env0 INFO sj bj [hello_call] (thread0, a) = Inr (th', a')"
      "length (al_buffers a') < 25 \<longrightarrow>
        (\<exists>a'' b' b''. threadFunc_swap a' b = Inr (a'', b') \<and> threadFunc_write file_env0 (Timestamp_of 0) b' = Inr b''
          \<and> front_text a'' = [] \<and> lf_text (ab_output b'') = lf_text (ab_output b) @ front_text a
              @ concat (map (call_line env0) (filter (\<lambda>c. macro_enabled INFO (lc_macro c)) [hello_call])))"
    using logged_lines_reach_file [OF settings junk calls hello_call_ok(2) inv(1,2) s0(2), of INFO "Timestamp_of 0"] by blast
  have "length (al_buffers a') < 25"
    using run_calls_text [OF settings junk calls hello_call_ok(2) inv(1), of INFO] run(1) s0(3) by auto
  moreover have "macro_enabled INFO (lc_macro hello_call)"
    by (simp add: hello_call_def macro_enabled_def)
  ultimately show ?thesis
    using out run s0(1,4) inv(3) unfolding sj_def bj_def by auto
qed

end
